(* ===== verification/Machina_Prelude.thy ===== *)
theory Machina_Prelude
  imports "HOL-Library.Word" "HOL-Library.Product_Lexorder"
begin

unbundle bit_operations_syntax

text \<open>
  Shared material of the development: the names of the machine-integer types of the Rust
  sources, the reading of \<open>Result\<close> as a sum type, and generic facts on bits, masks, lists
  and little-endian bytes that the component theories use through the collections
  \<open>mask_simps\<close> and \<open>res_simps\<close>.
\<close>

section \<open>Types\<close>

type_synonym u8 = "8 word"
type_synonym u16 = "16 word"
type_synonym u32 = "32 word"
type_synonym u64 = "64 word"

text \<open>A Rust \<open>Result<T, E>\<close> is the sum \<open>E + T\<close>: \<open>Err e\<close> is \<open>Inl e\<close>, \<open>Ok x\<close> is \<open>Inr x\<close>.\<close>

abbreviation Err :: "'e \<Rightarrow> 'e + 'a" where "Err \<equiv> Inl"
abbreviation Ok :: "'a \<Rightarrow> 'e + 'a" where "Ok \<equiv> Inr"

named_theorems mask_simps \<open>single-bit tests and masks of machine words\<close>
named_theorems res_simps \<open>sequencing of results\<close>

text \<open>The \<open>?\<close> operator: continue with the value, or return the error.\<close>

definition res_bind :: "'e + 'a \<Rightarrow> ('a \<Rightarrow> 'e + 'b) \<Rightarrow> 'e + 'b" where
  "res_bind r f = (case r of Inl e \<Rightarrow> Inl e | Inr x \<Rightarrow> f x)"

lemma res_bind_simps [simp, res_simps]:
  "res_bind (Inl e) f = Inl e"
  "res_bind (Inr x) f = f x"
  by (simp_all add: res_bind_def)

lemma res_bind_Ok [res_simps]:
  "res_bind r f = Inr y \<longleftrightarrow> (\<exists>x. r = Inr x \<and> f x = Inr y)"
  by (cases r) auto

lemma res_bind_Err [res_simps]:
  "res_bind r f = Inl e \<longleftrightarrow> r = Inl e \<or> (\<exists>x. r = Inr x \<and> f x = Inl e)"
  by (cases r) auto

definition map_err :: "('e \<Rightarrow> 'f) \<Rightarrow> 'e + 'a \<Rightarrow> 'f + 'a" where
  "map_err f r = (case r of Inl e \<Rightarrow> Inl (f e) | Inr x \<Rightarrow> Inr x)"

lemma map_err_simps [simp, res_simps]:
  "map_err f (Inl e) = Inl (f e)"
  "map_err f (Inr x) = Inr x"
  by (simp_all add: map_err_def)

lemma map_err_Ok [simp, res_simps]: "map_err f r = Inr x \<longleftrightarrow> r = Inr x"
  by (cases r) auto

section \<open>Bits and masks\<close>

text \<open>The test \<open>x & (1 << n) != 0\<close> of the sources.\<close>

definition has_bits :: "'a::len word \<Rightarrow> 'a word \<Rightarrow> bool" where
  "has_bits x m \<longleftrightarrow> x AND m \<noteq> 0"

lemma and_exp_eq_0_iff: "x AND 2 ^ n = 0 \<longleftrightarrow> \<not> bit x n" for x :: "'a::len word"
proof (cases "n < LENGTH('a)")
  case True
  show ?thesis
  proof
    assume "x AND 2 ^ n = 0"
    then have "\<not> bit (x AND 2 ^ n) n" by simp
    with True show "\<not> bit x n" by (simp add: bit_simps)
  next
    assume "\<not> bit x n"
    then show "x AND 2 ^ n = 0" by (auto intro!: bit_eqI simp: bit_simps)
  qed
next
  case False
  then have z: "(2::'a word) ^ n = 0" by simp
  from False have "\<not> bit x n" by (simp add: impossible_bit)
  then show ?thesis unfolding z by simp
qed

lemma bit_push_bit_1 [mask_simps]:
  "bit (push_bit k (1::'a::len word)) n \<longleftrightarrow> n = k \<and> k < LENGTH('a)"
  by (auto simp: bit_simps)

lemma and_push_bit_1 [mask_simps]: "x AND push_bit k 1 = 0 \<longleftrightarrow> \<not> bit x k" for x :: "'a::len word"
  using and_exp_eq_0_iff [of x k] by (simp add: push_bit_eq_mult)

section \<open>Little-endian bytes\<close>

text \<open>\<open>u64::from_le_bytes\<close> on a buffer padded with zeros, and the first \<open>n\<close> bytes of \<open>to_le_bytes\<close>.\<close>

fun from_le_bytes :: "u8 list \<Rightarrow> u64" where
  "from_le_bytes [] = 0"
| "from_le_bytes (b # bs) = ucast b OR push_bit 8 (from_le_bytes bs)"

fun to_le_bytes :: "nat \<Rightarrow> u64 \<Rightarrow> u8 list" where
  "to_le_bytes 0 v = []"
| "to_le_bytes (Suc n) v = ucast v # to_le_bytes n (drop_bit 8 v)"

lemma length_to_le_bytes [simp]: "length (to_le_bytes n v) = n"
  by (induction n arbitrary: v) auto

lemma from_to_le_bytes: "from_le_bytes (to_le_bytes n v) = take_bit (8 * n) v"
proof (induction n arbitrary: v)
  case (Suc n)
  show ?case
    by (rule bit_eqI) (auto simp: Suc bit_simps)
qed simp

lemma from_le_bytes_bound: "bit (from_le_bytes bs) i \<Longrightarrow> i < 8 * length bs"
proof (induction bs arbitrary: i)
  case (Cons b bs)
  then show ?case
    by (cases "i < 8") (fastforce simp: bit_simps dest: bit_imp_le_length)+
qed simp

lemma take_bit_from_le_bytes: "take_bit (8 * length bs) (from_le_bytes bs) = from_le_bytes bs"
  by (rule bit_eqI) (auto simp: bit_take_bit_iff dest: from_le_bytes_bound)

text \<open>Reading and writing a run of bytes of a block; out of range there is no result.\<close>

definition load_bytes :: "u8 list \<Rightarrow> nat \<Rightarrow> nat \<Rightarrow> u8 list option" where
  "load_bytes block off n =
     (if off + n \<le> length block then Some (take n (drop off block)) else None)"

definition store_bytes :: "u8 list \<Rightarrow> nat \<Rightarrow> u8 list \<Rightarrow> u8 list option" where
  "store_bytes block off bs =
     (if off + length bs \<le> length block
      then Some (take off block @ bs @ drop (off + length bs) block) else None)"

lemma store_bytes_length: "store_bytes block off bs = Some block' \<Longrightarrow> length block' = length block"
  by (auto simp: store_bytes_def split: if_splits)

lemma load_store_same:
  "store_bytes block off bs = Some block' \<Longrightarrow> load_bytes block' off (length bs) = Some bs"
  by (auto simp: store_bytes_def load_bytes_def split: if_splits)

lemma load_store_other:
  assumes "store_bytes block off bs = Some block'" and "off' + n \<le> off \<or> off + length bs \<le> off'"
  shows "load_bytes block' off' n = load_bytes block off' n"
  using assms store_bytes_length [OF assms(1)]
  by (auto simp: store_bytes_def load_bytes_def nth_append min_def intro!: nth_equalityI split: if_splits)

section \<open>Widths\<close>

lemma unat_u32_to_u64 [simp]: "unat (ucast (x :: u32) :: u64) = unat x"
proof -
  have "unat x < 2 ^ 32"
    using unsigned_less [of x, where ?'a = nat] by simp
  then show ?thesis
    by (simp add: unsigned_ucast_eq take_bit_nat_eq_self)
qed

section \<open>Masked updates\<close>

text \<open>Facts on the read-modify-write \<open>(x & !m) | (v & m)\<close> of a masked register.\<close>

lemma merge_outside [simp]: "((x AND NOT m) OR (v AND m)) AND NOT m = x AND NOT m"
  for x :: "'a::len word"
  by (rule bit_eqI) (auto simp: bit_simps)

lemma merge_outside_and [simp]:
  "((x AND (NOT a OR NOT b)) OR (v AND a AND b)) AND (NOT a OR NOT b) = x AND (NOT a OR NOT b)"
  for x :: "'a::len word"
  by (rule bit_eqI) (auto simp: bit_simps)

lemma merge_inside: "((x AND NOT m) OR (v AND m)) AND m = v AND m"
  for x :: "'a::len word"
  by (rule bit_eqI) (auto simp: bit_simps)

lemma merge_same:
  assumes "v AND m = x AND m"
  shows "(x AND NOT m) OR (v AND m) = x"
  unfolding assms by (rule bit_eqI) (auto simp: bit_simps)

text \<open>A value with no bit outside a mask.\<close>

definition within :: "'a::len word \<Rightarrow> 'a word \<Rightarrow> bool" where
  "within x m \<longleftrightarrow> x AND NOT m = 0"

lemma within_iff: "within x m \<longleftrightarrow> (\<forall>n. bit x n \<longrightarrow> bit m n)"
  by (auto simp: within_def bit_eq_iff bit_simps dest: bit_imp_le_length)

lemma within_and [simp]: "within (x AND m) m" "within (m AND x) m"
  by (auto simp: within_iff bit_simps)

lemma within_0 [simp]: "within 0 m"
  by (simp add: within_def)

lemma within_merge:
  assumes "within x m" and "within k m"
  shows "within ((x AND NOT k) OR (v AND k)) m"
  using assms by (auto simp: within_iff bit_simps)

lemma within_absorb: "within x m \<Longrightarrow> x AND m = x"
  by (rule bit_eqI) (auto simp: within_iff bit_simps)

lemma bit_push_bit_2: "bit (push_bit k 2 :: 'a::len word) n \<longleftrightarrow> n = Suc k \<and> Suc k < LENGTH('a)"
proof -
  have two: "push_bit k (2 :: 'a word) = push_bit (Suc k) 1"
    by (simp add: push_bit_eq_mult)
  show ?thesis
    unfolding two bit_push_bit_1 by (rule refl)
qed

lemma bit_push_bit_3:
  "bit (push_bit k 3 :: 'a::len word) n \<longleftrightarrow> n = k \<and> k < LENGTH('a) \<or> n = Suc k \<and> Suc k < LENGTH('a)"
proof -
  have three: "(3 :: 'a word) = mask 2"
    by (simp add: mask_eq_exp_minus_1)
  have "k \<le> n \<and> n < LENGTH('a) \<and> n - k < min LENGTH('a) 2 \<longleftrightarrow>
      n = k \<and> k < LENGTH('a) \<or> n = Suc k \<and> Suc k < LENGTH('a)"
    by (auto simp: min_def)
  then show ?thesis
    unfolding three bit_push_bit_iff bit_mask_iff by auto
qed

end
