(* ===== verification/Memory_Regions.thy ===== *)
theory Memory_Regions
  imports Machina_Prelude
begin

text \<open>
  The region tree and its flattening (\<open>memory/src/region.rs\<close>, \<open>memory/src/flat_view.rs\<close>).
  A leaf region names its backing store by a number: a RAM or ROM block (\<open>Arc<RamBlock>\<close>) or a
  device (\<open>Arc<dyn MmioOps>\<close>); cloning the \<open>Arc\<close> copies the number. Address arithmetic is at
  64 bits and wraps, as in a release build. The main result is that the sorted list of
  fragments built by \<open>from_region\<close> answers every lookup as the reference \<open>resolve\<close> does:
  by the first covering leaf in the order of descending priority and ascending address.
\<close>

section \<open>The region tree\<close>

datatype memory_region =
  MemoryRegion (mr_name: string) (mr_size: u64) (mr_region_type: region_type)
    (mr_priority: int) (mr_subregions: "sub_region list") (mr_enabled: bool)
and region_type =
    Ram (rt_block: nat)
  | Rom (rt_block: nat)
  | Io (rt_ops: nat)
  | Alias (rt_target: memory_region) (rt_offset: u64)
  | Container
and sub_region = SubRegion (sr_region: memory_region) (sr_offset: u64)

definition region_container :: "string \<Rightarrow> u64 \<Rightarrow> memory_region" where
  "region_container name sz = MemoryRegion name sz Container 0 [] True"

text \<open>\<open>MemoryRegion::ram\<close> and \<open>::rom\<close> allocate a block; the allocated block's number is given.\<close>

definition region_ram :: "string \<Rightarrow> u64 \<Rightarrow> nat \<Rightarrow> memory_region \<times> nat" where
  "region_ram name sz block = (MemoryRegion name sz (Ram block) 0 [] True, block)"

definition region_rom :: "string \<Rightarrow> u64 \<Rightarrow> nat \<Rightarrow> memory_region \<times> nat" where
  "region_rom name sz block = (MemoryRegion name sz (Rom block) 0 [] True, block)"

definition region_io :: "string \<Rightarrow> u64 \<Rightarrow> nat \<Rightarrow> memory_region" where
  "region_io name sz dev = MemoryRegion name sz (Io dev) 0 [] True"

definition region_alias :: "string \<Rightarrow> memory_region \<Rightarrow> u64 \<Rightarrow> u64 \<Rightarrow> memory_region" where
  "region_alias name target off sz = MemoryRegion name sz (Alias target off) 0 [] True"

fun add_subregion :: "memory_region \<Rightarrow> memory_region \<Rightarrow> u64 \<Rightarrow> memory_region" where
  "add_subregion (MemoryRegion n sz ty p subs en) region off =
     MemoryRegion n sz ty p (subs @ [SubRegion region off]) en"

fun set_priority :: "memory_region \<Rightarrow> int \<Rightarrow> memory_region" where
  "set_priority (MemoryRegion n sz ty p subs en) q = MemoryRegion n sz ty q subs en"

definition add_subregion_with_priority ::
    "memory_region \<Rightarrow> memory_region \<Rightarrow> u64 \<Rightarrow> int \<Rightarrow> memory_region" where
  "add_subregion_with_priority r region off prio = add_subregion r (set_priority region prio) off"

text \<open>\<open>iter().position(p)\<close> followed by \<open>Vec::remove\<close>: the first match and the list without it.\<close>

fun remove_first :: "('a \<Rightarrow> bool) \<Rightarrow> 'a list \<Rightarrow> ('a \<times> 'a list) option" where
  "remove_first p [] = None"
| "remove_first p (x # xs) =
     (if p x then Some (x, xs)
      else map_option (\<lambda>(y, ys). (y, x # ys)) (remove_first p xs))"

fun remove_subregion ::
    "memory_region \<Rightarrow> u64 \<Rightarrow> string \<Rightarrow> memory_region option \<times> memory_region" where
  "remove_subregion (MemoryRegion n sz ty p subs en) off name =
     (case remove_first (\<lambda>s. sr_offset s = off \<and> mr_name (sr_region s) = name) subs of
        None \<Rightarrow> (None, MemoryRegion n sz ty p subs en)
      | Some (s, rest) \<Rightarrow> (Some (sr_region s), MemoryRegion n sz ty p rest en))"

section \<open>Flat ranges\<close>

datatype flat_range_kind = FRam (frk_block: nat) | FRom (frk_block: nat) | FIo (frk_ops: nat)

record flat_range =
  fr_addr :: u64
  fr_size :: u64
  fr_kind :: flat_range_kind
  fr_offset_in_region :: u64

definition is_io :: "flat_range \<Rightarrow> bool" where
  "is_io r = (case fr_kind r of FIo _ \<Rightarrow> True | _ \<Rightarrow> False)"

definition fr_end :: "flat_range \<Rightarrow> u64" where
  "fr_end r = fr_addr r + fr_size r"

record raw_range =
  raw_addr :: u64
  raw_size :: u64
  raw_priority :: int
  raw_kind :: flat_range_kind
  raw_offset_in_region :: u64

section \<open>Collecting the leaves\<close>

text \<open>The output vector \<open>out\<close> only grows at its end, so the functions return what they push.\<close>

fun collect_alias :: "memory_region \<Rightarrow> u64 \<Rightarrow> u64 \<Rightarrow> u64 \<Rightarrow> int \<Rightarrow> raw_range list"
and collect_alias_subs :: "sub_region list \<Rightarrow> u64 \<Rightarrow> u64 \<Rightarrow> u64 \<Rightarrow> int \<Rightarrow> raw_range list" where
  "collect_alias (MemoryRegion nm sz ty pr subs en) base alias_off alias_size prio =
     (if \<not> en then []
      else case ty of
        Ram block \<Rightarrow> [\<lparr>raw_addr = base, raw_size = alias_size, raw_priority = prio,
                       raw_kind = FRam block, raw_offset_in_region = alias_off\<rparr>]
      | Rom block \<Rightarrow> [\<lparr>raw_addr = base, raw_size = alias_size, raw_priority = prio,
                       raw_kind = FRom block, raw_offset_in_region = alias_off\<rparr>]
      | Io ops \<Rightarrow> [\<lparr>raw_addr = base, raw_size = alias_size, raw_priority = prio,
                    raw_kind = FIo ops, raw_offset_in_region = alias_off\<rparr>]
      | Alias inner inner_off \<Rightarrow>
          collect_alias inner base (alias_off + inner_off) alias_size prio
      | Container \<Rightarrow> collect_alias_subs subs base alias_off alias_size prio)"
| "collect_alias_subs [] base alias_off alias_size prio = []"
| "collect_alias_subs (SubRegion r sub_start # ss) base alias_off alias_size prio =
     (let sub_end = sub_start + mr_size r;
          win_start = alias_off;
          win_end = alias_off + alias_size
      in (if sub_end \<le> win_start \<or> sub_start \<ge> win_end then []
          else let clip_start = max sub_start win_start;
                   clip_end = min sub_end win_end;
                   new_base = base + (clip_start - win_start);
                   new_size = clip_end - clip_start;
                   off_in_sub = clip_start - sub_start
               in collect_alias r new_base off_in_sub new_size prio)
         @ collect_alias_subs ss base alias_off alias_size prio)"

fun collect :: "memory_region \<Rightarrow> u64 \<Rightarrow> int \<Rightarrow> raw_range list"
and collect_subs :: "sub_region list \<Rightarrow> u64 \<Rightarrow> int \<Rightarrow> raw_range list" where
  "collect (MemoryRegion nm sz ty pr subs en) base inherited_prio =
     (if \<not> en then []
      else let prio = max pr inherited_prio
        in (case ty of
              Ram block \<Rightarrow> [\<lparr>raw_addr = base, raw_size = sz, raw_priority = prio,
                             raw_kind = FRam block, raw_offset_in_region = 0\<rparr>]
            | Rom block \<Rightarrow> [\<lparr>raw_addr = base, raw_size = sz, raw_priority = prio,
                             raw_kind = FRom block, raw_offset_in_region = 0\<rparr>]
            | Io ops \<Rightarrow> [\<lparr>raw_addr = base, raw_size = sz, raw_priority = prio,
                          raw_kind = FIo ops, raw_offset_in_region = 0\<rparr>]
            | Alias target alias_off \<Rightarrow> collect_alias target base alias_off sz prio
            | Container \<Rightarrow> [])
           @ collect_subs subs base prio)"
| "collect_subs [] base prio = []"
| "collect_subs (SubRegion r off # ss) base prio =
     collect r (base + off) prio @ collect_subs ss base prio"

section \<open>Resolving overlaps\<close>

definition push_fragment :: "flat_range list \<Rightarrow> raw_range \<Rightarrow> u64 \<Rightarrow> u64 \<Rightarrow> flat_range list" where
  "push_fragment resolved raw start stop =
     (let offset_delta = start - raw_addr raw
      in resolved @ [\<lparr>fr_addr = start, fr_size = stop - start, fr_kind = raw_kind raw,
                      fr_offset_in_region = raw_offset_in_region raw + offset_delta\<rparr>])"

text \<open>The loop over the overlapping ranges, with the position \<open>cur\<close> reached so far.\<close>

fun insert_gaps ::
    "flat_range list \<Rightarrow> raw_range \<Rightarrow> u64 \<Rightarrow> u64 \<Rightarrow> (u64 \<times> u64) list \<Rightarrow> flat_range list \<times> u64" where
  "insert_gaps resolved raw cur stop [] = (resolved, cur)"
| "insert_gaps resolved raw cur stop ((oa, ob) # overlaps) =
     (let resolved' = (if cur < oa then push_fragment resolved raw cur (min oa stop) else resolved);
          cur' = max cur ob
      in if cur' \<ge> stop then (resolved', cur')
         else insert_gaps resolved' raw cur' stop overlaps)"

definition insert_range :: "flat_range list \<Rightarrow> raw_range \<Rightarrow> flat_range list" where
  "insert_range resolved raw =
     (let cur = raw_addr raw;
          stop = raw_addr raw + raw_size raw;
          overlaps = sort_key fst
            (map (\<lambda>r. (fr_addr r, fr_end r))
               (filter (\<lambda>r. fr_addr r < stop \<and> fr_end r > cur) resolved));
          (resolved', cur') = insert_gaps resolved raw cur stop overlaps
      in if cur' < stop then push_fragment resolved' raw cur' stop else resolved')"

type_synonym flat_view = "flat_range list"

text \<open>\<open>raw.sort_by\<close>: descending priority, then ascending address; \<open>sort_by\<close> is stable.\<close>

definition sort_raw :: "raw_range list \<Rightarrow> raw_range list" where
  "sort_raw raws = sort_key (\<lambda>r. (- raw_priority r, raw_addr r)) raws"

definition flatten_raw :: "raw_range list \<Rightarrow> flat_view" where
  "flatten_raw raws = sort_key fr_addr (foldl insert_range [] (sort_raw raws))"

definition from_region :: "memory_region \<Rightarrow> flat_view" where
  "from_region root = flatten_raw (collect root 0 0)"

text \<open>\<open>partition_point(|r| r.addr.0 <= a)\<close> on the sorted vector.\<close>

definition lookup :: "flat_view \<Rightarrow> u64 \<Rightarrow> flat_range option" where
  "lookup ranges a =
     (let idx = length (takeWhile (\<lambda>r. fr_addr r \<le> a) ranges)
      in if idx = 0 then None
         else let r = ranges ! (idx - 1) in if a < fr_end r then Some r else None)"

section \<open>Reference semantics of a set of overlapping leaves\<close>

definition raw_covers :: "raw_range \<Rightarrow> u64 \<Rightarrow> bool" where
  "raw_covers r a \<longleftrightarrow> raw_addr r \<le> a \<and> a < raw_addr r + raw_size r"

text \<open>The backing store and the offset in it that a leaf gives an address.\<close>

definition raw_at :: "raw_range \<Rightarrow> u64 \<Rightarrow> flat_range_kind \<times> u64" where
  "raw_at r a = (raw_kind r, raw_offset_in_region r + (a - raw_addr r))"

definition resolve :: "raw_range list \<Rightarrow> u64 \<Rightarrow> (flat_range_kind \<times> u64) option" where
  "resolve raws a = map_option (\<lambda>r. raw_at r a) (find (\<lambda>r. raw_covers r a) (sort_raw raws))"

text \<open>A leaf that does not wrap around the end of the 64-bit address space.\<close>

definition raw_no_wrap :: "raw_range \<Rightarrow> bool" where
  "raw_no_wrap r \<longleftrightarrow> raw_addr r \<le> raw_addr r + raw_size r"

definition frag_covers :: "flat_range \<Rightarrow> u64 \<Rightarrow> bool" where
  "frag_covers r a \<longleftrightarrow> fr_addr r \<le> a \<and> a < fr_end r"

definition frag_at :: "flat_range \<Rightarrow> u64 \<Rightarrow> flat_range_kind \<times> u64" where
  "frag_at r a = (fr_kind r, fr_offset_in_region r + (a - fr_addr r))"

definition frag_view :: "flat_range list \<Rightarrow> u64 \<Rightarrow> (flat_range_kind \<times> u64) option" where
  "frag_view rs a = map_option (\<lambda>r. frag_at r a) (find (\<lambda>r. frag_covers r a) rs)"

text \<open>The invariant of the vector \<open>resolved\<close>: non-empty fragments, pairwise disjoint.\<close>

definition frag_disjoint :: "flat_range \<Rightarrow> flat_range \<Rightarrow> bool" where
  "frag_disjoint r s \<longleftrightarrow> fr_end r \<le> fr_addr s \<or> fr_end s \<le> fr_addr r"

definition frags_ok :: "flat_range list \<Rightarrow> bool" where
  "frags_ok rs \<longleftrightarrow> distinct (map fr_addr rs) \<and> (\<forall>r\<in>set rs. fr_addr r < fr_end r)
     \<and> (\<forall>r\<in>set rs. \<forall>s\<in>set rs. r \<noteq> s \<longrightarrow> frag_disjoint r s)"

section \<open>The fragments that one insertion adds\<close>

definition fragment :: "raw_range \<Rightarrow> u64 \<Rightarrow> u64 \<Rightarrow> flat_range" where
  "fragment raw start stop = \<lparr>fr_addr = start, fr_size = stop - start, fr_kind = raw_kind raw,
     fr_offset_in_region = raw_offset_in_region raw + (start - raw_addr raw)\<rparr>"

lemma fragment_sel [simp]:
  "fr_addr (fragment raw a b) = a" "fr_end (fragment raw a b) = b"
  "frag_covers (fragment raw a b) x \<longleftrightarrow> a \<le> x \<and> x < b"
  "frag_at (fragment raw a b) x = raw_at raw x"
  by (simp_all add: fragment_def fr_end_def frag_covers_def frag_at_def raw_at_def)

lemma push_fragment_eq: "push_fragment rs raw a b = rs @ [fragment raw a b]"
  by (simp add: push_fragment_def fragment_def)

fun gap_frags :: "raw_range \<Rightarrow> u64 \<Rightarrow> u64 \<Rightarrow> (u64 \<times> u64) list \<Rightarrow> flat_range list" where
  "gap_frags raw cur stop [] = (if cur < stop then [fragment raw cur stop] else [])"
| "gap_frags raw cur stop ((oa, ob) # os) =
     (if cur < oa then [fragment raw cur (min oa stop)] else [])
     @ (if max cur ob \<ge> stop then [] else gap_frags raw (max cur ob) stop os)"

definition overlaps_of :: "flat_range list \<Rightarrow> raw_range \<Rightarrow> (u64 \<times> u64) list" where
  "overlaps_of rs raw = sort_key fst
     (map (\<lambda>r. (fr_addr r, fr_end r))
       (filter (\<lambda>r. fr_addr r < raw_addr raw + raw_size raw \<and> fr_end r > raw_addr raw) rs))"

lemma insert_gaps_eq:
  "(let (rs', cur') = insert_gaps rs raw cur stop os
    in if cur' < stop then push_fragment rs' raw cur' stop else rs')
   = rs @ gap_frags raw cur stop os"
  by (induction rs raw cur stop os rule: insert_gaps.induct)
     (auto simp: push_fragment_eq Let_def max_def split: if_splits)

lemma insert_range_eq:
  "insert_range rs raw =
     rs @ gap_frags raw (raw_addr raw) (raw_addr raw + raw_size raw) (overlaps_of rs raw)"
  using insert_gaps_eq [of rs raw "raw_addr raw" "raw_addr raw + raw_size raw" "overlaps_of rs raw"]
  by (simp add: insert_range_def overlaps_of_def Let_def)

text \<open>Overlaps in increasing order, each non-empty, ending before the next starts.\<close>

definition ov_chain :: "(u64 \<times> u64) list \<Rightarrow> bool" where
  "ov_chain os \<longleftrightarrow> sorted_wrt (\<lambda>x y. snd x \<le> fst y) os \<and> (\<forall>x\<in>set os. fst x < snd x)"

lemma ov_chain_Cons:
  "ov_chain ((a, b) # os) \<longleftrightarrow> a < b \<and> (\<forall>x\<in>set os. b \<le> fst x) \<and> ov_chain os"
  by (auto simp: ov_chain_def)

lemma gap_frags_bounds:
  assumes "\<forall>x\<in>set os. fst x < stop" and "r \<in> set (gap_frags raw cur stop os)"
  shows "cur \<le> fr_addr r \<and> fr_addr r < fr_end r \<and> fr_end r \<le> stop \<and> (\<forall>a. frag_at r a = raw_at raw a)"
  using assms
proof (induction raw cur stop os rule: gap_frags.induct)
  case (2 raw cur stop oa ob os)
  then show ?case by (fastforce split: if_splits)
qed (auto split: if_splits)

lemma gap_frags_covers:
  assumes "ov_chain os" and "\<forall>x\<in>set os. fst x < stop"
  shows "(\<exists>r\<in>set (gap_frags raw cur stop os). frag_covers r a) \<longleftrightarrow>
         cur \<le> a \<and> a < stop \<and> (\<forall>x\<in>set os. \<not> (fst x \<le> a \<and> a < snd x))"
  using assms
proof (induction raw cur stop os rule: gap_frags.induct)
  case (1 raw cur stop)
  then show ?case by auto
next
  case (2 raw cur stop oa ob os)
  from "2.prems" have ob: "oa < ob" "\<forall>x\<in>set os. ob \<le> fst x" "ov_chain os" "oa < stop"
    "\<forall>x\<in>set os. fst x < stop"
    by (auto simp: ov_chain_Cons)
  have first: "(\<exists>r\<in>set (if cur < oa then [fragment raw cur (min oa stop)] else []). frag_covers r a)
      \<longleftrightarrow> cur \<le> a \<and> a < oa"
    using ob by auto
  show ?case
  proof (cases "stop \<le> max cur ob")
    case True
    then show ?thesis using first ob
      by (fastforce simp: max_def split: if_splits)
  next
    case False
    then have IH: "(\<exists>r\<in>set (gap_frags raw (max cur ob) stop os). frag_covers r a) \<longleftrightarrow>
        max cur ob \<le> a \<and> a < stop \<and> (\<forall>x\<in>set os. \<not> (fst x \<le> a \<and> a < snd x))"
      using 2 ob by simp
    have "(\<exists>r\<in>set (gap_frags raw cur stop ((oa, ob) # os)). frag_covers r a) \<longleftrightarrow>
        (cur \<le> a \<and> a < oa) \<or>
        (max cur ob \<le> a \<and> a < stop \<and> (\<forall>x\<in>set os. \<not> (fst x \<le> a \<and> a < snd x)))"
      using False first IH by (simp only: gap_frags.simps set_append bex_Un if_False)
    also have "\<dots> \<longleftrightarrow> cur \<le> a \<and> a < stop \<and> (\<forall>x\<in>set ((oa, ob) # os). \<not> (fst x \<le> a \<and> a < snd x))"
      using ob False by (fastforce simp: max_def not_le split: if_splits)
    finally show ?thesis .
  qed
qed

lemma gap_frags_sorted:
  assumes "ov_chain os" and "\<forall>x\<in>set os. fst x < stop"
  shows "sorted_wrt (\<lambda>r s. fr_end r \<le> fr_addr s) (gap_frags raw cur stop os)"
  using assms
proof (induction raw cur stop os rule: gap_frags.induct)
  case (2 raw cur stop oa ob os)
  then show ?case
    using gap_frags_bounds [of os stop _ raw "max cur ob"]
    by (fastforce simp: ov_chain_Cons not_le sorted_wrt_append split: if_splits)
qed simp

lemma sorted_frags_ok:
  assumes "sorted_wrt (\<lambda>r s. fr_end r \<le> fr_addr s) rs" and "\<forall>r\<in>set rs. fr_addr r < fr_end r"
  shows "frags_ok rs"
  using assms
proof (induction rs)
  case (Cons r rs)
  then show ?case
    by (fastforce simp: frags_ok_def frag_disjoint_def)
qed (simp add: frags_ok_def)

section \<open>The overlaps of an insertion\<close>

lemma set_overlaps_of:
  "x \<in> set (overlaps_of rs raw) \<longleftrightarrow> (\<exists>r\<in>set rs. x = (fr_addr r, fr_end r)
     \<and> fr_addr r < raw_addr raw + raw_size raw \<and> raw_addr raw < fr_end r)"
  by (auto simp: overlaps_of_def)

lemma sorted_disjoint_chain:
  assumes "sorted (map fst os)" and "distinct (map fst os)" and "\<forall>x\<in>set os. fst x < snd x"
    and "\<forall>x\<in>set os. \<forall>y\<in>set os. x \<noteq> y \<longrightarrow> snd x \<le> fst y \<or> snd y \<le> fst x"
  shows "ov_chain os"
  using assms
proof (induction os)
  case (Cons x os)
  have "snd x \<le> fst y" if "y \<in> set os" for y
  proof -
    from that Cons.prems have "x \<noteq> y" "fst x \<le> fst y" "fst y < snd y" by auto
    with that Cons.prems(4) show ?thesis by fastforce
  qed
  moreover have "ov_chain os" using Cons by simp
  ultimately show ?case using Cons.prems by (cases x) (auto simp: ov_chain_Cons)
qed (simp add: ov_chain_def)

lemma distinct_map_sort_key: "distinct (map g (sort_key f xs)) \<longleftrightarrow> distinct (map g xs)"
  by (simp add: distinct_map)

lemma overlaps_chain:
  assumes "frags_ok rs"
  shows "ov_chain (overlaps_of rs raw)"
proof (rule sorted_disjoint_chain)
  show "sorted (map fst (overlaps_of rs raw))"
    by (simp add: overlaps_of_def)
  show "distinct (map fst (overlaps_of rs raw))"
    using assms by (simp add: overlaps_of_def distinct_map_sort_key frags_ok_def comp_def
        distinct_map_filter)
  show "\<forall>x\<in>set (overlaps_of rs raw). fst x < snd x"
    using assms by (auto simp: set_overlaps_of frags_ok_def)
  show "\<forall>x\<in>set (overlaps_of rs raw). \<forall>y\<in>set (overlaps_of rs raw).
      x \<noteq> y \<longrightarrow> snd x \<le> fst y \<or> snd y \<le> fst x"
  proof (intro ballI impI)
    fix x y assume xy: "x \<in> set (overlaps_of rs raw)" "y \<in> set (overlaps_of rs raw)" "x \<noteq> y"
    then obtain r s where "r \<in> set rs" "s \<in> set rs" "x = (fr_addr r, fr_end r)" "y = (fr_addr s, fr_end s)"
      by (auto simp: set_overlaps_of)
    with xy(3) assms show "snd x \<le> fst y \<or> snd y \<le> fst x"
      unfolding frags_ok_def frag_disjoint_def by auto
  qed
qed

lemma overlaps_below_stop: "\<forall>x\<in>set (overlaps_of rs raw). fst x < raw_addr raw + raw_size raw"
  by (auto simp: set_overlaps_of)

section \<open>What one insertion does to the view\<close>

definition new_frags :: "flat_range list \<Rightarrow> raw_range \<Rightarrow> flat_range list" where
  "new_frags rs raw =
     gap_frags raw (raw_addr raw) (raw_addr raw + raw_size raw) (overlaps_of rs raw)"

lemma insert_range_new: "insert_range rs raw = rs @ new_frags rs raw"
  by (simp add: insert_range_eq new_frags_def)

lemma new_frags_bounds:
  assumes "r \<in> set (new_frags rs raw)"
  shows "raw_addr raw \<le> fr_addr r" "fr_addr r < fr_end r" "fr_end r \<le> raw_addr raw + raw_size raw"
    "frag_at r a = raw_at raw a"
  using gap_frags_bounds [OF overlaps_below_stop assms [unfolded new_frags_def]] by auto

lemma new_frags_covers:
  assumes "frags_ok rs"
  shows "(\<exists>r\<in>set (new_frags rs raw). frag_covers r a) \<longleftrightarrow>
         raw_covers raw a \<and> (\<forall>r\<in>set rs. \<not> frag_covers r a)"
proof -
  have "(\<forall>x\<in>set (overlaps_of rs raw). \<not> (fst x \<le> a \<and> a < snd x)) \<longleftrightarrow> (\<forall>r\<in>set rs. \<not> frag_covers r a)"
    if "raw_covers raw a"
  proof -
    have "\<exists>x\<in>set (overlaps_of rs raw). fst x \<le> a \<and> a < snd x" if "r \<in> set rs" "frag_covers r a" for r
      using that \<open>raw_covers raw a\<close>
      by (intro bexI [of _ "(fr_addr r, fr_end r)"])
         (auto simp: set_overlaps_of raw_covers_def frag_covers_def)
    then show ?thesis by (auto simp: set_overlaps_of frag_covers_def)
  qed
  then show ?thesis
    using gap_frags_covers [OF overlaps_chain [OF assms, of raw] overlaps_below_stop, of raw "raw_addr raw" a]
    by (auto simp: new_frags_def raw_covers_def)
qed

lemma frag_disjoint_sym: "frag_disjoint r s \<longleftrightarrow> frag_disjoint s r"
  by (auto simp: frag_disjoint_def)

lemma no_common_point_disjoint:
  assumes "fr_addr r < fr_end r" and "fr_addr s < fr_end s"
    and "\<And>a. \<not> (frag_covers r a \<and> frag_covers s a)"
  shows "frag_disjoint r s"
  using assms(3) [of "max (fr_addr r) (fr_addr s)"] assms(1,2)
  by (auto simp: frag_covers_def frag_disjoint_def max_def not_less split: if_splits)

lemma frags_ok_append:
  assumes "frags_ok xs" and "frags_ok ys"
    and "\<And>x y. x \<in> set xs \<Longrightarrow> y \<in> set ys \<Longrightarrow> frag_disjoint x y"
  shows "frags_ok (xs @ ys)"
proof -
  have "fr_addr x \<noteq> fr_addr y" if "x \<in> set xs" "y \<in> set ys" for x y
    using assms(3) [OF that] assms(1,2) that unfolding frags_ok_def frag_disjoint_def
    by (metis leD)
  then have "distinct (map fr_addr (xs @ ys))"
    using assms(1,2) by (fastforce simp: frags_ok_def)
  moreover have "frag_disjoint r s"
    if "r \<in> set (xs @ ys)" "s \<in> set (xs @ ys)" "r \<noteq> s" for r s
    using that assms unfolding frags_ok_def by (metis Un_iff frag_disjoint_sym set_append)
  ultimately show ?thesis
    using assms by (auto simp: frags_ok_def)
qed

lemma insert_range_ok:
  assumes "frags_ok rs"
  shows "frags_ok (insert_range rs raw)"
  unfolding insert_range_new
proof (rule frags_ok_append [OF assms])
  have "sorted_wrt (\<lambda>r s. fr_end r \<le> fr_addr s) (new_frags rs raw)"
    unfolding new_frags_def by (rule gap_frags_sorted [OF overlaps_chain [OF assms] overlaps_below_stop])
  then show "frags_ok (new_frags rs raw)"
    by (rule sorted_frags_ok) (use new_frags_bounds(2) in blast)
next
  fix x y assume xy: "x \<in> set rs" "y \<in> set (new_frags rs raw)"
  show "frag_disjoint x y"
  proof (rule no_common_point_disjoint)
    show "fr_addr x < fr_end x" using assms xy(1) by (simp add: frags_ok_def)
    show "fr_addr y < fr_end y" by (rule new_frags_bounds(2) [OF xy(2)])
    show "\<not> (frag_covers x a \<and> frag_covers y a)" for a
      using new_frags_covers [OF assms, of raw a] xy by blast
  qed
qed

lemma find_append: "find P (xs @ ys) = (case find P xs of Some x \<Rightarrow> Some x | None \<Rightarrow> find P ys)"
  by (induction xs) auto

lemma frag_view_None: "frag_view rs a = None \<longleftrightarrow> (\<forall>r\<in>set rs. \<not> frag_covers r a)"
  by (auto simp: frag_view_def find_None_iff)

lemma frag_view_new:
  assumes "frags_ok rs" and "frag_view rs a = None"
  shows "frag_view (new_frags rs raw) a = (if raw_covers raw a then Some (raw_at raw a) else None)"
proof (cases "find (\<lambda>r. frag_covers r a) (new_frags rs raw)")
  case None
  then show ?thesis
    using new_frags_covers [OF assms(1), of raw a] assms(2)
    by (auto simp: frag_view_def find_None_iff)
next
  case (Some r)
  then have "r \<in> set (new_frags rs raw)" "frag_covers r a"
    by (auto simp: find_Some_iff)
  then show ?thesis
    using Some new_frags_covers [OF assms(1), of raw a] new_frags_bounds(4)
    by (auto simp: frag_view_def)
qed

lemma frag_view_insert:
  assumes "frags_ok rs"
  shows "frag_view (insert_range rs raw) a =
    (case frag_view rs a of Some v \<Rightarrow> Some v
     | None \<Rightarrow> if raw_covers raw a then Some (raw_at raw a) else None)"
proof (cases "frag_view rs a")
  case None
  then show ?thesis
    using frag_view_new [OF assms None, of raw]
    by (auto simp: insert_range_new frag_view_def find_append split: option.splits)
next
  case (Some v)
  then show ?thesis
    by (auto simp: insert_range_new frag_view_def find_append split: option.splits)
qed

lemma insert_all_ok: "frags_ok rs \<Longrightarrow> frags_ok (foldl insert_range rs raws)"
  by (induction raws arbitrary: rs) (auto simp: insert_range_ok)

lemma frag_view_insert_all:
  assumes "frags_ok rs"
  shows "frag_view (foldl insert_range rs raws) a =
    (case frag_view rs a of Some v \<Rightarrow> Some v
     | None \<Rightarrow> map_option (\<lambda>r. raw_at r a) (find (\<lambda>r. raw_covers r a) raws))"
  using assms
proof (induction raws arbitrary: rs)
  case Nil
  then show ?case by (simp split: option.splits)
next
  case (Cons raw raws)
  show ?case
    using Cons.IH [OF insert_range_ok [OF Cons.prems, of raw]] frag_view_insert [OF Cons.prems, of raw]
    by (simp split: option.splits)
qed

section \<open>Lookup in the sorted view\<close>

definition view_ok :: "flat_view \<Rightarrow> bool" where
  "view_ok rs \<longleftrightarrow> sorted_wrt (\<lambda>r s. fr_end r \<le> fr_addr s) rs \<and> (\<forall>r\<in>set rs. fr_addr r < fr_end r)"

lemma sort_frags_view_ok:
  assumes "frags_ok rs"
  shows "view_ok (sort_key fr_addr rs)"
proof -
  let ?s = "sort_key fr_addr rs"
  have ok: "frags_ok ?s"
    using assms by (simp add: frags_ok_def distinct_map_sort_key)
  have "fr_end (?s ! i) \<le> fr_addr (?s ! j)" if "i < j" "j < length ?s" for i j
  proof -
    from that have "fr_addr (?s ! i) \<le> fr_addr (?s ! j)"
      using sorted_nth_mono [of "map fr_addr ?s" i j] by simp
    moreover from that ok have "?s ! i \<noteq> ?s ! j"
      by (auto simp: frags_ok_def distinct_map nth_eq_iff_index_eq)
    moreover have "?s ! i \<in> set ?s" "?s ! j \<in> set ?s" using that by (simp_all only: nth_mem)
    ultimately have "fr_addr (?s ! i) \<le> fr_addr (?s ! j)" "frag_disjoint (?s ! i) (?s ! j)"
        "fr_addr (?s ! j) < fr_end (?s ! j)"
      using ok unfolding frags_ok_def by blast+
    then show ?thesis by (auto simp: frag_disjoint_def)
  qed
  with ok show ?thesis
    by (auto simp: view_ok_def sorted_wrt_iff_nth_less frags_ok_def)
qed

lemma lookup_Some_iff:
  assumes "view_ok rs"
  shows "lookup rs a = Some r \<longleftrightarrow> r \<in> set rs \<and> frag_covers r a"
proof
  let ?idx = "length (takeWhile (\<lambda>r. fr_addr r \<le> a) rs)"
  assume "lookup rs a = Some r"
  then have idx: "?idx \<noteq> 0" and r: "r = rs ! (?idx - 1)" and "a < fr_end r"
    by (auto simp: lookup_def Let_def split: if_splits)
  from idx have "r = takeWhile (\<lambda>r. fr_addr r \<le> a) rs ! (?idx - 1)"
    using r by (simp add: takeWhile_nth)
  with idx have "r \<in> set (takeWhile (\<lambda>r. fr_addr r \<le> a) rs)"
    by (metis diff_less length_greater_0_conv length_0_conv nth_mem zero_less_one)
  then show "r \<in> set rs \<and> frag_covers r a"
    using \<open>a < fr_end r\<close> by (auto simp: frag_covers_def dest: set_takeWhileD)
next
  let ?tw = "takeWhile (\<lambda>r. fr_addr r \<le> a) rs"
  assume r: "r \<in> set rs \<and> frag_covers r a"
  then obtain i where i: "i < length rs" "rs ! i = r" by (auto simp: in_set_conv_nth)
  have chain: "fr_end (rs ! j) \<le> fr_addr (rs ! k)" if "j < k" "k < length rs" for j k
    using assms that by (auto simp: view_ok_def sorted_wrt_iff_nth_less)
  have pos: "fr_addr (rs ! j) < fr_end (rs ! j)" if "j < length rs" for j
    using assms that by (auto simp: view_ok_def)
  have "fr_addr (rs ! j) \<le> a" if "j \<le> i" for j
    using chain [of j i] pos [of j] i r that by (cases "j = i") (auto simp: frag_covers_def)
  moreover have "\<not> fr_addr (rs ! k) \<le> a" if "k = Suc i" "k < length rs" for k
    using chain [of i k] i r that by (auto simp: frag_covers_def)
  ultimately have "length ?tw = Suc i"
    using i(1)
    by (metis (no_types, lifting) length_takeWhile_less_P_nth less_Suc_eq_le nat_neq_iff
        not_less_eq_eq nth_length_takeWhile order_le_less_trans length_takeWhile_le
        takeWhile_nth nth_mem set_takeWhileD le_less)
  then show "lookup rs a = Some r"
    using i r by (auto simp: lookup_def frag_covers_def)
qed

lemma lookup_eq_find:
  assumes "view_ok rs"
  shows "lookup rs a = find (\<lambda>r. frag_covers r a) rs"
proof (cases "find (\<lambda>r. frag_covers r a) rs")
  case None
  then have "\<And>r. lookup rs a \<noteq> Some r"
    using lookup_Some_iff [OF assms, of a] by (auto simp: find_None_iff)
  with None show ?thesis by (cases "lookup rs a") auto
next
  case (Some r)
  then have "r \<in> set rs \<and> frag_covers r a" by (auto simp: find_Some_iff)
  with Some lookup_Some_iff [OF assms] show ?thesis by metis
qed

lemma find_unique_set:
  assumes "set xs = set ys" and "\<And>x y. \<lbrakk>x \<in> set xs; y \<in> set xs; P x; P y\<rbrakk> \<Longrightarrow> x = y"
  shows "find P xs = find P ys"
proof (cases "find P xs")
  case None
  then have "find P ys = None" using assms(1) by (simp add: find_None_iff)
  with None show ?thesis by simp
next
  case (Some x)
  then have x: "x \<in> set xs" "P x" by (auto simp: find_Some_iff)
  show ?thesis
  proof (cases "find P ys")
    case None
    with x assms(1) show ?thesis by (auto simp: find_None_iff)
  next
    case (Some y)
    then have "y \<in> set ys" "P y" by (auto simp: find_Some_iff)
    with x assms have "y = x" by blast
    with Some \<open>find P xs = Some x\<close> show ?thesis by simp
  qed
qed

lemma frag_view_sort:
  assumes "frags_ok rs"
  shows "frag_view (sort_key fr_addr rs) a = frag_view rs a"
proof -
  have "find (\<lambda>r. frag_covers r a) (sort_key fr_addr rs) = find (\<lambda>r. frag_covers r a) rs"
  proof (rule find_unique_set)
    fix x y assume xy: "x \<in> set (sort_key fr_addr rs)" "y \<in> set (sort_key fr_addr rs)"
      "frag_covers x a" "frag_covers y a"
    then have "\<not> frag_disjoint x y" by (auto simp: frag_covers_def frag_disjoint_def)
    with xy assms show "x = y" by (auto simp: frags_ok_def)
  qed simp
  then show ?thesis by (simp add: frag_view_def)
qed

lemma frags_ok_Nil [simp]: "frags_ok []"
  by (simp add: frags_ok_def)

definition lookup_view :: "flat_view \<Rightarrow> u64 \<Rightarrow> (flat_range_kind \<times> u64) option" where
  "lookup_view v a = map_option (\<lambda>r. frag_at r a) (lookup v a)"

lemma flatten_raw_view_ok: "view_ok (flatten_raw raws)"
  unfolding flatten_raw_def by (intro sort_frags_view_ok insert_all_ok frags_ok_Nil)

lemma flatten_raw_lookup: "lookup_view (flatten_raw raws) a = resolve raws a"
proof -
  have "lookup_view (flatten_raw raws) a = frag_view (flatten_raw raws) a"
    by (simp add: lookup_view_def frag_view_def lookup_eq_find [OF flatten_raw_view_ok])
  also have "\<dots> = frag_view (foldl insert_range [] (sort_raw raws)) a"
    by (simp add: flatten_raw_def frag_view_sort insert_all_ok)
  also have "\<dots> = resolve raws a"
    by (simp add: frag_view_insert_all) (simp add: frag_view_def resolve_def)
  finally show ?thesis .
qed

section \<open>Properties of the flat view\<close>

text \<open>
  C4: Flattening any region tree gives a vector of non-empty ranges in ascending address
  order in which every range ends before the next one starts.
\<close>
theorem from_region_sorted_disjoint:
  "sorted_wrt (\<lambda>r s. fr_end r \<le> fr_addr s) (from_region root)
   \<and> list_all (\<lambda>r. fr_addr r < fr_end r) (from_region root)"
  using flatten_raw_view_ok unfolding from_region_def view_ok_def list_all_iff by blast

text \<open>
  C3: The binary search in the flat view of a tree finds, at every address, the backing store
  and offset that the first covering leaf gives it, the leaves taken in the order of
  descending priority, then ascending address, then tree order; and it finds nothing exactly
  when no leaf covers the address.
\<close>
theorem lookup_from_region:
  "lookup_view (from_region root) a = resolve (collect root 0 0) a"
  unfolding from_region_def by (rule flatten_raw_lookup)

section \<open>Overlaying a region\<close>

lemma collect_subs_append:
  "collect_subs (ss @ ts) base prio = collect_subs ss base prio @ collect_subs ts base prio"
proof (induction ss)
  case (Cons s ss)
  then show ?case by (cases s) simp
qed simp

lemma collect_add_subregion:
  assumes "mr_enabled root"
  shows "collect (add_subregion root r off) base inh =
         collect root base inh @ collect r (base + off) (max (mr_priority root) inh)"
  using assms by (cases root) (auto simp: Let_def collect_subs_append)

lemma insort_key_append_le:
  "\<forall>y\<in>set ys. f x \<le> f y \<Longrightarrow> insort_key f x (xs @ ys) = insort_key f x xs @ ys"
  by (induction xs) (auto simp: insort_is_Cons)

lemma sort_key_append_swap:
  assumes "\<And>x y. x \<in> set xs \<Longrightarrow> y \<in> set ys \<Longrightarrow> f y < f x"
  shows "sort_key f (xs @ ys) = sort_key f ys @ sort_key f xs"
  using assms
proof (induction xs)
  case (Cons x xs)
  have "insort_key f x (zs @ sort_key f xs) = zs @ insort_key f x (sort_key f xs)"
    if "\<forall>z\<in>set zs. f z < f x" for zs
    using that by (induction zs) auto
  then show ?case using Cons by simp
qed simp

lemma resolve_overlay:
  assumes "\<And>x y. x \<in> set xs \<Longrightarrow> y \<in> set ys \<Longrightarrow> raw_priority x < raw_priority y"
  shows "resolve (xs @ ys) a = (case resolve ys a of Some v \<Rightarrow> Some v | None \<Rightarrow> resolve xs a)"
proof -
  have "sort_raw (xs @ ys) = sort_raw ys @ sort_raw xs"
    unfolding sort_raw_def by (rule sort_key_append_swap) (simp add: assms less_prod_def)
  then show ?thesis
    by (auto simp: resolve_def find_append split: option.splits)
qed

text \<open>
  C35: Adding a child whose leaves all have a higher priority than every leaf of the tree overlays
  it: inside the child's leaves a lookup gives the child's store, elsewhere what it gave before.
\<close>
theorem add_subregion_overlays:
  assumes "mr_enabled root"
    and "\<And>x y. x \<in> set (collect root 0 0) \<Longrightarrow>
           y \<in> set (collect (set_priority r prio) off (max (mr_priority root) 0)) \<Longrightarrow>
           raw_priority x < raw_priority y"
  shows "lookup_view (from_region (add_subregion_with_priority root r off prio)) a =
     (case resolve (collect (set_priority r prio) off (max (mr_priority root) 0)) a of
        Some v \<Rightarrow> Some v
      | None \<Rightarrow> lookup_view (from_region root) a)"
  unfolding from_region_def flatten_raw_lookup add_subregion_with_priority_def
    collect_add_subregion [OF assms(1)]
  using resolve_overlay [OF assms(2)] by simp

text \<open>A board with 64 KiB of RAM and a device window of priority 1 laid over its second page.\<close>

definition demo_root :: memory_region where
  "demo_root = add_subregion (region_container ''system'' 0x100000)
     (fst (region_ram ''ram'' 0x10000 0)) 0x8000"

theorem add_subregion_overlays_witness:
  "lookup_view (from_region (add_subregion_with_priority demo_root (region_io ''dev'' 0x1000 7) 0x9000 1))
     0x9004 = Some (FIo 7, 4)
   \<and> lookup_view (from_region (add_subregion_with_priority demo_root (region_io ''dev'' 0x1000 7) 0x9000 1))
     0xA004 = Some (FRam 0, 0x2004)"
proof -
  have eq: "lookup_view (from_region (add_subregion_with_priority demo_root (region_io ''dev'' 0x1000 7) 0x9000 1)) a =
     (case resolve (collect (set_priority (region_io ''dev'' 0x1000 7) 1) 0x9000
        (max (mr_priority demo_root) 0)) a of
        Some v \<Rightarrow> Some v
      | None \<Rightarrow> lookup_view (from_region demo_root) a)" for a
    by (rule add_subregion_overlays)
       (simp_all add: demo_root_def region_container_def region_ram_def region_io_def)
  show ?thesis
    unfolding eq unfolding from_region_def flatten_raw_lookup
    by (simp add: demo_root_def region_container_def region_ram_def region_io_def resolve_def
          sort_raw_def raw_covers_def raw_at_def)
qed

end
