(* ===== verification/Sized_Store.thy ===== *)
theory Sized_Store
  imports Machina_Prelude
begin

text \<open>
  The interface of plain memory that the address space (\<open>memory/src/address_space.rs\<close>) and the RAM
  window of the hart (\<open>read_phys_sized\<close> and \<open>write_phys_sized\<close> of \<open>system/src/cpus.rs\<close>) both offer:
  sized reads and writes where a write is seen by a read of the same bytes and by no other. The
  lemmas for its clients are proved once here.
\<close>

definition disjoint_access :: "u64 \<Rightarrow> u32 \<Rightarrow> u64 \<Rightarrow> u32 \<Rightarrow> bool" where
  "disjoint_access a n b m \<longleftrightarrow> unat a + unat n \<le> unat b \<or> unat b + unat m \<le> unat a"

lemma disjoint_access_sym: "disjoint_access a n b m = disjoint_access b m a n"
  by (auto simp: disjoint_access_def)

type_synonym sized_write = "u64 \<times> u32 \<times> u64"

locale sized_store =
  fixes ok :: "'s \<Rightarrow> u64 \<Rightarrow> u32 \<Rightarrow> bool"
    and rd :: "'s \<Rightarrow> u64 \<Rightarrow> u32 \<Rightarrow> u64"
    and wr :: "'s \<Rightarrow> u64 \<Rightarrow> u32 \<Rightarrow> u64 \<Rightarrow> 's"
  assumes ok_wr: "ok s a n \<Longrightarrow> ok s b m \<Longrightarrow> ok (wr s a n v) b m"
    and rd_wr_same: "ok s a n \<Longrightarrow> rd (wr s a n v) a n = take_bit (8 * unat n) v"
    and rd_wr_other: "ok s a n \<Longrightarrow> ok s b m \<Longrightarrow> disjoint_access a n b m \<Longrightarrow> rd (wr s a n v) b m = rd s b m"
    and rd_bound: "ok s a n \<Longrightarrow> take_bit (8 * unat n) (rd s a n) = rd s a n"
begin

lemma wr_back: "ok s a n \<Longrightarrow> rd (wr s a n (rd s a n)) a n = rd s a n"
  by (simp add: rd_wr_same rd_bound)

lemma rmw: "ok s a n \<Longrightarrow> rd (wr s a n (f (rd s a n))) a n = take_bit (8 * unat n) (f (rd s a n))"
  by (rule rd_wr_same)

lemma ok_writes:
  "\<forall>(a, n, v)\<in>set ws. ok s a n \<Longrightarrow> ok s b m \<Longrightarrow>
     ok (foldl (\<lambda>s (a, n, v). wr s a n v) s ws) b m"
proof (induction ws arbitrary: s)
  case (Cons w ws)
  obtain a n v where w: "w = (a, n, v)" by (cases w)
  have "\<forall>(a', n', v')\<in>set ws. ok (wr s a n v) a' n'" and "ok (wr s a n v) b m"
    using Cons.prems by (auto simp: w intro: ok_wr)
  from Cons.IH [OF this] show ?case by (simp add: w)
qed simp

lemma rd_writes_other:
  "\<forall>(a, n, v)\<in>set ws. ok s a n \<and> disjoint_access a n b m \<Longrightarrow> ok s b m \<Longrightarrow>
     rd (foldl (\<lambda>s (a, n, v). wr s a n v) s ws) b m = rd s b m"
proof (induction ws arbitrary: s)
  case (Cons w ws)
  obtain a n v where w: "w = (a, n, v)" by (cases w)
  have "\<forall>(a', n', v')\<in>set ws. ok (wr s a n v) a' n' \<and> disjoint_access a' n' b m" and "ok (wr s a n v) b m"
    and "rd (wr s a n v) b m = rd s b m"
    using Cons.prems by (auto simp: w intro: ok_wr rd_wr_other)
  with Cons.IH show ?case by (simp add: w)
qed simp

text \<open>After a sequence of writes to pairwise disjoint places, every one of them is readable.\<close>

lemma rd_writes:
  assumes "\<forall>(a, n, v)\<in>set ws. ok s a n"
    and "sorted_wrt (\<lambda>(a, n, _) (b, m, _). disjoint_access a n b m) ws" and "(a, n, v) \<in> set ws"
  shows "rd (foldl (\<lambda>s (a, n, v). wr s a n v) s ws) a n = take_bit (8 * unat n) v"
  using assms
proof (induction ws arbitrary: s)
  case (Cons w ws)
  obtain b m u where w: "w = (b, m, u)" by (cases w)
  have ok': "\<forall>(a', n', v')\<in>set ws. ok (wr s b m u) a' n'"
    using Cons.prems(1) by (auto simp: w intro: ok_wr)
  show ?case
  proof (cases "(a, n, v) = w")
    case True
    have "\<forall>(a', n', v')\<in>set ws. ok (wr s b m u) a' n' \<and> disjoint_access a' n' a n"
      using Cons.prems(2) ok' True disjoint_access_sym by (fastforce simp: w)
    moreover have "ok s a n"
      using Cons.prems(1) True by auto
    ultimately show ?thesis
      using True rd_writes_other [of ws "wr s a n v" a n] ok_wr rd_wr_same by (simp add: w)
  next
    case False
    then show ?thesis
      using Cons.IH [OF ok'] Cons.prems by (auto simp: w)
  qed
qed simp

end

end
