(* ===== verification/Address_Space.thy ===== *)
theory Address_Space
  imports Memory_Regions Sized_Store
begin

text \<open>
  Dispatch of sized guest-physical accesses (\<open>memory/src/address_space.rs\<close>). The contents of the
  RAM and ROM blocks and the states of the devices are one value, \<open>backing\<close>, passed through the
  operations. A device is reached through its \<open>MmioOps\<close> callbacks, a trait object: the pair of
  functions is an argument of the model. A copy that would run past the mapped block, which the
  sources do with a raw pointer, is the error \<open>OutOfBounds\<close>.
\<close>

section \<open>State\<close>

record address_space =
  as_root :: memory_region
  as_flat_view :: flat_view

record 'd backing =
  bk_block :: "nat \<Rightarrow> u8 list"
  bk_dev :: 'd

record 'd mmio_ops =
  mmio_read :: "'d \<Rightarrow> nat \<Rightarrow> u64 \<Rightarrow> u32 \<Rightarrow> u64 \<times> 'd"
  mmio_write :: "'d \<Rightarrow> nat \<Rightarrow> u64 \<Rightarrow> u32 \<Rightarrow> u64 \<Rightarrow> 'd"

datatype mem_error = OutOfBounds

section \<open>Operations\<close>

definition as_new :: "memory_region \<Rightarrow> address_space" where
  "as_new root = \<lparr>as_root = root, as_flat_view = from_region root\<rparr>"

definition update_flat_view :: "address_space \<Rightarrow> address_space" where
  "update_flat_view asp = asp\<lparr>as_flat_view := from_region (as_root asp)\<rparr>"

text \<open>\<open>root_mut\<close> hands out the root; the caller's change is the function \<open>f\<close>.\<close>

definition root_mut :: "(memory_region \<Rightarrow> memory_region) \<Rightarrow> address_space \<Rightarrow> address_space" where
  "root_mut f asp = asp\<lparr>as_root := f (as_root asp)\<rparr>"

definition as_remove_subregion ::
    "address_space \<Rightarrow> u64 \<Rightarrow> string \<Rightarrow> memory_region option \<times> address_space" where
  "as_remove_subregion asp off name =
     (let (removed, root') = remove_subregion (as_root asp) off name;
          asp' = asp\<lparr>as_root := root'\<rparr>
      in (removed, if removed \<noteq> None then update_flat_view asp' else asp'))"

definition as_read :: "'d mmio_ops \<Rightarrow> address_space \<Rightarrow> 'd backing \<Rightarrow> u64 \<Rightarrow> u32 \<Rightarrow>
    mem_error + (u64 \<times> 'd backing)" where
  "as_read ops asp bk addr sz =
     (case lookup (as_flat_view asp) addr of
        None \<Rightarrow> Ok (0, bk)
      | Some fr \<Rightarrow>
          let region_off = fr_offset_in_region fr + (addr - fr_addr fr);
              copy = (\<lambda>block. if unat sz > 8 then Err OutOfBounds
                        else case load_bytes (bk_block bk block) (unat region_off) (unat sz) of
                               None \<Rightarrow> Err OutOfBounds
                             | Some bs \<Rightarrow> Ok (from_le_bytes bs, bk))
          in case fr_kind fr of
               FRam block \<Rightarrow> copy block
             | FRom block \<Rightarrow> copy block
             | FIo d \<Rightarrow> let (v, dev') = mmio_read ops (bk_dev bk) d region_off sz
                        in Ok (v, bk\<lparr>bk_dev := dev'\<rparr>))"

definition as_write :: "'d mmio_ops \<Rightarrow> address_space \<Rightarrow> 'd backing \<Rightarrow> u64 \<Rightarrow> u32 \<Rightarrow> u64 \<Rightarrow>
    mem_error + 'd backing" where
  "as_write ops asp bk addr sz v =
     (case lookup (as_flat_view asp) addr of
        None \<Rightarrow> Ok bk
      | Some fr \<Rightarrow>
          let region_off = fr_offset_in_region fr + (addr - fr_addr fr)
          in case fr_kind fr of
               FRam block \<Rightarrow>
                 if unat sz > 8 then Err OutOfBounds
                 else (case store_bytes (bk_block bk block) (unat region_off) (to_le_bytes (unat sz) v) of
                         None \<Rightarrow> Err OutOfBounds
                       | Some bs \<Rightarrow> Ok (bk\<lparr>bk_block := (bk_block bk)(block := bs)\<rparr>))
             | FRom block \<Rightarrow> Ok bk
             | FIo d \<Rightarrow> Ok (bk\<lparr>bk_dev := mmio_write ops (bk_dev bk) d region_off sz v\<rparr>))"

text \<open>\<open>checked_add\<close> is \<open>None\<close> exactly when the exact sum does not fit in 64 bits.\<close>

definition is_mapped :: "address_space \<Rightarrow> u64 \<Rightarrow> u32 \<Rightarrow> bool" where
  "is_mapped asp addr sz =
     (case lookup (as_flat_view asp) addr of
        None \<Rightarrow> False
      | Some fr \<Rightarrow> unat addr + unat sz < 2 ^ 64 \<and> addr + ucast sz \<le> fr_addr fr + fr_size fr)"

definition read_u32 :: "'d mmio_ops \<Rightarrow> address_space \<Rightarrow> 'd backing \<Rightarrow> u64 \<Rightarrow>
    mem_error + (u32 \<times> 'd backing)" where
  "read_u32 ops asp bk addr =
     res_bind (as_read ops asp bk addr 4) (\<lambda>(v, bk'). Ok (ucast v, bk'))"

definition write_u32 :: "'d mmio_ops \<Rightarrow> address_space \<Rightarrow> 'd backing \<Rightarrow> u64 \<Rightarrow> u32 \<Rightarrow>
    mem_error + 'd backing" where
  "write_u32 ops asp bk addr v = as_write ops asp bk addr 4 (ucast v)"

section \<open>Well-formed address spaces\<close>

text \<open>
  The cached view is that of the tree, every RAM or ROM range lies inside its block, and a
  block's size is a \<open>u64\<close>.
\<close>

definition range_in_block :: "(nat \<Rightarrow> u8 list) \<Rightarrow> flat_range \<Rightarrow> bool" where
  "range_in_block blocks fr =
     (case fr_kind fr of
        FRam b \<Rightarrow> unat (fr_offset_in_region fr) + unat (fr_size fr) \<le> length (blocks b)
      | FRom b \<Rightarrow> unat (fr_offset_in_region fr) + unat (fr_size fr) \<le> length (blocks b)
      | FIo _ \<Rightarrow> True)"

definition as_wf :: "address_space \<Rightarrow> 'd backing \<Rightarrow> bool" where
  "as_wf asp bk \<longleftrightarrow> as_flat_view asp = from_region (as_root asp)
     \<and> (\<forall>fr\<in>set (as_flat_view asp). range_in_block (bk_block bk) fr)
     \<and> (\<forall>b. length (bk_block bk b) < 2 ^ 64)"

lemma as_view_ok:
  assumes "as_wf asp bk"
  shows "view_ok (as_flat_view asp)"
  using assms flatten_raw_view_ok by (simp add: as_wf_def from_region_def)

lemma as_lookup_covers:
  assumes "as_wf asp bk" and "lookup (as_flat_view asp) addr = Some fr"
  shows "fr_addr fr \<le> addr" "addr < fr_end fr" "fr_addr fr < fr_end fr" "range_in_block (bk_block bk) fr"
  using assms lookup_Some_iff [OF as_view_ok [OF assms(1)], of addr fr]
  by (auto simp: frag_covers_def as_wf_def)

lemma unat_fr_end:
  assumes "fr_addr fr < fr_end fr"
  shows "unat (fr_end fr) = unat (fr_addr fr) + unat (fr_size fr)"
  using assms unfolding fr_end_def by unat_arith

text \<open>Where an address of a range falls in its block, with no wrap-around.\<close>

lemma region_off_unat:
  assumes "as_wf asp bk" and "lookup (as_flat_view asp) addr = Some fr"
    and "fr_kind fr = FRam b \<or> fr_kind fr = FRom b"
  shows "unat (fr_offset_in_region fr + (addr - fr_addr fr)) =
         unat (fr_offset_in_region fr) + (unat addr - unat (fr_addr fr))"
proof -
  note c = as_lookup_covers [OF assms(1,2)]
  have "unat (addr - fr_addr fr) = unat addr - unat (fr_addr fr)"
    using c(1) by (simp add: unat_sub)
  moreover have "unat addr - unat (fr_addr fr) < unat (fr_size fr)"
    using c unat_fr_end [OF c(3)] by (simp add: word_less_nat_alt word_le_nat_alt)
  moreover have "unat (fr_offset_in_region fr) + unat (fr_size fr) < 2 ^ 64"
    using c(4) assms(1,3) by (auto simp: range_in_block_def as_wf_def intro: le_less_trans)
  ultimately show ?thesis
    by (simp add: unat_word_ariths)
qed

lemma mapped_fits:
  assumes wf: "as_wf asp bk" and lk: "lookup (as_flat_view asp) addr = Some fr"
    and mapped: "is_mapped asp addr sz"
  shows "unat addr + unat sz \<le> unat (fr_addr fr) + unat (fr_size fr)"
proof -
  note c = as_lookup_covers [OF wf lk]
  have no_wrap: "unat addr + unat sz < 2 ^ 64" and le: "addr + ucast sz \<le> fr_end fr"
    using mapped lk by (simp_all add: is_mapped_def fr_end_def)
  from no_wrap have "unat (addr + ucast sz) = unat addr + unat sz"
    by (simp add: unat_word_ariths)
  with le show ?thesis
    using unat_fr_end [OF c(3)] by (simp add: word_le_nat_alt)
qed

lemma mapped_in_block:
  assumes wf: "as_wf asp bk" and lk: "lookup (as_flat_view asp) addr = Some fr"
    and kind: "fr_kind fr = FRam b \<or> fr_kind fr = FRom b" and mapped: "is_mapped asp addr sz"
  shows "unat (fr_offset_in_region fr + (addr - fr_addr fr)) + unat sz \<le> length (bk_block bk b)"
proof -
  note c = as_lookup_covers [OF wf lk]
  have "unat (fr_offset_in_region fr) + unat (fr_size fr) \<le> length (bk_block bk b)"
    using c(4) kind by (auto simp: range_in_block_def)
  then show ?thesis
    unfolding region_off_unat [OF wf lk kind] using mapped_fits [OF wf lk mapped] c(1)
    by (simp add: word_le_nat_alt)
qed

lemma as_write_ram:
  assumes "as_wf asp bk" and "lookup (as_flat_view asp) addr = Some fr" and "fr_kind fr = FRam b"
    and "is_mapped asp addr sz" and "unat sz \<le> 8"
  obtains block' where
    "store_bytes (bk_block bk b) (unat (fr_offset_in_region fr + (addr - fr_addr fr)))
       (to_le_bytes (unat sz) v) = Some block'"
    "as_write ops asp bk addr sz v = Ok (bk\<lparr>bk_block := (bk_block bk)(b := block')\<rparr>)"
  using mapped_in_block [of asp bk addr fr b sz] assms that
  by (auto simp: as_write_def store_bytes_def)

section \<open>RAM as plain memory\<close>

text \<open>No byte of a RAM block is visible at two addresses.\<close>

definition unaliased :: "flat_view \<Rightarrow> bool" where
  "unaliased view \<longleftrightarrow> (\<forall>fr\<in>set view. \<forall>fr'\<in>set view. \<forall>b. fr_kind fr = FRam b \<and> fr_kind fr' = FRam b \<longrightarrow>
     fr = fr' \<or> unat (fr_offset_in_region fr) + unat (fr_size fr) \<le> unat (fr_offset_in_region fr')
     \<or> unat (fr_offset_in_region fr') + unat (fr_size fr') \<le> unat (fr_offset_in_region fr))"

text \<open>An access of at most eight bytes that lies in one RAM range of an unaliased view.\<close>

definition as_plain :: "address_space \<times> 'd backing \<Rightarrow> u64 \<Rightarrow> u32 \<Rightarrow> bool" where
  "as_plain = (\<lambda>(asp, bk) a n. as_wf asp bk \<and> unaliased (as_flat_view asp) \<and> is_mapped asp a n \<and> unat n \<le> 8
     \<and> (\<exists>fr b. lookup (as_flat_view asp) a = Some fr \<and> fr_kind fr = FRam b))"

definition as_get :: "'d mmio_ops \<Rightarrow> address_space \<times> 'd backing \<Rightarrow> u64 \<Rightarrow> u32 \<Rightarrow> u64" where
  "as_get ops = (\<lambda>(asp, bk) a n. case as_read ops asp bk a n of Inr (v, _) \<Rightarrow> v | Inl _ \<Rightarrow> 0)"

definition as_put :: "'d mmio_ops \<Rightarrow> address_space \<times> 'd backing \<Rightarrow> u64 \<Rightarrow> u32 \<Rightarrow> u64 \<Rightarrow> address_space \<times> 'd backing" where
  "as_put ops = (\<lambda>(asp, bk) a n v. case as_write ops asp bk a n v of Inr bk' \<Rightarrow> (asp, bk') | Inl _ \<Rightarrow> (asp, bk))"

definition ram_off :: "flat_range \<Rightarrow> u64 \<Rightarrow> nat" where
  "ram_off fr a = unat (fr_offset_in_region fr + (a - fr_addr fr))"

lemma as_plain_access:
  assumes "as_plain (asp, bk) a n"
  obtains fr b where "lookup (as_flat_view asp) a = Some fr" "fr_kind fr = FRam b"
    "as_wf asp bk" "is_mapped asp a n" "unat n \<le> 8"
    "ram_off fr a + unat n \<le> length (bk_block bk b)"
    "as_get ops (asp, bk) a n = from_le_bytes (take (unat n) (drop (ram_off fr a) (bk_block bk b)))"
proof -
  obtain fr b where fr: "lookup (as_flat_view asp) a = Some fr" "fr_kind fr = FRam b"
    and ok: "as_wf asp bk" "is_mapped asp a n" "unat n \<le> 8"
    using assms by (auto simp: as_plain_def)
  have bound: "ram_off fr a + unat n \<le> length (bk_block bk b)"
    unfolding ram_off_def by (rule mapped_in_block [OF ok(1) fr(1) _ ok(2)]) (simp add: fr)
  then have "as_get ops (asp, bk) a n = from_le_bytes (take (unat n) (drop (ram_off fr a) (bk_block bk b)))"
    using fr ok(3) by (simp add: as_get_def as_read_def load_bytes_def ram_off_def Let_def)
  with that fr ok bound show ?thesis by blast
qed

lemma as_put_block:
  assumes "as_plain (asp, bk) a n" and "lookup (as_flat_view asp) a = Some fr" and "fr_kind fr = FRam b"
  obtains block' where
    "store_bytes (bk_block bk b) (ram_off fr a) (to_le_bytes (unat n) v) = Some block'"
    "as_put ops (asp, bk) a n v = (asp, bk\<lparr>bk_block := (bk_block bk)(b := block')\<rparr>)"
proof -
  have ok: "as_wf asp bk" "is_mapped asp a n" "unat n \<le> 8"
    using assms(1) by (auto simp: as_plain_def)
  show ?thesis
    by (rule as_write_ram [OF ok(1) assms(2,3) ok(2,3), of v ops], rule that)
       (auto simp: as_put_def ram_off_def)
qed

lemma ram_off_in_range:
  assumes "as_wf asp bk" and "lookup (as_flat_view asp) a = Some fr" and "fr_kind fr = FRam b"
    and "is_mapped asp a n"
  shows "ram_off fr a = unat (fr_offset_in_region fr) + (unat a - unat (fr_addr fr))"
    and "unat (fr_addr fr) \<le> unat a" and "unat a + unat n \<le> unat (fr_addr fr) + unat (fr_size fr)"
proof -
  note c = as_lookup_covers [OF assms(1,2)]
  show "ram_off fr a = unat (fr_offset_in_region fr) + (unat a - unat (fr_addr fr))"
    unfolding ram_off_def by (rule region_off_unat [OF assms(1,2)]) (simp add: assms(3))
  show "unat (fr_addr fr) \<le> unat a"
    using c(1) by (simp add: word_le_nat_alt)
  show "unat a + unat n \<le> unat (fr_addr fr) + unat (fr_size fr)"
    by (rule mapped_fits [OF assms(1,2,4)])
qed

lemma as_plain_put:
  assumes "as_plain (asp, bk) a n" and "as_plain (asp, bk) c m"
  shows "as_plain (as_put ops (asp, bk) a n v) c m"
proof -
  obtain fr b where fr: "lookup (as_flat_view asp) a = Some fr" "fr_kind fr = FRam b" and wf: "as_wf asp bk"
    using assms(1) by (auto simp: as_plain_def)
  obtain block' where st: "store_bytes (bk_block bk b) (ram_off fr a) (to_le_bytes (unat n) v) = Some block'"
    and put: "as_put ops (asp, bk) a n v = (asp, bk\<lparr>bk_block := (bk_block bk)(b := block')\<rparr>)"
    by (rule as_put_block [OF assms(1) fr])
  have len: "length (((bk_block bk)(b := block')) d) = length (bk_block bk d)" for d
    using store_bytes_length [OF st] by simp
  then have "range_in_block ((bk_block bk)(b := block')) fr' = range_in_block (bk_block bk) fr'" for fr'
    by (simp add: range_in_block_def split: flat_range_kind.split)
  then have "as_wf asp (bk\<lparr>bk_block := (bk_block bk)(b := block')\<rparr>)"
    using wf len by (simp add: as_wf_def)
  then show ?thesis
    unfolding put using assms(2) by (simp add: as_plain_def)
qed

lemma as_get_put_same:
  assumes "as_plain (asp, bk) a n"
  shows "as_get ops (as_put ops (asp, bk) a n v) a n = take_bit (8 * unat n) v"
proof -
  obtain fr b where fr: "lookup (as_flat_view asp) a = Some fr" "fr_kind fr = FRam b" and n: "unat n \<le> 8"
    using assms by (auto simp: as_plain_def)
  obtain block' where st: "store_bytes (bk_block bk b) (ram_off fr a) (to_le_bytes (unat n) v) = Some block'"
    and put: "as_put ops (asp, bk) a n v = (asp, bk\<lparr>bk_block := (bk_block bk)(b := block')\<rparr>)"
    by (rule as_put_block [OF assms fr])
  show ?thesis
    unfolding put using load_store_same [OF st] fr n
    by (simp add: as_get_def as_read_def ram_off_def from_to_le_bytes)
qed

lemma as_get_put_other:
  assumes a: "as_plain (asp, bk) a n" and c: "as_plain (asp, bk) c m" and dis: "disjoint_access a n c m"
  shows "as_get ops (as_put ops (asp, bk) a n v) c m = as_get ops (asp, bk) c m"
proof -
  obtain fr b where fr: "lookup (as_flat_view asp) a = Some fr" "fr_kind fr = FRam b"
    and wf: "as_wf asp bk" and ma: "is_mapped asp a n" and single: "unaliased (as_flat_view asp)"
    using a by (auto simp: as_plain_def)
  obtain fr' b' where fr': "lookup (as_flat_view asp) c = Some fr'" "fr_kind fr' = FRam b'"
    and mc: "is_mapped asp c m" and m: "unat m \<le> 8"
    using c by (auto simp: as_plain_def)
  obtain block' where st: "store_bytes (bk_block bk b) (ram_off fr a) (to_le_bytes (unat n) v) = Some block'"
    and put: "as_put ops (asp, bk) a n v = (asp, bk\<lparr>bk_block := (bk_block bk)(b := block')\<rparr>)"
    by (rule as_put_block [OF a fr])
  note oa = ram_off_in_range [OF wf fr ma] and oc = ram_off_in_range [OF wf fr' mc]
  have "load_bytes block' (ram_off fr' c) (unat m) = load_bytes (bk_block bk b) (ram_off fr' c) (unat m)"
    if "b' = b"
  proof (rule load_store_other [OF st], cases "fr' = fr")
    case True
    then show "ram_off fr' c + unat m \<le> ram_off fr a \<or>
        ram_off fr a + length (to_le_bytes (unat n) v) \<le> ram_off fr' c"
      using oa oc dis by (auto simp: disjoint_access_def length_to_le_bytes)
  next
    case False
    moreover have "fr \<in> set (as_flat_view asp)" "fr' \<in> set (as_flat_view asp)"
      using lookup_Some_iff [OF as_view_ok [OF wf]] fr(1) fr'(1) by auto
    ultimately show "ram_off fr' c + unat m \<le> ram_off fr a \<or>
        ram_off fr a + length (to_le_bytes (unat n) v) \<le> ram_off fr' c"
      using single fr(2) fr'(2) that oa oc unfolding unaliased_def length_to_le_bytes by fastforce
  qed
  then show ?thesis
    unfolding put using fr' m
    by (cases "b' = b") (simp_all add: as_get_def as_read_def ram_off_def Let_def split: option.splits)
qed

lemma as_get_bound:
  assumes "as_plain (asp, bk) a n"
  shows "take_bit (8 * unat n) (as_get ops (asp, bk) a n) = as_get ops (asp, bk) a n"
proof -
  obtain fr b where "unat n \<le> 8" and "ram_off fr a + unat n \<le> length (bk_block bk b)"
    and "as_get ops (asp, bk) a n = from_le_bytes (take (unat n) (drop (ram_off fr a) (bk_block bk b)))"
    by (rule as_plain_access [OF assms])
  moreover from this have "length (take (unat n) (drop (ram_off fr a) (bk_block bk b))) = unat n"
    by simp
  ultimately show ?thesis
    using take_bit_from_le_bytes by metis
qed

interpretation as_ram: sized_store as_plain "as_get ops" "as_put ops" for ops :: "'d mmio_ops"
proof
  fix s :: "address_space \<times> 'd backing" and a b :: u64 and n m :: u32 and v :: u64
  obtain asp bk where s: "s = (asp, bk)" by (cases s)
  show "as_plain s a n \<Longrightarrow> as_plain s b m \<Longrightarrow> as_plain (as_put ops s a n v) b m"
    unfolding s by (rule as_plain_put)
  show "as_plain s a n \<Longrightarrow> as_get ops (as_put ops s a n v) a n = take_bit (8 * unat n) v"
    unfolding s by (rule as_get_put_same)
  show "as_plain s a n \<Longrightarrow> as_plain s b m \<Longrightarrow> disjoint_access a n b m \<Longrightarrow>
      as_get ops (as_put ops s a n v) b m = as_get ops s b m"
    unfolding s by (rule as_get_put_other)
  show "as_plain s a n \<Longrightarrow> take_bit (8 * unat n) (as_get ops s a n) = as_get ops s a n"
    unfolding s by (rule as_get_bound)
qed

subsection \<open>A concrete space\<close>

text \<open>RAM at 0x100 and an alias of its upper half at 0x200, with a ROM at 0x300.\<close>

definition demo_space :: address_space where
  "demo_space = as_new
     (add_subregion (add_subregion (add_subregion (region_container ''system'' 0x1000)
        (fst (region_ram ''ram'' 16 0)) 0x100)
        (region_alias ''ram.hi'' (fst (region_ram ''ram'' 16 0)) 8 8) 0x200)
        (fst (region_rom ''rom'' 16 1)) 0x300)"

definition demo_backing :: "unit backing" where
  "demo_backing = \<lparr>bk_block = (\<lambda>_. replicate 16 0), bk_dev = ()\<rparr>"

definition no_devices :: "unit mmio_ops" where
  "no_devices = \<lparr>mmio_read = (\<lambda>d _ _ _. (0, d)), mmio_write = (\<lambda>d _ _ _ _. d)\<rparr>"

lemma demo_view: "as_flat_view demo_space =
   [\<lparr>fr_addr = 0x100, fr_size = 16, fr_kind = FRam 0, fr_offset_in_region = 0\<rparr>,
    \<lparr>fr_addr = 0x200, fr_size = 8, fr_kind = FRam 0, fr_offset_in_region = 8\<rparr>,
    \<lparr>fr_addr = 0x300, fr_size = 16, fr_kind = FRom 1, fr_offset_in_region = 0\<rparr>]"
  by (simp add: demo_space_def as_new_def from_region_def flatten_raw_def sort_raw_def
      region_container_def region_ram_def region_rom_def region_alias_def insert_range_def
      push_fragment_def fr_end_def)

lemma demo_wf: "as_wf demo_space demo_backing"
proof -
  have "as_flat_view demo_space = from_region (as_root demo_space)"
    by (simp add: demo_space_def as_new_def)
  moreover have "\<forall>fr\<in>set (as_flat_view demo_space). range_in_block (bk_block demo_backing) fr"
    by (simp add: demo_view range_in_block_def demo_backing_def)
  moreover have "\<forall>b. length (bk_block demo_backing b) < 2 ^ 64"
    by (simp add: demo_backing_def)
  ultimately show ?thesis
    by (simp add: as_wf_def)
qed

section \<open>Properties\<close>

text \<open>
  C36: An access of at most eight bytes that \<open>is_mapped\<close> accepts never runs past the memory
  block behind it: neither the read nor the write is out of bounds.
\<close>
theorem is_mapped_access_in_bounds:
  assumes "as_wf asp bk" and "is_mapped asp addr sz" and "unat sz \<le> 8"
  shows "(\<exists>v bk'. as_read ops asp bk addr sz = Ok (v, bk'))
       \<and> (\<exists>bk'. as_write ops asp bk addr sz v = Ok bk')"
proof -
  from assms(2) obtain fr where lk: "lookup (as_flat_view asp) addr = Some fr"
    by (auto simp: is_mapped_def split: option.splits)
  show ?thesis
  proof (cases "fr_kind fr")
    case (FRam b)
    then show ?thesis
      using mapped_in_block [OF assms(1) lk _ assms(2), of b] assms(3) lk
      by (auto simp: as_read_def as_write_def load_bytes_def store_bytes_def Let_def)
  next
    case (FRom b)
    then show ?thesis
      using mapped_in_block [OF assms(1) lk _ assms(2), of b] assms(3) lk
      by (auto simp: as_read_def as_write_def load_bytes_def store_bytes_def Let_def)
  next
    case (FIo d)
    then show ?thesis
      using lk by (auto simp: as_read_def as_write_def split: prod.splits)
  qed
qed

theorem is_mapped_access_in_bounds_witness:
  "(\<exists>v bk'. as_read no_devices demo_space demo_backing 0x108 8 = Ok (v, bk'))
   \<and> (\<exists>bk'. as_write no_devices demo_space demo_backing 0x108 8 42 = Ok bk')"
  by (rule is_mapped_access_in_bounds [OF demo_wf])
     (simp_all add: is_mapped_def demo_view lookup_def fr_end_def)

text \<open>
  C37: A value written to RAM is read back through any address that maps to the same byte of the
  same block (the same address or an alias of it, a ROM view included), truncated to the
  access size.
\<close>
theorem read_after_write_aliased:
  assumes wf: "as_wf asp bk" and sz: "unat sz \<le> 8"
    and w: "lookup (as_flat_view asp) addr = Some fr" "fr_kind fr = FRam b" "is_mapped asp addr sz"
    and r: "lookup (as_flat_view asp) addr' = Some fr'" "fr_kind fr' = FRam b \<or> fr_kind fr' = FRom b"
    and same: "fr_offset_in_region fr' + (addr' - fr_addr fr') =
               fr_offset_in_region fr + (addr - fr_addr fr)"
  shows "\<exists>bk'. as_write ops asp bk addr sz v = Ok bk'
           \<and> as_read ops asp bk' addr' sz = Ok (take_bit (8 * unat sz) v, bk')"
proof -
  obtain block' where st: "store_bytes (bk_block bk b)
        (unat (fr_offset_in_region fr + (addr - fr_addr fr))) (to_le_bytes (unat sz) v) = Some block'"
      and wr: "as_write ops asp bk addr sz v = Ok (bk\<lparr>bk_block := (bk_block bk)(b := block')\<rparr>)"
    by (rule as_write_ram [OF wf w sz])
  from load_store_same [OF st] r same sz
  have "as_read ops asp (bk\<lparr>bk_block := (bk_block bk)(b := block')\<rparr>) addr' sz =
      Ok (take_bit (8 * unat sz) v, bk\<lparr>bk_block := (bk_block bk)(b := block')\<rparr>)"
    by (auto simp: as_read_def from_to_le_bytes)
  with wr show ?thesis by blast
qed

theorem read_after_write_aliased_witness:
  "\<exists>bk'. as_write no_devices demo_space demo_backing 0x109 2 0x12345 = Ok bk'
      \<and> as_read no_devices demo_space bk' 0x201 2 = Ok (take_bit (8 * unat (2 :: u32)) 0x12345, bk')"
  by (rule read_after_write_aliased [OF demo_wf, where b = 0
        and fr = "\<lparr>fr_addr = 0x100, fr_size = 16, fr_kind = FRam 0, fr_offset_in_region = 0\<rparr>"
        and fr' = "\<lparr>fr_addr = 0x200, fr_size = 8, fr_kind = FRam 0, fr_offset_in_region = 8\<rparr>"])
     (simp_all add: is_mapped_def demo_view lookup_def fr_end_def)



text \<open>
  Neither \<open>read\<close> nor \<open>write\<close> compares the access size with the range it starts in: an access
  that starts in RAM whose range reaches the end of its block and runs past that end is
  carried out beyond the block.
\<close>
theorem straddling_access_out_of_bounds:
  assumes wf: "as_wf asp bk" and lk: "lookup (as_flat_view asp) addr = Some fr"
    and kind: "fr_kind fr = FRam b"
    and at_end: "unat (fr_offset_in_region fr) + unat (fr_size fr) = length (bk_block bk b)"
    and past: "unat (fr_end fr) < unat addr + unat sz"
  shows "as_read ops asp bk addr sz = Err OutOfBounds
       \<and> as_write ops asp bk addr sz v = Err OutOfBounds"
proof -
  note c = as_lookup_covers [OF wf lk]
  have off: "unat (fr_offset_in_region fr + (addr - fr_addr fr)) =
      unat (fr_offset_in_region fr) + (unat addr - unat (fr_addr fr))"
    by (rule region_off_unat [OF wf lk]) (simp add: kind)
  have "length (bk_block bk b) < unat (fr_offset_in_region fr + (addr - fr_addr fr)) + unat sz"
    unfolding off at_end [symmetric] using past unat_fr_end [OF c(3)] c(1)
    by (simp add: word_le_nat_alt)
  then show ?thesis
    using lk kind by (simp add: as_read_def as_write_def load_bytes_def store_bytes_def Let_def)
qed

theorem straddling_access_out_of_bounds_witness:
  "as_read no_devices demo_space demo_backing 0x10C 8 = Err OutOfBounds
   \<and> as_write no_devices demo_space demo_backing 0x10C 8 1 = Err OutOfBounds"
  by (rule straddling_access_out_of_bounds [OF demo_wf, where b = 0
        and fr = "\<lparr>fr_addr = 0x100, fr_size = 16, fr_kind = FRam 0, fr_offset_in_region = 0\<rparr>"])
     (simp_all add: demo_view demo_backing_def lookup_def fr_end_def)


text \<open>
  C39: Writes to RAM do not interfere: after any sequence of writes of at most eight bytes to
  pairwise disjoint places of unaliased RAM, a read of each place gives the value written there,
  truncated to its size.
\<close>
theorem disjoint_writes_readable:
  assumes "\<forall>(a, n, v)\<in>set ws. as_plain (asp, bk) a n"
    and "sorted_wrt (\<lambda>(a, n, _) (b, m, _). disjoint_access a n b m) ws" and "(a, n, v) \<in> set ws"
  shows "as_get ops (foldl (\<lambda>s (a, n, v). as_put ops s a n v) (asp, bk) ws) a n = take_bit (8 * unat n) v"
  by (rule as_ram.rd_writes [OF assms])

text \<open>One RAM of 32 bytes at 0x100.\<close>

definition demo_ram_space :: address_space where
  "demo_ram_space = as_new (add_subregion (region_container ''system'' 0x1000)
     (fst (region_ram ''ram'' 32 0)) 0x100)"

definition demo_ram_backing :: "unit backing" where
  "demo_ram_backing = \<lparr>bk_block = (\<lambda>_. replicate 32 0), bk_dev = ()\<rparr>"

lemma demo_ram_view: "as_flat_view demo_ram_space =
   [\<lparr>fr_addr = 0x100, fr_size = 32, fr_kind = FRam 0, fr_offset_in_region = 0\<rparr>]"
  by (simp add: demo_ram_space_def as_new_def from_region_def flatten_raw_def sort_raw_def
      region_container_def region_ram_def insert_range_def push_fragment_def fr_end_def)

lemma demo_ram_wf: "as_wf demo_ram_space demo_ram_backing"
proof -
  have "as_flat_view demo_ram_space = from_region (as_root demo_ram_space)"
    by (simp add: demo_ram_space_def as_new_def)
  moreover have "\<forall>fr\<in>set (as_flat_view demo_ram_space). range_in_block (bk_block demo_ram_backing) fr"
    by (simp add: demo_ram_view range_in_block_def demo_ram_backing_def)
  moreover have "\<forall>b. length (bk_block demo_ram_backing b) < 2 ^ 64"
    by (simp add: demo_ram_backing_def)
  ultimately show ?thesis
    by (simp add: as_wf_def)
qed

theorem disjoint_writes_readable_witness:
  "as_get no_devices (foldl (\<lambda>s (a, n, v). as_put no_devices s a n v) (demo_ram_space, demo_ram_backing)
     [(0x100, 8, 5), (0x110, 4, 6), (0x108, 8, 7)]) 0x110 4 = take_bit (8 * unat (4 :: u32)) 6"
proof (rule disjoint_writes_readable)
  have "as_plain (demo_ram_space, demo_ram_backing) a n"
    if "is_mapped demo_ram_space a n" "unat n \<le> 8" "0x100 \<le> a" "a < 0x120" for a n
    using that demo_ram_wf
    by (simp add: as_plain_def demo_ram_view unaliased_def lookup_def fr_end_def)
  moreover have "is_mapped demo_ram_space 0x100 8" "is_mapped demo_ram_space 0x108 8" "is_mapped demo_ram_space 0x110 4"
    by (simp_all add: is_mapped_def demo_ram_view lookup_def fr_end_def)
  ultimately show "\<forall>(a, n, v)\<in>set [(0x100, 8, 5), (0x110, 4, 6), (0x108, 8, 7)].
      as_plain (demo_ram_space, demo_ram_backing) a n"
    by simp
qed (simp_all add: disjoint_access_def)

end
