(* ===== verification/Riscv_Config.thy ===== *)
theory Riscv_Config
  imports Machina_Prelude
begin

text \<open>
  The configuration of a RISC-V hart: the letter extensions and the extension flags
  (\<open>guest/riscv/src/riscv/ext.rs\<close>), the CPU models and their profiles
  (\<open>guest/riscv/src/riscv/cpu_model.rs\<close>), the privilege levels of \<open>csr.rs\<close> as a linear order, the
  exception codes of \<open>exception.rs\<close> and the access types of \<open>mmu.rs\<close>, and the T-HEAD vendor
  registers (\<open>guest/riscv/src/riscv/vendor/thead.rs\<close>).
\<close>

section \<open>Letter extensions\<close>

datatype misa_ext = MisaExt (misa_bits: u32)

definition MisaExt_A :: misa_ext where "MisaExt_A = MisaExt 1"
definition MisaExt_C :: misa_ext where "MisaExt_C = MisaExt (push_bit 2 1)"
definition MisaExt_D :: misa_ext where "MisaExt_D = MisaExt (push_bit 3 1)"
definition MisaExt_F :: misa_ext where "MisaExt_F = MisaExt (push_bit 5 1)"
definition MisaExt_I :: misa_ext where "MisaExt_I = MisaExt (push_bit 8 1)"
definition MisaExt_M :: misa_ext where "MisaExt_M = MisaExt (push_bit 12 1)"
definition MisaExt_S :: misa_ext where "MisaExt_S = MisaExt (push_bit 18 1)"
definition MisaExt_U :: misa_ext where "MisaExt_U = MisaExt (push_bit 20 1)"

definition from_bits_truncate :: "u32 \<Rightarrow> misa_ext" where
  "from_bits_truncate bits = MisaExt (bits AND (push_bit 26 1 - 1))"

definition misa_contains :: "misa_ext \<Rightarrow> misa_ext \<Rightarrow> bool" where
  "misa_contains a b \<longleftrightarrow> misa_bits a AND misa_bits b = misa_bits b"

definition misa_union :: "misa_ext \<Rightarrow> misa_ext \<Rightarrow> misa_ext" where
  "misa_union a b = MisaExt (misa_bits a OR misa_bits b)"

lemmas misa_defs = MisaExt_A_def MisaExt_C_def MisaExt_D_def MisaExt_F_def MisaExt_I_def
  MisaExt_M_def MisaExt_S_def MisaExt_U_def from_bits_truncate_def

section \<open>Extension flags\<close>

record riscv_cfg =
  cfg_misa :: misa_ext
  ext_zicsr :: bool
  ext_zifencei :: bool
  ext_zicntr :: bool
  ext_ziccid :: bool
  ext_ziccif :: bool
  ext_zicclsm :: bool
  ext_ziccamoa :: bool
  ext_zicbom :: bool
  ext_zicbop :: bool
  ext_zicboz :: bool
  ext_zba :: bool
  ext_zbb :: bool
  ext_zbc :: bool
  ext_zbs :: bool
  ext_zbkb :: bool
  ext_zbkx :: bool
  ext_zfh :: bool
  ext_zfhmin :: bool
  ext_svpbmt :: bool
  ext_ssvnapot :: bool
  ext_svadu :: bool
  ext_svinval :: bool
  ext_sstc :: bool
  ext_smepmp :: bool
  ext_sscofpmf :: bool
  ext_xtheadba :: bool
  ext_xtheadbb :: bool
  ext_xtheadbs :: bool
  ext_xtheadcmo :: bool
  ext_xtheadcondmov :: bool
  ext_xtheadfmv :: bool
  ext_xtheadfmemidx :: bool
  ext_xtheadmac :: bool
  ext_xtheadmaee :: bool
  ext_xtheadmemidx :: bool
  ext_xtheadmempair :: bool
  ext_xtheadsync :: bool

definition rv64gc_misa :: misa_ext where
  "rv64gc_misa = from_bits_truncate
     (misa_bits MisaExt_I OR misa_bits MisaExt_M OR misa_bits MisaExt_A OR misa_bits MisaExt_F
      OR misa_bits MisaExt_D OR misa_bits MisaExt_C OR misa_bits MisaExt_S OR misa_bits MisaExt_U)"

definition RV64GC :: riscv_cfg where
  "RV64GC =
      \<lparr>cfg_misa = rv64gc_misa,
        ext_zicsr = True, ext_zifencei = True, ext_zicntr = True, ext_ziccid = True,
        ext_ziccif = True, ext_zicclsm = True, ext_ziccamoa = True, ext_zicbom = False,
        ext_zicbop = False, ext_zicboz = False, ext_zba = True, ext_zbb = True, ext_zbc = True,
        ext_zbs = True, ext_zbkb = True, ext_zbkx = True, ext_zfh = True, ext_zfhmin = False,
        ext_svpbmt = False, ext_ssvnapot = False, ext_svadu = True, ext_svinval = False,
        ext_sstc = False, ext_smepmp = False, ext_sscofpmf = False, ext_xtheadba = False,
        ext_xtheadbb = False, ext_xtheadbs = False, ext_xtheadcmo = False,
        ext_xtheadcondmov = False, ext_xtheadfmv = False, ext_xtheadfmemidx = False,
        ext_xtheadmac = False, ext_xtheadmaee = False, ext_xtheadmemidx = False,
        ext_xtheadmempair = False, ext_xtheadsync = False\<rparr>"

definition THEAD_C908 :: riscv_cfg where
  "THEAD_C908 = RV64GC
      \<lparr>ext_zicbom := True, ext_zicboz := True, ext_zba := True, ext_zbb := True,
        ext_zbc := True, ext_zbs := True, ext_svpbmt := True, ext_ssvnapot := True,
        ext_svinval := True, ext_sstc := True, ext_smepmp := True, ext_sscofpmf := True,
        ext_xtheadba := True, ext_xtheadbb := True, ext_xtheadbs := True,
        ext_xtheadcmo := True, ext_xtheadcondmov := True, ext_xtheadfmv := True,
        ext_xtheadfmemidx := True, ext_xtheadmac := True, ext_xtheadmaee := True,
        ext_xtheadmemidx := True, ext_xtheadmempair := True, ext_xtheadsync := True\<rparr>"

section \<open>CPU models\<close>

datatype riscv_vendor = Generic | Thead

datatype riscv_cpu_model = GenericRv64 | TheadC908

record riscv_cpu_profile =
  prof_name :: string
  vendor :: riscv_vendor
  prof_misa :: misa_ext
  cfg :: riscv_cfg
  prof_mvendorid :: u64
  prof_marchid :: u64
  prof_max_satp_mode :: u64

definition generic_rv64 :: riscv_cpu_profile where
  "generic_rv64 = \<lparr>prof_name = ''rv64'', vendor = Generic, prof_misa = cfg_misa RV64GC,
     cfg = RV64GC, prof_mvendorid = 0, prof_marchid = 0, prof_max_satp_mode = 8\<rparr>"

definition thead_c908 :: riscv_cpu_profile where
  "thead_c908 = \<lparr>prof_name = ''thead-c908'', vendor = Thead, prof_misa = rv64gc_misa,
     cfg = THEAD_C908, prof_mvendorid = 0x5b7, prof_marchid = 0x8d143000,
     prof_max_satp_mode = 9\<rparr>"

fun profile :: "riscv_cpu_model \<Rightarrow> riscv_cpu_profile" where
  "profile GenericRv64 = generic_rv64"
| "profile TheadC908 = thead_c908"

section \<open>Privilege levels\<close>

datatype priv_level = User | Supervisor | Machine

text \<open>The discriminants of the \<open>repr(u8)\<close> enumeration; \<open>derive(Ord)\<close> compares them.\<close>

fun priv_num :: "priv_level \<Rightarrow> nat" where
  "priv_num User = 0"
| "priv_num Supervisor = 1"
| "priv_num Machine = 3"

instantiation priv_level :: linorder
begin

definition less_eq_priv_level :: "priv_level \<Rightarrow> priv_level \<Rightarrow> bool" where
  "p \<le> q \<longleftrightarrow> priv_num p \<le> priv_num q"

definition less_priv_level :: "priv_level \<Rightarrow> priv_level \<Rightarrow> bool" where
  "p < q \<longleftrightarrow> priv_num p < priv_num q"

instance
proof
  fix p q r :: priv_level
  show "p \<le> p" and "p \<le> q \<or> q \<le> p" and "(p < q) = (p \<le> q \<and> \<not> q \<le> p)"
    by (auto simp: less_eq_priv_level_def less_priv_level_def)
  show "p \<le> q \<Longrightarrow> q \<le> r \<Longrightarrow> p \<le> r"
    by (simp add: less_eq_priv_level_def)
  show "p \<le> q \<Longrightarrow> q \<le> p \<Longrightarrow> p = q"
    by (cases p; cases q) (simp_all add: less_eq_priv_level_def)
qed

end

lemma priv_order [simp]:
  "User \<le> p" "p \<le> Machine" "Supervisor \<le> p \<longleftrightarrow> p \<noteq> User" "p \<le> Supervisor \<longleftrightarrow> p \<noteq> Machine"
  "p \<le> User \<longleftrightarrow> p = User" "Machine \<le> p \<longleftrightarrow> p = Machine"
  "\<not> p < User" "\<not> Machine < p" "p < Supervisor \<longleftrightarrow> p = User" "p < Machine \<longleftrightarrow> p \<noteq> Machine"
  "User < p \<longleftrightarrow> p \<noteq> User" "Supervisor < p \<longleftrightarrow> p = Machine"
  by (cases p; simp add: less_eq_priv_level_def less_priv_level_def)+

text \<open>Bits 9:8 of a CSR number; 2 (hypervisor) is treated as machine level.\<close>

definition required :: "u16 \<Rightarrow> priv_level" where
  "required addr =
     (let lvl = drop_bit 8 addr AND 0x3
      in if lvl = 0 then User else if lvl = 1 then Supervisor else Machine)"

definition CAUSE_ILLEGAL_INSN :: u64 where
  "CAUSE_ILLEGAL_INSN = 2"

section \<open>Exceptions and access types\<close>

datatype exception =
    InstructionMisaligned | InstructionAccessFault | IllegalInstruction | Breakpoint
  | LoadMisaligned | LoadAccessFault | StoreMisaligned | StoreAccessFault
  | EcallFromU | EcallFromS | EcallFromM
  | InstructionPageFault | LoadPageFault | StorePageFault

fun exception_code :: "exception \<Rightarrow> u64" where
  "exception_code InstructionMisaligned = 0"
| "exception_code InstructionAccessFault = 1"
| "exception_code IllegalInstruction = 2"
| "exception_code Breakpoint = 3"
| "exception_code LoadMisaligned = 4"
| "exception_code LoadAccessFault = 5"
| "exception_code StoreMisaligned = 6"
| "exception_code StoreAccessFault = 7"
| "exception_code EcallFromU = 8"
| "exception_code EcallFromS = 9"
| "exception_code EcallFromM = 11"
| "exception_code InstructionPageFault = 12"
| "exception_code LoadPageFault = 13"
| "exception_code StorePageFault = 15"

datatype access_type = Read | Write | Execute

fun access_fault :: "access_type \<Rightarrow> exception" where
  "access_fault Read = LoadAccessFault"
| "access_fault Write = StoreAccessFault"
| "access_fault Execute = InstructionAccessFault"

fun page_fault :: "access_type \<Rightarrow> exception" where
  "page_fault Read = LoadPageFault"
| "page_fault Write = StorePageFault"
| "page_fault Execute = InstructionPageFault"

section \<open>T-HEAD vendor registers\<close>

abbreviation CSR_TH_MXSTATUS :: u16 where "CSR_TH_MXSTATUS \<equiv> 0x7c0"
abbreviation CSR_TH_MHCR :: u16 where "CSR_TH_MHCR \<equiv> 0x7c1"
abbreviation CSR_TH_MCOR :: u16 where "CSR_TH_MCOR \<equiv> 0x7c2"
abbreviation CSR_TH_MCCR2 :: u16 where "CSR_TH_MCCR2 \<equiv> 0x7c3"
abbreviation CSR_TH_MHINT :: u16 where "CSR_TH_MHINT \<equiv> 0x7c5"
abbreviation CSR_TH_MRVBR :: u16 where "CSR_TH_MRVBR \<equiv> 0x7c7"
abbreviation CSR_TH_MCOUNTERWEN :: u16 where "CSR_TH_MCOUNTERWEN \<equiv> 0x7c9"
abbreviation CSR_TH_MCOUNTERINTEN :: u16 where "CSR_TH_MCOUNTERINTEN \<equiv> 0x7ca"
abbreviation CSR_TH_MCOUNTEROF :: u16 where "CSR_TH_MCOUNTEROF \<equiv> 0x7cb"
abbreviation CSR_TH_MCINS :: u16 where "CSR_TH_MCINS \<equiv> 0x7d2"
abbreviation CSR_TH_MCINDEX :: u16 where "CSR_TH_MCINDEX \<equiv> 0x7d3"
abbreviation CSR_TH_MCDATA0 :: u16 where "CSR_TH_MCDATA0 \<equiv> 0x7d4"
abbreviation CSR_TH_MCDATA1 :: u16 where "CSR_TH_MCDATA1 \<equiv> 0x7d5"
abbreviation CSR_TH_MSMPR :: u16 where "CSR_TH_MSMPR \<equiv> 0x7f3"
abbreviation CSR_TH_CPUID :: u16 where "CSR_TH_CPUID \<equiv> 0xfc0"
abbreviation CSR_TH_MAPBADDR :: u16 where "CSR_TH_MAPBADDR \<equiv> 0xfc1"
abbreviation CSR_TH_SXSTATUS :: u16 where "CSR_TH_SXSTATUS \<equiv> 0x5c0"
abbreviation CSR_TH_SHCR :: u16 where "CSR_TH_SHCR \<equiv> 0x5c1"
abbreviation CSR_TH_SCER2 :: u16 where "CSR_TH_SCER2 \<equiv> 0x5c2"
abbreviation CSR_TH_SCER :: u16 where "CSR_TH_SCER \<equiv> 0x5c3"
abbreviation CSR_TH_SCOUNTERINTEN :: u16 where "CSR_TH_SCOUNTERINTEN \<equiv> 0x5c4"
abbreviation CSR_TH_SCOUNTEROF :: u16 where "CSR_TH_SCOUNTEROF \<equiv> 0x5c5"
abbreviation CSR_TH_SCYCLE :: u16 where "CSR_TH_SCYCLE \<equiv> 0x5e0"
abbreviation CSR_TH_SMIR :: u16 where "CSR_TH_SMIR \<equiv> 0x9c0"
abbreviation CSR_TH_SMLO0 :: u16 where "CSR_TH_SMLO0 \<equiv> 0x9c1"
abbreviation CSR_TH_SMEH :: u16 where "CSR_TH_SMEH \<equiv> 0x9c2"
abbreviation CSR_TH_SMCIR :: u16 where "CSR_TH_SMCIR \<equiv> 0x9c3"
abbreviation CSR_TH_FXCR :: u16 where "CSR_TH_FXCR \<equiv> 0x800"

definition TH_STATUS_UCME :: u64 where "TH_STATUS_UCME = push_bit 16 1"
definition TH_STATUS_MAEE :: u64 where "TH_STATUS_MAEE = push_bit 21 1"
definition TH_STATUS_THEADISAEE :: u64 where "TH_STATUS_THEADISAEE = push_bit 22 1"

definition is_thead :: "riscv_cpu_profile \<Rightarrow> bool" where
  "is_thead prof \<longleftrightarrow> vendor prof = Thead"

definition th_require_priv :: "u16 \<Rightarrow> priv_level \<Rightarrow> u64 + unit" where
  "th_require_priv addr current =
     (let req =
        (if addr = CSR_TH_FXCR then User
         else if addr \<in> {CSR_TH_SXSTATUS, CSR_TH_SHCR, CSR_TH_SCER2, CSR_TH_SCER,
             CSR_TH_SCOUNTERINTEN, CSR_TH_SCOUNTEROF, CSR_TH_SCYCLE, CSR_TH_SMIR, CSR_TH_SMLO0,
             CSR_TH_SMEH, CSR_TH_SMCIR} \<or> 0x5e3 \<le> addr \<and> addr \<le> 0x5ff then Supervisor
         else Machine)
      in if current < req then Err CAUSE_ILLEGAL_INSN else Ok ())"

definition th_read :: "u16 \<Rightarrow> priv_level \<Rightarrow> riscv_cpu_profile \<Rightarrow> u64 + u64" where
  "th_read addr current prof =
     (if \<not> is_thead prof then Err CAUSE_ILLEGAL_INSN
      else res_bind (th_require_priv addr current) (\<lambda>_.
        if addr = CSR_TH_MXSTATUS \<or> addr = CSR_TH_SXSTATUS then
          Ok (TH_STATUS_UCME OR TH_STATUS_THEADISAEE OR
              (if ext_xtheadmaee (cfg prof) then TH_STATUS_MAEE else 0))
        else if addr \<in> {CSR_TH_MHCR, CSR_TH_MCOR, CSR_TH_MCCR2, CSR_TH_MHINT, CSR_TH_MRVBR,
            CSR_TH_MCOUNTERWEN, CSR_TH_MCOUNTERINTEN, CSR_TH_MCOUNTEROF, CSR_TH_MCINS,
            CSR_TH_MCINDEX, CSR_TH_MCDATA0, CSR_TH_MCDATA1, CSR_TH_MSMPR, CSR_TH_CPUID,
            CSR_TH_MAPBADDR, CSR_TH_SHCR, CSR_TH_SCER2, CSR_TH_SCER, CSR_TH_SCOUNTERINTEN,
            CSR_TH_SCOUNTEROF, CSR_TH_SCYCLE, CSR_TH_SMIR, CSR_TH_SMLO0, CSR_TH_SMEH,
            CSR_TH_SMCIR, CSR_TH_FXCR} \<or> 0x5e3 \<le> addr \<and> addr \<le> 0x5ff then Ok 0
        else Err CAUSE_ILLEGAL_INSN))"

definition th_write :: "u16 \<Rightarrow> priv_level \<Rightarrow> riscv_cpu_profile \<Rightarrow> u64 + unit" where
  "th_write addr current prof = res_bind (th_read addr current prof) (\<lambda>_. Ok ())"

definition has_xthead :: "riscv_cfg \<Rightarrow> bool" where
  "has_xthead c \<longleftrightarrow>
      ext_xtheadba c \<or> ext_xtheadbb c \<or> ext_xtheadbs c \<or>
      ext_xtheadcmo c \<or> ext_xtheadcondmov c \<or> ext_xtheadfmv c \<or>
      ext_xtheadfmemidx c \<or> ext_xtheadmac c \<or> ext_xtheadmaee c \<or>
      ext_xtheadmemidx c \<or> ext_xtheadmempair c \<or> ext_xtheadsync c"

lemma th_read_priv:
  assumes "th_read addr p prof = Ok v"
  shows "vendor prof = Thead \<and> (p = User \<longrightarrow> addr = CSR_TH_FXCR)"
  using assms
  by (cases p) (auto simp: th_read_def th_require_priv_def is_thead_def Let_def split: if_splits)

end
