(* ===== verification/Riscv_Csr.thy ===== *)
theory Riscv_Csr
  imports Riscv_Config
begin

text \<open>
  The control and status registers of a hart (\<open>guest/riscv/src/riscv/csr.rs\<close>): the register file,
  the privilege-checked \<open>read\<close> and \<open>write\<close> with their WARL masks and supervisor aliases, the PMP
  lock bits, and the profile-aware accesses that fall back to the vendor registers. A register
  access returns the cause of the exception it raises, or its result.
\<close>

section \<open>Register numbers and masks\<close>

abbreviation (input) CSR_MSTATUS :: u16 where "CSR_MSTATUS \<equiv> 0x300"
abbreviation (input) CSR_MISA :: u16 where "CSR_MISA \<equiv> 0x301"
abbreviation (input) CSR_MEDELEG :: u16 where "CSR_MEDELEG \<equiv> 0x302"
abbreviation (input) CSR_MIDELEG :: u16 where "CSR_MIDELEG \<equiv> 0x303"
abbreviation (input) CSR_MIE :: u16 where "CSR_MIE \<equiv> 0x304"
abbreviation (input) CSR_MTVEC :: u16 where "CSR_MTVEC \<equiv> 0x305"
abbreviation (input) CSR_MCOUNTEREN :: u16 where "CSR_MCOUNTEREN \<equiv> 0x306"
abbreviation (input) CSR_MSCRATCH :: u16 where "CSR_MSCRATCH \<equiv> 0x340"
abbreviation (input) CSR_MEPC :: u16 where "CSR_MEPC \<equiv> 0x341"
abbreviation (input) CSR_MCAUSE :: u16 where "CSR_MCAUSE \<equiv> 0x342"
abbreviation (input) CSR_MTVAL :: u16 where "CSR_MTVAL \<equiv> 0x343"
abbreviation (input) CSR_MIP :: u16 where "CSR_MIP \<equiv> 0x344"
abbreviation (input) CSR_MENVCFG :: u16 where "CSR_MENVCFG \<equiv> 0x30A"
abbreviation (input) CSR_MCOUNTINHIBIT :: u16 where "CSR_MCOUNTINHIBIT \<equiv> 0x320"
abbreviation (input) CSR_MHARTID :: u16 where "CSR_MHARTID \<equiv> 0xF14"
abbreviation (input) CSR_MVENDORID :: u16 where "CSR_MVENDORID \<equiv> 0xF11"
abbreviation (input) CSR_MARCHID :: u16 where "CSR_MARCHID \<equiv> 0xF12"
abbreviation (input) CSR_MIMPID :: u16 where "CSR_MIMPID \<equiv> 0xF13"
abbreviation (input) CSR_PMPCFG0 :: u16 where "CSR_PMPCFG0 \<equiv> 0x3A0"
abbreviation (input) CSR_PMPCFG2 :: u16 where "CSR_PMPCFG2 \<equiv> 0x3A2"
abbreviation (input) CSR_PMPADDR0 :: u16 where "CSR_PMPADDR0 \<equiv> 0x3B0"
abbreviation (input) CSR_SSTATUS :: u16 where "CSR_SSTATUS \<equiv> 0x100"
abbreviation (input) CSR_SIE :: u16 where "CSR_SIE \<equiv> 0x104"
abbreviation (input) CSR_STVEC :: u16 where "CSR_STVEC \<equiv> 0x105"
abbreviation (input) CSR_SCOUNTEREN :: u16 where "CSR_SCOUNTEREN \<equiv> 0x106"
abbreviation (input) CSR_SSCRATCH :: u16 where "CSR_SSCRATCH \<equiv> 0x140"
abbreviation (input) CSR_SEPC :: u16 where "CSR_SEPC \<equiv> 0x141"
abbreviation (input) CSR_SCAUSE :: u16 where "CSR_SCAUSE \<equiv> 0x142"
abbreviation (input) CSR_STVAL :: u16 where "CSR_STVAL \<equiv> 0x143"
abbreviation (input) CSR_SIP :: u16 where "CSR_SIP \<equiv> 0x144"
abbreviation (input) CSR_SATP :: u16 where "CSR_SATP \<equiv> 0x180"
abbreviation (input) CSR_MCYCLE :: u16 where "CSR_MCYCLE \<equiv> 0xB00"
abbreviation (input) CSR_MINSTRET :: u16 where "CSR_MINSTRET \<equiv> 0xB02"
abbreviation (input) CSR_CYCLE :: u16 where "CSR_CYCLE \<equiv> 0xC00"
abbreviation (input) CSR_TIME :: u16 where "CSR_TIME \<equiv> 0xC01"
abbreviation (input) CSR_INSTRET :: u16 where "CSR_INSTRET \<equiv> 0xC02"
abbreviation (input) CSR_VLENB :: u16 where "CSR_VLENB \<equiv> 0xC22"
abbreviation (input) CSR_TSELECT :: u16 where "CSR_TSELECT \<equiv> 0x7A0"
abbreviation (input) CSR_TDATA1 :: u16 where "CSR_TDATA1 \<equiv> 0x7A1"
abbreviation (input) CSR_TDATA2 :: u16 where "CSR_TDATA2 \<equiv> 0x7A2"
abbreviation (input) CSR_TDATA3 :: u16 where "CSR_TDATA3 \<equiv> 0x7A3"
abbreviation (input) CSR_TCONTROL :: u16 where "CSR_TCONTROL \<equiv> 0x7A5"
abbreviation (input) CSR_FFLAGS :: u16 where "CSR_FFLAGS \<equiv> 0x001"
abbreviation (input) CSR_FRM :: u16 where "CSR_FRM \<equiv> 0x002"
abbreviation (input) CSR_FCSR :: u16 where "CSR_FCSR \<equiv> 0x003"

definition PMPCFG_L :: u64 where "PMPCFG_L = push_bit 7 1"
definition PMPCFG_A_MASK :: u64 where "PMPCFG_A_MASK = push_bit 3 0x3"
definition PMPCFG_A_TOR :: u64 where "PMPCFG_A_TOR = push_bit 3 0x1"
definition MSTATUS_SIE :: u64 where "MSTATUS_SIE = push_bit 1 1"
definition MSTATUS_MIE :: u64 where "MSTATUS_MIE = push_bit 3 1"
definition MSTATUS_SPIE :: u64 where "MSTATUS_SPIE = push_bit 5 1"
definition MSTATUS_MPIE :: u64 where "MSTATUS_MPIE = push_bit 7 1"
definition MSTATUS_SPP :: u64 where "MSTATUS_SPP = push_bit 8 1"
definition MSTATUS_MPP :: u64 where "MSTATUS_MPP = push_bit 11 3"
definition MSTATUS_FS :: u64 where "MSTATUS_FS = push_bit 13 3"
definition MSTATUS_XS :: u64 where "MSTATUS_XS = push_bit 15 3"
definition MSTATUS_MPRV :: u64 where "MSTATUS_MPRV = push_bit 17 1"
definition MSTATUS_SUM :: u64 where "MSTATUS_SUM = push_bit 18 1"
definition MSTATUS_MXR :: u64 where "MSTATUS_MXR = push_bit 19 1"
definition MSTATUS_TVM :: u64 where "MSTATUS_TVM = push_bit 20 1"
definition MSTATUS_TW :: u64 where "MSTATUS_TW = push_bit 21 1"
definition MSTATUS_TSR :: u64 where "MSTATUS_TSR = push_bit 22 1"
definition MSTATUS_UXL :: u64 where "MSTATUS_UXL = push_bit 32 3"
definition MSTATUS_SD :: u64 where "MSTATUS_SD = push_bit 63 1"
definition MSTATUS_UXL_64 :: u64 where "MSTATUS_UXL_64 = push_bit 32 2"
definition MSTATUS_SXL_64 :: u64 where "MSTATUS_SXL_64 = push_bit 34 2"

definition MSTATUS_WRITE_MASK :: u64 where
  "MSTATUS_WRITE_MASK = MSTATUS_SIE OR MSTATUS_MIE OR MSTATUS_SPIE OR MSTATUS_MPIE OR MSTATUS_SPP
     OR MSTATUS_MPP OR MSTATUS_FS OR MSTATUS_MPRV OR MSTATUS_SUM OR MSTATUS_MXR
     OR MSTATUS_TVM OR MSTATUS_TW OR MSTATUS_TSR"

definition SSTATUS_MASK :: u64 where
  "SSTATUS_MASK = MSTATUS_SIE OR MSTATUS_SPIE OR MSTATUS_SPP OR MSTATUS_FS OR MSTATUS_XS
     OR MSTATUS_SUM OR MSTATUS_MXR OR MSTATUS_UXL OR MSTATUS_SD"

definition SSTATUS_WRITE_MASK :: u64 where
  "SSTATUS_WRITE_MASK = MSTATUS_SIE OR MSTATUS_SPIE OR MSTATUS_SPP OR MSTATUS_FS OR MSTATUS_SUM
     OR MSTATUS_MXR"

definition SIP_MASK :: u64 where
  "SIP_MASK = push_bit 1 1 OR push_bit 5 1 OR push_bit 9 1"

definition FFLAGS_MASK :: u64 where "FFLAGS_MASK = 0x1F"
definition FRM_MASK :: u64 where "FRM_MASK = 0x07"
definition MXL_64 :: u64 where "MXL_64 = push_bit 62 2"

definition misa_rv64imafdcsu :: u64 where
  "misa_rv64imafdcsu = MXL_64 OR push_bit 0 1 OR push_bit 2 1 OR push_bit 3 1 OR push_bit 5 1
     OR push_bit 8 1 OR push_bit 12 1 OR push_bit 18 1 OR push_bit 20 1"

definition MEDELEG_MASK :: u64 where
  "MEDELEG_MASK = push_bit 0 1 OR push_bit 1 1 OR push_bit 2 1 OR push_bit 3 1 OR push_bit 4 1
     OR push_bit 5 1 OR push_bit 6 1 OR push_bit 7 1 OR push_bit 8 1 OR push_bit 12 1
     OR push_bit 13 1 OR push_bit 15 1"

definition PMP_COUNT :: nat where "PMP_COUNT = 16"

section \<open>The register file\<close>

record csr_file =
  mstatus :: u64
  misa :: u64
  medeleg :: u64
  mideleg :: u64
  mie :: u64
  mtvec :: u64
  mcounteren :: u64
  mscratch :: u64
  mepc :: u64
  mcause :: u64
  mtval :: u64
  mip :: u64
  menvcfg :: u64
  mcountinhibit :: u64
  pmpcfg :: "u64 list"
  pmpaddr :: "u64 list"
  satp :: u64
  sscratch :: u64
  sepc :: u64
  scause :: u64
  stval :: u64
  stvec :: u64
  scounteren :: u64
  cycle :: u64
  instret :: u64
  fflags :: u64
  frm :: u64
  hart_id :: u64
  mvendorid :: u64
  marchid :: u64
  max_satp_mode :: u64

definition csr_new :: csr_file where
  "csr_new = \<lparr>mstatus = push_bit 13 1, misa = misa_rv64imafdcsu, medeleg = 0, mideleg = 0, mie = 0,
     mtvec = 0, mcounteren = 0, mscratch = 0, mepc = 0, mcause = 0, mtval = 0, mip = 0,
     menvcfg = 0, mcountinhibit = 0, pmpcfg = replicate 4 0, pmpaddr = replicate PMP_COUNT 0,
     satp = 0, sscratch = 0, sepc = 0, scause = 0, stval = 0, stvec = 0, scounteren = 0,
     cycle = 0, instret = 0, fflags = 0, frm = 0, hart_id = 0, mvendorid = 0, marchid = 0,
     max_satp_mode = 8\<rparr>"

definition set_machine_ids :: "csr_file \<Rightarrow> u64 \<Rightarrow> u64 \<Rightarrow> csr_file" where
  "set_machine_ids c vendorid archid = c\<lparr>mvendorid := vendorid, marchid := archid\<rparr>"

definition set_max_satp_mode :: "csr_file \<Rightarrow> u64 \<Rightarrow> csr_file" where
  "set_max_satp_mode c m = c\<lparr>max_satp_mode := m\<rparr>"

definition sd_bit :: "csr_file \<Rightarrow> u64" where
  "sd_bit c =
     (let fs = mstatus c AND MSTATUS_FS; xs = mstatus c AND MSTATUS_XS
      in if fs = MSTATUS_FS \<or> xs = MSTATUS_XS then MSTATUS_SD else 0)"

section \<open>PMP lock bits\<close>

definition pmpcfg_byte :: "csr_file \<Rightarrow> nat \<Rightarrow> u64" where
  "pmpcfg_byte c entry =
     (let csr = entry div 8; shift = (entry mod 8) * 8
      in drop_bit shift (pmpcfg c ! csr) AND 0xff)"

definition write_pmpcfg :: "csr_file \<Rightarrow> nat \<Rightarrow> u64 \<Rightarrow> csr_file" where
  "write_pmpcfg c csr val =
     (let next = foldl (\<lambda>next byte.
            let entry = csr * 8 + byte; shift = byte * 8; mask = push_bit shift 0xff
            in if pmpcfg_byte c entry AND PMPCFG_L \<noteq> 0 then next
               else (next AND NOT mask) OR (val AND mask))
          (pmpcfg c ! csr) [0..<8]
      in c\<lparr>pmpcfg := (pmpcfg c)[csr := next]\<rparr>)"

definition pmpaddr_locked :: "csr_file \<Rightarrow> nat \<Rightarrow> bool" where
  "pmpaddr_locked c entry =
     (if pmpcfg_byte c entry AND PMPCFG_L \<noteq> 0 then True
      else if entry + 1 \<ge> PMP_COUNT then False
      else let next_cfg = pmpcfg_byte c (entry + 1)
           in next_cfg AND PMPCFG_L \<noteq> 0 \<and> next_cfg AND PMPCFG_A_MASK = PMPCFG_A_TOR)"

section \<open>Read\<close>

definition csr_read :: "csr_file \<Rightarrow> u16 \<Rightarrow> priv_level \<Rightarrow> u64 + u64" where
  "csr_read c addr p =
     (if p < required addr then Err CAUSE_ILLEGAL_INSN
      else if addr = CSR_MSTATUS then Ok (mstatus c OR sd_bit c OR MSTATUS_UXL_64 OR MSTATUS_SXL_64)
      else if addr = CSR_MISA then Ok (misa c)
      else if addr = CSR_MEDELEG then Ok (medeleg c)
      else if addr = CSR_MIDELEG then Ok (mideleg c)
      else if addr = CSR_MIE then Ok (mie c)
      else if addr = CSR_MTVEC then Ok (mtvec c)
      else if addr = CSR_MCOUNTEREN then Ok (mcounteren c)
      else if addr = CSR_MSCRATCH then Ok (mscratch c)
      else if addr = CSR_MEPC then Ok (mepc c)
      else if addr = CSR_MCAUSE then Ok (mcause c)
      else if addr = CSR_MTVAL then Ok (mtval c)
      else if addr = CSR_MIP then Ok (mip c)
      else if addr = CSR_MENVCFG then Ok (menvcfg c)
      else if addr = CSR_MCOUNTINHIBIT then Ok (mcountinhibit c)
      else if addr = CSR_PMPCFG0 \<or> addr = CSR_PMPCFG2 then
        Ok (pmpcfg c ! unat ((addr - CSR_PMPCFG0) div 2))
      else if addr = CSR_PMPCFG0 + 1 \<or> addr = CSR_PMPCFG0 + 3 then Ok 0
      else if addr \<ge> CSR_PMPADDR0 \<and> addr < CSR_PMPADDR0 + of_nat PMP_COUNT then
        Ok (pmpaddr c ! unat (addr - CSR_PMPADDR0))
      else if addr = CSR_SSTATUS then
        Ok ((mstatus c OR sd_bit c OR MSTATUS_UXL_64) AND SSTATUS_MASK)
      else if addr = CSR_SIE then Ok (mie c AND mideleg c AND SIP_MASK)
      else if addr = CSR_STVEC then Ok (stvec c)
      else if addr = CSR_SCOUNTEREN then Ok (scounteren c)
      else if addr = CSR_SSCRATCH then Ok (sscratch c)
      else if addr = CSR_SEPC then Ok (sepc c)
      else if addr = CSR_SCAUSE then Ok (scause c)
      else if addr = CSR_STVAL then Ok (stval c)
      else if addr = CSR_SIP then Ok (mip c AND mideleg c AND SIP_MASK)
      else if addr = CSR_SATP then
        (if p = Supervisor \<and> mstatus c AND MSTATUS_TVM \<noteq> 0 then Err CAUSE_ILLEGAL_INSN
         else Ok (satp c))
      else if addr = CSR_MHARTID then Ok (hart_id c)
      else if addr = CSR_MVENDORID then Ok (mvendorid c)
      else if addr = CSR_MARCHID then Ok (marchid c)
      else if addr = CSR_MIMPID then Ok 0
      else if addr = CSR_CYCLE \<or> addr = CSR_TIME then Ok (cycle c)
      else if addr = CSR_INSTRET then Ok (instret c)
      else if addr = CSR_MCYCLE then Ok (cycle c)
      else if addr = CSR_MINSTRET then Ok (instret c)
      else if addr = CSR_TSELECT \<or> addr = CSR_TDATA1 \<or> addr = CSR_TDATA2 \<or> addr = CSR_TDATA3
              \<or> addr = CSR_TCONTROL then Ok 0
      else if addr = CSR_FFLAGS then Ok (fflags c AND FFLAGS_MASK)
      else if addr = CSR_FRM then Ok (frm c AND FRM_MASK)
      else if addr = CSR_FCSR then
        Ok ((fflags c AND FFLAGS_MASK) OR push_bit 5 (frm c AND FRM_MASK))
      else if 0xB03 \<le> addr \<and> addr \<le> 0xB1F \<or> 0x323 \<le> addr \<and> addr \<le> 0x33F then Ok 0
      else if addr = CSR_VLENB then Ok 0
      else Err CAUSE_ILLEGAL_INSN)"

section \<open>Write\<close>

definition csr_write :: "csr_file \<Rightarrow> u16 \<Rightarrow> u64 \<Rightarrow> priv_level \<Rightarrow> u64 + csr_file" where
  "csr_write c addr val p =
     (if p < required addr then Err CAUSE_ILLEGAL_INSN
      else if drop_bit 10 addr AND 0x3 = 0x3 then Err CAUSE_ILLEGAL_INSN
      else if addr = CSR_MSTATUS then
        Ok (c\<lparr>mstatus := (mstatus c AND NOT MSTATUS_WRITE_MASK) OR (val AND MSTATUS_WRITE_MASK)\<rparr>)
      else if addr = CSR_MISA then Ok c
      else if addr = CSR_MEDELEG then Ok (c\<lparr>medeleg := val AND MEDELEG_MASK\<rparr>)
      else if addr = CSR_MIDELEG then Ok (c\<lparr>mideleg := val AND SIP_MASK\<rparr>)
      else if addr = CSR_MIE then Ok (c\<lparr>mie := val\<rparr>)
      else if addr = CSR_MTVEC then Ok (c\<lparr>mtvec := val\<rparr>)
      else if addr = CSR_MCOUNTEREN then Ok (c\<lparr>mcounteren := val AND 0x7\<rparr>)
      else if addr = CSR_MSCRATCH then Ok (c\<lparr>mscratch := val\<rparr>)
      else if addr = CSR_MEPC then Ok (c\<lparr>mepc := val AND NOT 1\<rparr>)
      else if addr = CSR_MCAUSE then Ok (c\<lparr>mcause := val\<rparr>)
      else if addr = CSR_MTVAL then Ok (c\<lparr>mtval := val\<rparr>)
      else if addr = CSR_MIP then
        Ok (c\<lparr>mip := (mip c AND NOT SIP_MASK) OR (val AND SIP_MASK)\<rparr>)
      else if addr = CSR_MENVCFG then Ok (c\<lparr>menvcfg := val\<rparr>)
      else if addr = CSR_MCOUNTINHIBIT then Ok (c\<lparr>mcountinhibit := val AND 0x7\<rparr>)
      else if addr = CSR_PMPCFG0 \<or> addr = CSR_PMPCFG2 then
        Ok (write_pmpcfg c (unat ((addr - CSR_PMPCFG0) div 2)) val)
      else if addr = CSR_PMPCFG0 + 1 \<or> addr = CSR_PMPCFG0 + 3 then Ok c
      else if addr \<ge> CSR_PMPADDR0 \<and> addr < CSR_PMPADDR0 + of_nat PMP_COUNT then
        (let idx = unat (addr - CSR_PMPADDR0)
         in Ok (if \<not> pmpaddr_locked c idx then c\<lparr>pmpaddr := (pmpaddr c)[idx := val]\<rparr> else c))
      else if addr = CSR_SSTATUS then
        Ok (c\<lparr>mstatus := (mstatus c AND NOT SSTATUS_WRITE_MASK) OR (val AND SSTATUS_WRITE_MASK)\<rparr>)
      else if addr = CSR_SIE then
        (let mask = mideleg c AND SIP_MASK
         in Ok (c\<lparr>mie := (mie c AND NOT mask) OR (val AND mask)\<rparr>))
      else if addr = CSR_STVEC then Ok (c\<lparr>stvec := val\<rparr>)
      else if addr = CSR_SCOUNTEREN then Ok (c\<lparr>scounteren := val AND 0x7\<rparr>)
      else if addr = CSR_SSCRATCH then Ok (c\<lparr>sscratch := val\<rparr>)
      else if addr = CSR_SEPC then Ok (c\<lparr>sepc := val AND NOT 1\<rparr>)
      else if addr = CSR_SCAUSE then Ok (c\<lparr>scause := val\<rparr>)
      else if addr = CSR_STVAL then Ok (c\<lparr>stval := val\<rparr>)
      else if addr = CSR_SIP then
        (let mask = mideleg c AND SIP_MASK
         in Ok (c\<lparr>mip := (mip c AND NOT mask) OR (val AND mask)\<rparr>))
      else if addr = CSR_SATP then
        (if p = Supervisor \<and> mstatus c AND MSTATUS_TVM \<noteq> 0 then Err CAUSE_ILLEGAL_INSN
         else let mode = drop_bit 60 val AND 0xF
              in Ok (if mode = 0 \<or> (mode \<ge> 8 \<and> mode \<le> max_satp_mode c) then c\<lparr>satp := val\<rparr> else c))
      else if addr = CSR_FFLAGS then Ok (c\<lparr>fflags := val AND FFLAGS_MASK\<rparr>)
      else if addr = CSR_FRM then Ok (c\<lparr>frm := val AND FRM_MASK\<rparr>)
      else if addr = CSR_FCSR then
        Ok (c\<lparr>fflags := val AND FFLAGS_MASK, frm := drop_bit 5 val AND FRM_MASK\<rparr>)
      else if addr = CSR_MCYCLE then Ok (c\<lparr>cycle := val\<rparr>)
      else if addr = CSR_MINSTRET then Ok (c\<lparr>instret := val\<rparr>)
      else if addr = CSR_TSELECT \<or> addr = CSR_TDATA1 \<or> addr = CSR_TDATA2 \<or> addr = CSR_TDATA3
              \<or> addr = CSR_TCONTROL then Ok c
      else if 0xB03 \<le> addr \<and> addr \<le> 0xB1F \<or> 0x323 \<le> addr \<and> addr \<le> 0x33F then Ok c
      else Err CAUSE_ILLEGAL_INSN)"

section \<open>Profile-aware accesses\<close>

definition read_for_profile ::
    "csr_file \<Rightarrow> u16 \<Rightarrow> priv_level \<Rightarrow> riscv_cpu_profile \<Rightarrow> u64 + u64" where
  "read_for_profile c addr p prof =
     (case csr_read c addr p of
        Inr value \<Rightarrow> Ok value
      | Inl err \<Rightarrow> map_err (\<lambda>_. err) (th_read addr p prof))"

definition write_for_profile ::
    "csr_file \<Rightarrow> u16 \<Rightarrow> u64 \<Rightarrow> priv_level \<Rightarrow> riscv_cpu_profile \<Rightarrow> u64 + csr_file" where
  "write_for_profile c addr val p prof =
     (case csr_write c addr val p of
        Inr c' \<Rightarrow> Ok c'
      | Inl err \<Rightarrow> map_err (\<lambda>_. err) (res_bind (th_write addr p prof) (\<lambda>_. Ok c)))"

section \<open>Bits of the masks\<close>

lemma csr_bits [mask_simps]:
  "bit PMPCFG_L n \<longleftrightarrow> n = 7"
  "bit PMPCFG_A_MASK n \<longleftrightarrow> n = 3 \<or> n = 4"
  "bit PMPCFG_A_TOR n \<longleftrightarrow> n = 3"
  "bit MSTATUS_SIE n \<longleftrightarrow> n = 1"
  "bit MSTATUS_MIE n \<longleftrightarrow> n = 3"
  "bit MSTATUS_SPIE n \<longleftrightarrow> n = 5"
  "bit MSTATUS_MPIE n \<longleftrightarrow> n = 7"
  "bit MSTATUS_SPP n \<longleftrightarrow> n = 8"
  "bit MSTATUS_MPP n \<longleftrightarrow> n = 11 \<or> n = 12"
  "bit MSTATUS_FS n \<longleftrightarrow> n = 13 \<or> n = 14"
  "bit MSTATUS_XS n \<longleftrightarrow> n = 15 \<or> n = 16"
  "bit MSTATUS_MPRV n \<longleftrightarrow> n = 17"
  "bit MSTATUS_SUM n \<longleftrightarrow> n = 18"
  "bit MSTATUS_MXR n \<longleftrightarrow> n = 19"
  "bit MSTATUS_TVM n \<longleftrightarrow> n = 20"
  "bit MSTATUS_TW n \<longleftrightarrow> n = 21"
  "bit MSTATUS_TSR n \<longleftrightarrow> n = 22"
  "bit MSTATUS_UXL n \<longleftrightarrow> n = 32 \<or> n = 33"
  "bit MSTATUS_SD n \<longleftrightarrow> n = 63"
  "bit MSTATUS_UXL_64 n \<longleftrightarrow> n = 33"
  "bit MSTATUS_SXL_64 n \<longleftrightarrow> n = 35"
  unfolding PMPCFG_L_def PMPCFG_A_MASK_def PMPCFG_A_TOR_def MSTATUS_SIE_def
      MSTATUS_MIE_def MSTATUS_SPIE_def MSTATUS_MPIE_def MSTATUS_SPP_def
      MSTATUS_MPP_def MSTATUS_FS_def MSTATUS_XS_def MSTATUS_MPRV_def
      MSTATUS_SUM_def MSTATUS_MXR_def MSTATUS_TVM_def MSTATUS_TW_def
      MSTATUS_TSR_def MSTATUS_UXL_def MSTATUS_SD_def MSTATUS_UXL_64_def
      MSTATUS_SXL_64_def
      bit_push_bit_1 bit_push_bit_2 bit_push_bit_3
  by auto

section \<open>The effects of a write\<close>

lemma required_pmpaddr:
  assumes "CSR_PMPADDR0 \<le> addr" and "addr < 0x3C0"
  shows "required addr = Machine"
proof -
  have "944 \<le> unat addr" and "unat addr < 960"
    using assms by (simp_all add: word_le_nat_alt word_less_nat_alt)
  then have "unat (drop_bit 8 addr) = 3"
    unfolding unat_drop_bit_eq unfolding drop_bit_eq_div by simp
  then have "drop_bit 8 addr = 3"
    by (simp only: word_unat_eq_iff) simp
  then show ?thesis
    by (simp add: required_def)
qed

lemma pmpaddr_idx:
  assumes "CSR_PMPADDR0 \<le> addr" and "addr < 0x3C0"
  shows "unat (addr - CSR_PMPADDR0) < PMP_COUNT"
  using assms by (simp add: unat_sub word_le_nat_alt word_less_nat_alt PMP_COUNT_def)

text \<open>
  What one write can do to the register file at a privilege level, without the register
  numbers.
\<close>

inductive csr_effect :: "csr_file \<Rightarrow> priv_level \<Rightarrow> csr_file \<Rightarrow> bool" for c where
  same: "csr_effect c p c"
| fflags: "csr_effect c p (c\<lparr>fflags := v AND FFLAGS_MASK\<rparr>)"
| frm: "csr_effect c p (c\<lparr>frm := v AND FRM_MASK\<rparr>)"
| fcsr: "csr_effect c p (c\<lparr>fflags := v AND FFLAGS_MASK, frm := w AND FRM_MASK\<rparr>)"
| sstatus: "p \<noteq> User \<Longrightarrow> csr_effect c p
     (c\<lparr>mstatus := (mstatus c AND NOT SSTATUS_WRITE_MASK) OR (v AND SSTATUS_WRITE_MASK)\<rparr>)"
| sie: "p \<noteq> User \<Longrightarrow> csr_effect c p (c\<lparr>mie := (mie c AND NOT (mideleg c AND SIP_MASK))
     OR (v AND (mideleg c AND SIP_MASK))\<rparr>)"
| sip: "p \<noteq> User \<Longrightarrow> csr_effect c p (c\<lparr>mip := (mip c AND NOT (mideleg c AND SIP_MASK))
     OR (v AND (mideleg c AND SIP_MASK))\<rparr>)"
| stvec: "p \<noteq> User \<Longrightarrow> csr_effect c p (c\<lparr>stvec := v\<rparr>)"
| scounteren: "p \<noteq> User \<Longrightarrow> csr_effect c p (c\<lparr>scounteren := v AND 0x7\<rparr>)"
| sscratch: "p \<noteq> User \<Longrightarrow> csr_effect c p (c\<lparr>sscratch := v\<rparr>)"
| sepc: "p \<noteq> User \<Longrightarrow> csr_effect c p (c\<lparr>sepc := v AND NOT 1\<rparr>)"
| scause: "p \<noteq> User \<Longrightarrow> csr_effect c p (c\<lparr>scause := v\<rparr>)"
| stval: "p \<noteq> User \<Longrightarrow> csr_effect c p (c\<lparr>stval := v\<rparr>)"
| satp: "\<lbrakk>p \<noteq> User; p = Supervisor \<Longrightarrow> mstatus c AND MSTATUS_TVM = 0;
     drop_bit 60 v AND 0xF = 0 \<or> drop_bit 60 v AND 0xF \<ge> 8 \<and> drop_bit 60 v AND 0xF \<le> max_satp_mode c\<rbrakk>
     \<Longrightarrow> csr_effect c p (c\<lparr>satp := v\<rparr>)"
| mstatus: "csr_effect c Machine
     (c\<lparr>mstatus := (mstatus c AND NOT MSTATUS_WRITE_MASK) OR (v AND MSTATUS_WRITE_MASK)\<rparr>)"
| medeleg: "csr_effect c Machine (c\<lparr>medeleg := v AND MEDELEG_MASK\<rparr>)"
| mideleg: "csr_effect c Machine (c\<lparr>mideleg := v AND SIP_MASK\<rparr>)"
| mie: "csr_effect c Machine (c\<lparr>mie := v\<rparr>)"
| mtvec: "csr_effect c Machine (c\<lparr>mtvec := v\<rparr>)"
| mcounteren: "csr_effect c Machine (c\<lparr>mcounteren := v AND 0x7\<rparr>)"
| mscratch: "csr_effect c Machine (c\<lparr>mscratch := v\<rparr>)"
| mepc: "csr_effect c Machine (c\<lparr>mepc := v AND NOT 1\<rparr>)"
| mcause: "csr_effect c Machine (c\<lparr>mcause := v\<rparr>)"
| mtval: "csr_effect c Machine (c\<lparr>mtval := v\<rparr>)"
| mip: "csr_effect c Machine (c\<lparr>mip := (mip c AND NOT SIP_MASK) OR (v AND SIP_MASK)\<rparr>)"
| menvcfg: "csr_effect c Machine (c\<lparr>menvcfg := v\<rparr>)"
| mcountinhibit: "csr_effect c Machine (c\<lparr>mcountinhibit := v AND 0x7\<rparr>)"
| pmpcfg: "k < 2 \<Longrightarrow> csr_effect c Machine (write_pmpcfg c k v)"
| pmpaddr: "\<lbrakk>i < PMP_COUNT; \<not> pmpaddr_locked c i\<rbrakk> \<Longrightarrow>
     csr_effect c Machine (c\<lparr>pmpaddr := (pmpaddr c)[i := v]\<rparr>)"
| cycle: "csr_effect c Machine (c\<lparr>cycle := v\<rparr>)"
| instret: "csr_effect c Machine (c\<lparr>instret := v\<rparr>)"

lemma required_numeral:
  "required (numeral w) =
     (let lvl = drop_bit 8 (numeral w :: u16) AND 0x3
      in if lvl = 0 then User else if lvl = 1 then Supervisor else Machine)"
  "required 1 = User"
  by (rule required_def) (simp add: required_def)

lemmas csr_effect_intros = csr_effect.intros [simplified]
  csr_effect.pmpcfg [of 0, simplified] csr_effect.pmpcfg [of 1, simplified]

lemma csr_write_effect:
  assumes "csr_write c addr val p = Ok c'"
  shows "csr_effect c p c'"
  using assms unfolding csr_write_def Let_def
  by (auto split: if_splits simp: required_numeral PMP_COUNT_def required_pmpaddr
      dest: pmpaddr_idx intro: csr_effect_intros)


section \<open>Well-formed register files\<close>

definition csr_wf :: "csr_file \<Rightarrow> bool" where
  "csr_wf c \<longleftrightarrow> within (mstatus c) MSTATUS_WRITE_MASK \<and> within (medeleg c) MEDELEG_MASK
     \<and> within (mideleg c) SIP_MASK \<and> within (mcounteren c) 0x7 \<and> within (mcountinhibit c) 0x7
     \<and> within (scounteren c) 0x7 \<and> within (mepc c) (NOT 1) \<and> within (sepc c) (NOT 1)
     \<and> within (fflags c) FFLAGS_MASK \<and> within (frm c) FRM_MASK
     \<and> (let mode = drop_bit 60 (satp c) AND 0xF in mode = 0 \<or> mode \<ge> 8 \<and> mode \<le> max_satp_mode c)
     \<and> length (pmpcfg c) = 4 \<and> length (pmpaddr c) = PMP_COUNT"

lemma sstatus_within: "within SSTATUS_WRITE_MASK MSTATUS_WRITE_MASK"
  by (auto simp: within_iff SSTATUS_WRITE_MASK_def MSTATUS_WRITE_MASK_def bit_or_iff)

lemma csr_wf_new: "csr_wf csr_new"
proof -
  have "within (push_bit 13 1) MSTATUS_WRITE_MASK"
    unfolding within_iff bit_push_bit_1 MSTATUS_WRITE_MASK_def bit_or_iff csr_bits by simp
  then show ?thesis
    by (simp add: csr_wf_def csr_new_def)
qed

lemma write_pmpcfg_simps [simp]:
  "mstatus (write_pmpcfg c k v) = mstatus c" "medeleg (write_pmpcfg c k v) = medeleg c"
  "mideleg (write_pmpcfg c k v) = mideleg c" "mcounteren (write_pmpcfg c k v) = mcounteren c"
  "mcountinhibit (write_pmpcfg c k v) = mcountinhibit c" "scounteren (write_pmpcfg c k v) = scounteren c"
  "mepc (write_pmpcfg c k v) = mepc c" "sepc (write_pmpcfg c k v) = sepc c"
  "fflags (write_pmpcfg c k v) = fflags c" "frm (write_pmpcfg c k v) = frm c"
  "satp (write_pmpcfg c k v) = satp c" "max_satp_mode (write_pmpcfg c k v) = max_satp_mode c"
  "length (pmpcfg (write_pmpcfg c k v)) = length (pmpcfg c)" "pmpaddr (write_pmpcfg c k v) = pmpaddr c"
  by (simp_all add: write_pmpcfg_def Let_def)

lemma csr_effect_wf:
  assumes "csr_effect c p c'" and "csr_wf c"
  shows "csr_wf c'"
  using assms
  by cases (auto simp: csr_wf_def Let_def within_merge sstatus_within within_iff [of MSTATUS_WRITE_MASK MSTATUS_WRITE_MASK])

section \<open>Locked PMP entries\<close>

definition pmp_locked :: "csr_file \<Rightarrow> nat \<Rightarrow> bool" where
  "pmp_locked c i \<longleftrightarrow> pmpcfg_byte c i AND PMPCFG_L \<noteq> 0"

definition pmp_tor :: "csr_file \<Rightarrow> nat \<Rightarrow> bool" where
  "pmp_tor c i \<longleftrightarrow> pmpcfg_byte c i AND PMPCFG_A_MASK = PMPCFG_A_TOR"

lemma word_ff_mask: "(0xff :: u64) = mask 8"
  by (simp add: mask_eq_exp_minus_1)

lemma bit_pmpcfg_byte:
  "bit (pmpcfg_byte c i) j \<longleftrightarrow> j < 8 \<and> bit (pmpcfg c ! (i div 8)) (i mod 8 * 8 + j)"
  unfolding pmpcfg_byte_def Let_def word_ff_mask
  by (auto simp: bit_and_iff bit_mask_iff bit_drop_bit_eq add.commute)

lemma bit_byte_mask: "bit (push_bit (b * 8) (0xff :: u64)) n \<longleftrightarrow> n div 8 = b \<and> n < 64"
proof -
  have "b * 8 \<le> n \<and> n - b * 8 < 8 \<longleftrightarrow> n div 8 = b" by auto
  then show ?thesis
    unfolding word_ff_mask by (auto simp: bit_push_bit_iff bit_mask_iff)
qed

lemma bit_write_pmpcfg:
  assumes "k < length (pmpcfg c)" and "n < 64"
  shows "bit (pmpcfg (write_pmpcfg c k v) ! k) n \<longleftrightarrow>
     bit (if pmp_locked c (k * 8 + n div 8) then pmpcfg c ! k else v) n"
proof -
  let ?f = "\<lambda>next byte. let entry = k * 8 + byte; shift = byte * 8; mask = push_bit shift 0xff
      in if pmpcfg_byte c entry AND PMPCFG_L \<noteq> 0 then next else (next AND NOT mask) OR (v AND mask)"
  have "bit (foldl ?f (pmpcfg c ! k) [0..<m]) n \<longleftrightarrow>
      bit (if n div 8 < m \<and> \<not> pmp_locked c (k * 8 + n div 8) then v else pmpcfg c ! k) n" for m
  proof (induction m)
    case (Suc m)
    show ?case
      unfolding upt_Suc_append [OF le0] foldl_append
      using Suc \<open>n < 64\<close>
      by (auto simp: Let_def pmp_locked_def bit_byte_mask bit_and_iff bit_or_iff bit_not_iff
            less_Suc_eq)
  qed simp
  moreover have "n div 8 < 8"
    using \<open>n < 64\<close> by simp
  ultimately show ?thesis
    using assms(1) by (simp add: write_pmpcfg_def Let_def)
qed

lemma pmpcfg_byte_write:
  assumes "csr_wf c" and "k < 2" and "i < PMP_COUNT" and "pmp_locked c i"
  shows "pmpcfg_byte (write_pmpcfg c k v) i = pmpcfg_byte c i"
proof (cases "i div 8 = k")
  case True
  have len: "k < length (pmpcfg c)"
    using assms(1,2) by (simp add: csr_wf_def)
  have "bit (pmpcfg (write_pmpcfg c k v) ! k) (i mod 8 * 8 + j) = bit (pmpcfg c ! k) (i mod 8 * 8 + j)"
    if "j < 8" for j
  proof -
    have "(i mod 8 * 8 + j) div 8 = i mod 8" and "i mod 8 * 8 + j < 64"
      using that by auto
    moreover have "k * 8 + i mod 8 = i"
      using True by auto
    ultimately show ?thesis
      using bit_write_pmpcfg [OF len, of "i mod 8 * 8 + j" v] assms(4) by simp
  qed
  with True show ?thesis
    by (intro bit_eqI) (auto simp: bit_pmpcfg_byte)
next
  case False
  then show ?thesis
    by (simp add: pmpcfg_byte_def write_pmpcfg_def Let_def)
qed

text \<open>An entry is untouched between two register files: its configuration, its address register,
  and, if it is a locked top-of-range entry, the address register below it.\<close>

definition pmp_entry_kept :: "csr_file \<Rightarrow> csr_file \<Rightarrow> nat \<Rightarrow> bool" where
  "pmp_entry_kept c c' i \<longleftrightarrow> pmpcfg_byte c' i = pmpcfg_byte c i \<and> pmpaddr c' ! i = pmpaddr c ! i
     \<and> (pmp_tor c i \<and> i > 0 \<longrightarrow> pmpaddr c' ! (i - 1) = pmpaddr c ! (i - 1))"

lemma csr_effect_pmp_kept:
  assumes "csr_effect c p c'" and "csr_wf c" and "i < PMP_COUNT" and "pmp_locked c i"
  shows "pmp_entry_kept c c' i"
  using assms(1)
proof cases
  case (pmpcfg k v)
  then show ?thesis
    using pmpcfg_byte_write [OF assms(2) _ assms(3,4)] by (simp add: pmp_entry_kept_def)
next
  case (pmpaddr j v)
  have "j \<noteq> i" and "pmp_tor c i \<and> i > 0 \<longrightarrow> j \<noteq> i - 1"
    using pmpaddr assms(3,4)
    by (auto simp: pmpaddr_locked_def pmp_locked_def pmp_tor_def Let_def split: if_splits)
  with pmpaddr show ?thesis
    by (auto simp: pmp_entry_kept_def pmpcfg_byte_def)
qed (simp_all add: pmp_entry_kept_def pmpcfg_byte_def)

section \<open>What supervisor and user writes can reach\<close>

text \<open>
  The register file with everything erased that supervisor-level software may change: the
  supervisor registers, the floating-point flags, the \<open>sstatus\<close> bits of \<open>mstatus\<close> and the
  delegated interrupt bits.
\<close>

definition machine_part :: "csr_file \<Rightarrow> csr_file" where
  "machine_part c = c\<lparr>mstatus := mstatus c AND NOT SSTATUS_WRITE_MASK,
     mie := mie c AND NOT (mideleg c AND SIP_MASK), mip := mip c AND NOT (mideleg c AND SIP_MASK),
     satp := 0, sscratch := 0, sepc := 0, scause := 0, stval := 0, stvec := 0, scounteren := 0,
     fflags := 0, frm := 0\<rparr>"

definition non_fp_part :: "csr_file \<Rightarrow> csr_file" where
  "non_fp_part c = c\<lparr>fflags := 0, frm := 0\<rparr>"

lemma csr_effect_machine_part:
  assumes "csr_effect c p c'" and "p \<noteq> Machine"
  shows "machine_part c' = machine_part c"
  using assms by cases (simp_all add: machine_part_def)

lemma csr_effect_user:
  assumes "csr_effect c User c'"
  shows "non_fp_part c' = non_fp_part c"
  using assms by cases (simp_all add: non_fp_part_def)

section \<open>Sequences of writes\<close>

text \<open>Each write carries its register number, value and privilege level; a write that raises an
  exception leaves the file as it was.\<close>

type_synonym csr_op = "u16 \<times> u64 \<times> priv_level"

fun csr_step :: "riscv_cpu_profile \<Rightarrow> csr_file \<Rightarrow> csr_op \<Rightarrow> csr_file" where
  "csr_step prof c (addr, val, p) =
     (case write_for_profile c addr val p prof of Inr c' \<Rightarrow> c' | Inl _ \<Rightarrow> c)"

definition csr_run :: "riscv_cpu_profile \<Rightarrow> csr_file \<Rightarrow> csr_op list \<Rightarrow> csr_file" where
  "csr_run prof = foldl (csr_step prof)"

lemma write_for_profile_effect:
  assumes "write_for_profile c addr val p prof = Ok c'"
  shows "csr_effect c p c'"
  using assms csr_write_effect
  by (auto simp: write_for_profile_def res_simps split: sum.splits intro: csr_effect.same)

lemma csr_step_effect: "csr_effect c p (csr_step prof c (addr, val, p))"
  by (auto split: sum.splits dest: write_for_profile_effect intro: csr_effect.same)

lemma csr_run_Nil [simp]: "csr_run prof c [] = c"
  by (simp add: csr_run_def)

lemma csr_run_Cons [simp]: "csr_run prof c (w # ws) = csr_run prof (csr_step prof c w) ws"
  by (simp add: csr_run_def)

lemma csr_step_wf: "csr_wf c \<Longrightarrow> csr_wf (csr_step prof c w)"
  by (metis csr_effect_wf csr_step_effect prod_cases3)

lemma csr_run_wf: "csr_wf c \<Longrightarrow> csr_wf (csr_run prof c ws)"
  by (induction ws arbitrary: c) (simp_all add: csr_step_wf)

lemma csr_run_machine_part:
  "list_all (\<lambda>(addr, val, p). p \<noteq> Machine) ws \<Longrightarrow>
     machine_part (csr_run prof c ws) = machine_part c"
proof (induction ws arbitrary: c)
  case (Cons w ws)
  then show ?case
    by (cases w) (simp add: csr_effect_machine_part [OF csr_step_effect] del: csr_step.simps)
qed simp

lemma pmp_entry_kept_locked:
  assumes "pmp_entry_kept c c' i"
  shows "pmp_locked c' i = pmp_locked c i" "pmp_tor c' i = pmp_tor c i"
  using assms by (simp_all add: pmp_entry_kept_def pmp_locked_def pmp_tor_def)

lemma pmp_entry_kept_trans:
  assumes "pmp_entry_kept c c' i" and "pmp_entry_kept c' c'' i"
  shows "pmp_entry_kept c c'' i"
  using assms pmp_entry_kept_locked [OF assms(1)] by (simp add: pmp_entry_kept_def)

lemma csr_run_pmp_kept:
  "csr_wf c \<Longrightarrow> i < PMP_COUNT \<Longrightarrow> pmp_locked c i \<Longrightarrow> pmp_entry_kept c (csr_run prof c ws) i"
proof (induction ws arbitrary: c)
  case Nil
  then show ?case by (simp add: pmp_entry_kept_def)
next
  case (Cons w ws)
  obtain addr val p where w: "w = (addr, val, p)" by (cases w)
  have kept: "pmp_entry_kept c (csr_step prof c w) i"
    unfolding w by (rule csr_effect_pmp_kept [OF csr_step_effect Cons.prems])
  then have "pmp_locked (csr_step prof c w) i"
    using Cons.prems(3) pmp_entry_kept_locked by blast
  from pmp_entry_kept_trans [OF kept Cons.IH [OF csr_step_wf [OF Cons.prems(1)] Cons.prems(2) this]]
  show ?case by simp
qed

section \<open>Writing back what was read\<close>

definition read_only :: "u16 \<Rightarrow> bool" where
  "read_only addr \<longleftrightarrow> drop_bit 10 addr AND 0x3 = 0x3"

lemma sd_bit_cases: "sd_bit c = 0 \<or> sd_bit c = MSTATUS_SD"
  by (simp add: sd_bit_def Let_def)

lemma sd_bit_iff: "bit (sd_bit c) n \<Longrightarrow> n = 63"
  using sd_bit_cases [of c] by (auto simp: csr_bits)

lemma mstatus_write_back:
  "mstatus c AND NOT MSTATUS_WRITE_MASK
     OR (mstatus c OR sd_bit c OR MSTATUS_UXL_64 OR MSTATUS_SXL_64) AND MSTATUS_WRITE_MASK = mstatus c"
  by (rule merge_same, rule bit_eqI)
     (auto simp: bit_and_iff bit_or_iff csr_bits MSTATUS_WRITE_MASK_def dest: sd_bit_iff)

lemma sstatus_write_back:
  "mstatus c AND NOT SSTATUS_WRITE_MASK
     OR ((mstatus c OR sd_bit c OR MSTATUS_UXL_64) AND SSTATUS_MASK) AND SSTATUS_WRITE_MASK = mstatus c"
  by (rule merge_same, rule bit_eqI)
     (auto simp: bit_and_iff bit_or_iff csr_bits SSTATUS_WRITE_MASK_def SSTATUS_MASK_def dest: sd_bit_iff)

lemma deleg_write_back:
  "x AND NOT (d AND m) OR (x AND d AND m) AND (d AND m) = x" for x :: u64
  by (rule bit_eqI) (auto simp: bit_simps)

lemma and_self_merge: "(x AND NOT m) OR (x AND m) = x" for x :: u64
  by (rule bit_eqI) (auto simp: bit_simps)

lemma fcsr_write_back:
  assumes "within x FFLAGS_MASK" and "within y FRM_MASK"
  shows "(x OR push_bit 5 y AND push_bit 5 FRM_MASK) AND FFLAGS_MASK = x"
    and "(drop_bit 5 x OR drop_bit 5 (push_bit 5 y) AND drop_bit 5 (push_bit 5 FRM_MASK)) AND FRM_MASK = y"
proof -
  have masks: "FFLAGS_MASK = mask 5" "FRM_MASK = mask 3"
    by (simp_all add: FFLAGS_MASK_def FRM_MASK_def mask_eq_exp_minus_1)
  have x: "n < 5" if "bit x n" for n
    using assms(1) that unfolding masks within_iff by (simp add: bit_mask_iff)
  have y: "n < 3" if "bit y n" for n
    using assms(2) that unfolding masks within_iff by (simp add: bit_mask_iff)
  show "(x OR push_bit 5 y AND push_bit 5 FRM_MASK) AND FFLAGS_MASK = x"
    unfolding masks
    by (rule bit_eqI) (auto simp: bit_and_iff bit_or_iff bit_push_bit_iff bit_mask_iff dest: x y)
  show "(drop_bit 5 x OR drop_bit 5 (push_bit 5 y) AND drop_bit 5 (push_bit 5 FRM_MASK)) AND FRM_MASK = y"
    unfolding masks
    by (rule bit_eqI)
       (auto simp: bit_and_iff bit_or_iff bit_push_bit_iff bit_drop_bit_eq bit_mask_iff dest: x y)
qed

lemma pmpcfg_write_back:
  assumes "csr_wf c" and "k < 2"
  shows "write_pmpcfg c k (pmpcfg c ! k) = c"
proof -
  have len: "k < length (pmpcfg c)"
    using assms by (simp add: csr_wf_def)
  have "pmpcfg (write_pmpcfg c k (pmpcfg c ! k)) ! k = pmpcfg c ! k"
    by (rule bit_eqI) (simp add: bit_write_pmpcfg [OF len])
  then show ?thesis
    using len by (simp add: write_pmpcfg_def Let_def)
qed

lemmas write_back_simps = mstatus_write_back [simplified] sstatus_write_back [simplified]
  deleg_write_back [simplified] and_self_merge within_absorb fcsr_write_back

lemma csr_write_back:
  assumes "csr_read c addr p = Ok v" and "csr_wf c" and "\<not> read_only addr"
  shows "csr_write c addr v p = Ok c"
proof -
  have even: "mepc c AND NOT 1 = mepc c" "sepc c AND NOT 1 = sepc c"
    using assms(2) by (simp_all add: csr_wf_def within_absorb)
  note wb = write_back_simps even [simplified]
    pmpcfg_write_back [OF assms(2), of 0, simplified] pmpcfg_write_back [OF assms(2), of 1, simplified]
  have rw: "\<not> drop_bit 10 addr AND 0x3 = 0x3"
    using assms(3) by (simp add: read_only_def)
  have wf: "within (medeleg c) MEDELEG_MASK" "within (mideleg c) SIP_MASK" "within (mcounteren c) 0x7"
    "within (mcountinhibit c) 0x7" "within (scounteren c) 0x7" "within (fflags c) FFLAGS_MASK"
    "within (frm c) FRM_MASK"
    "drop_bit 60 (satp c) AND 0xF = 0 \<or> drop_bit 60 (satp c) AND 0xF \<ge> 8 \<and> drop_bit 60 (satp c) AND 0xF \<le> max_satp_mode c"
    using assms(2) by (simp_all add: csr_wf_def Let_def)
  show ?thesis
    using assms(1) rw unfolding csr_read_def
    by (auto split: if_split_asm) (insert wf, simp_all add: csr_write_def Let_def PMP_COUNT_def wb)
qed

lemma csr_write_readable:
  assumes "csr_write c addr v p = Ok c'"
  shows "\<exists>u. csr_read c addr p = Ok u"
  using assms unfolding csr_write_def Let_def
  by (auto split: if_split_asm) (simp_all add: csr_read_def PMP_COUNT_def)

section \<open>Properties\<close>

text \<open>
  C5: Starting from the reset register file, no sequence of CSR writes, at any privilege level
  and for any CPU profile, breaks the WARL constraints: the writable masks of \<open>mstatus\<close>,
  \<open>medeleg\<close>, \<open>mideleg\<close> and the counter enables, even exception program counters, a supported
  translation mode in \<open>satp\<close>, in-range floating-point fields, and the sizes of the PMP arrays.
\<close>
theorem csr_run_well_formed: "csr_wf (csr_run prof csr_new ws)"
  by (rule csr_run_wf [OF csr_wf_new])

text \<open>
  C7: Software below machine level cannot change machine state through CSR writes: any sequence
  of supervisor and user writes leaves every machine register, the PMP registers, the
  machine-only bits of \<open>mstatus\<close> and the non-delegated bits of \<open>mie\<close> and \<open>mip\<close> as they were.
\<close>
theorem supervisor_writes_confined:
  assumes "list_all (\<lambda>(addr, val, p). p \<noteq> Machine) ws"
  shows "machine_part (csr_run prof c ws) = machine_part c"
  by (rule csr_run_machine_part [OF assms])

theorem supervisor_writes_confined_witness:
  "machine_part (csr_run generic_rv64 csr_new
     [(CSR_MTVEC, 0x1000, Supervisor), (CSR_SSTATUS, 0x2, Supervisor), (CSR_FCSR, 0xff, User)]) =
   machine_part csr_new"
  by (rule supervisor_writes_confined) simp

text \<open>
  A user-level write that is accepted changes the floating-point flags and rounding mode
  at most.
\<close>
theorem user_write_fp_only:
  assumes "write_for_profile c addr val User prof = Ok c'"
  shows "c' = c\<lparr>fflags := fflags c', frm := frm c'\<rparr>"
proof -
  have "non_fp_part c' = non_fp_part c"
    by (rule csr_effect_user [OF write_for_profile_effect [OF assms]])
  then have "(non_fp_part c')\<lparr>fflags := fflags c', frm := frm c'\<rparr> =
      (non_fp_part c)\<lparr>fflags := fflags c', frm := frm c'\<rparr>"
    by simp
  then show ?thesis
    by (simp add: non_fp_part_def)
qed

theorem user_write_fp_only_witness:
  "\<exists>c'. write_for_profile csr_new CSR_FCSR 0xff User generic_rv64 = Ok c'
      \<and> c' = csr_new\<lparr>fflags := fflags c', frm := frm c'\<rparr> \<and> fflags c' = 0x1f"
proof -
  have "write_for_profile csr_new CSR_FCSR 0xff User generic_rv64 =
      Ok (csr_new\<lparr>fflags := 0x1f, frm := 0x7\<rparr>)"
    by (simp add: write_for_profile_def csr_write_def required_def FFLAGS_MASK_def FRM_MASK_def)
  from user_write_fp_only [OF this] this show ?thesis by auto
qed

text \<open>
  C6: A locked PMP entry stays as it is under every sequence of CSR writes, machine level
  included: its configuration byte, its address register and, for a top-of-range entry, the
  address register below it.
\<close>
theorem locked_pmp_entry_immutable:
  assumes "csr_wf c" and "i < PMP_COUNT" and "pmp_locked c i"
  shows "pmp_locked (csr_run prof c ws) i \<and> pmp_entry_kept c (csr_run prof c ws) i"
  using csr_run_pmp_kept [OF assms] pmp_entry_kept_locked assms(3) by blast

theorem locked_pmp_entry_immutable_witness:
  "pmp_entry_kept (csr_new\<lparr>pmpcfg := [0x8f00, 0, 0, 0]\<rparr>) (csr_run generic_rv64
     (csr_new\<lparr>pmpcfg := [0x8f00, 0, 0, 0]\<rparr>)
     [(CSR_PMPCFG0, 0, Machine), (CSR_PMPADDR0, 7, Machine), (0x3B1, 9, Machine)]) 1"
proof -
  have "csr_wf (csr_new\<lparr>pmpcfg := [0x8f00, 0, 0, 0]\<rparr>)"
    using csr_wf_new by (simp add: csr_wf_def)
  moreover have "pmp_locked (csr_new\<lparr>pmpcfg := [0x8f00, 0, 0, 0]\<rparr>) 1"
    by (simp add: pmp_locked_def pmpcfg_byte_def PMPCFG_L_def)
  ultimately show ?thesis
    using locked_pmp_entry_immutable [of "csr_new\<lparr>pmpcfg := [0x8f00, 0, 0, 0]\<rparr>" 1] PMP_COUNT_def
    by (metis one_less_numeral_iff semiring_norm(76))
qed

text \<open>
  C32: Reading a register and writing the value back is accepted and changes nothing, for every
  register that is not read-only, at every privilege level that can read it, the supervisor
  views of \<open>mstatus\<close>, \<open>mie\<close> and \<open>mip\<close> included.
\<close>
theorem read_write_back_identity:
  assumes "csr_wf c" and "\<not> read_only addr" and "read_for_profile c addr p prof = Ok v"
  shows "write_for_profile c addr v p prof = Ok c"
proof (cases "csr_read c addr p")
  case (Inr u)
  then have "csr_read c addr p = Ok v"
    using assms(3) by (simp add: read_for_profile_def)
  from csr_write_back [OF this assms(1,2)] show ?thesis
    by (simp add: write_for_profile_def)
next
  case (Inl e)
  then have "\<exists>e'. csr_write c addr v p = Err e'"
    using csr_write_readable [of c addr v p] by (cases "csr_write c addr v p") auto
  moreover have "th_read addr p prof = Ok v"
    using assms(3) Inl by (simp add: read_for_profile_def)
  ultimately show ?thesis
    by (auto simp: write_for_profile_def th_write_def)
qed

theorem read_write_back_identity_witness:
  "write_for_profile csr_new CSR_SSTATUS 0x200002000 Supervisor generic_rv64 = Ok csr_new"
proof (rule read_write_back_identity [OF csr_wf_new])
  show "\<not> read_only CSR_SSTATUS"
    by (simp add: read_only_def)
  show "read_for_profile csr_new CSR_SSTATUS Supervisor generic_rv64 = Ok 0x200002000"
    by (simp add: read_for_profile_def csr_read_def required_def csr_new_def sd_bit_def SSTATUS_MASK_def
        MSTATUS_SIE_def MSTATUS_SPIE_def MSTATUS_SPP_def MSTATUS_FS_def MSTATUS_XS_def
        MSTATUS_SUM_def MSTATUS_MXR_def MSTATUS_UXL_def MSTATUS_SD_def MSTATUS_UXL_64_def)
qed



end
