(* ===== verification/Riscv_Pmp.thy ===== *)
theory Riscv_Pmp
  imports Riscv_Csr
begin

text \<open>
  Physical memory protection (\<open>guest/riscv/src/riscv/pmp.rs\<close>): the sixteen entries, their
  synchronisation from the CSR file, the four address-matching modes and the access check. The
  lemmas relate the check to a reference reading of the entries as sets of byte addresses, and
  lift the immutability of locked CSR entries to the decisions of the unit.
\<close>

section \<open>Entries\<close>

definition PMP_R :: u8 where "PMP_R = push_bit 0 1"
definition PMP_W :: u8 where "PMP_W = push_bit 1 1"
definition PMP_X :: u8 where "PMP_X = push_bit 2 1"
definition PMP_A_MASK :: u8 where "PMP_A_MASK = push_bit 3 0x3"
definition PMP_L :: u8 where "PMP_L = push_bit 7 1"

datatype pmp_addr_match = Off | Tor | Na4 | Napot

text \<open>The field has two bits, so the last arm of the match is the mode 3.\<close>

definition from_cfg :: "u8 \<Rightarrow> pmp_addr_match" where
  "from_cfg cf =
     (let a = drop_bit 3 (cf AND PMP_A_MASK)
      in if a = 0 then Off else if a = 1 then Tor else if a = 2 then Na4 else Napot)"

record pmp_entry =
  pe_cfg :: u8
  pe_addr :: u64

type_synonym pmp = "pmp_entry list"

definition pmp_new :: pmp where
  "pmp_new = replicate PMP_COUNT \<lparr>pe_cfg = 0, pe_addr = 0\<rparr>"

text \<open>The accessors panic on an index out of range, here \<open>None\<close>.\<close>

definition pmp_set_cfg :: "pmp \<Rightarrow> nat \<Rightarrow> u8 \<Rightarrow> pmp option" where
  "pmp_set_cfg es idx cf =
     (if idx < PMP_COUNT then Some (es[idx := (es ! idx)\<lparr>pe_cfg := cf\<rparr>]) else None)"

definition pmp_set_addr :: "pmp \<Rightarrow> nat \<Rightarrow> u64 \<Rightarrow> pmp option" where
  "pmp_set_addr es idx a =
     (if idx < PMP_COUNT then Some (es[idx := (es ! idx)\<lparr>pe_addr := a\<rparr>]) else None)"

definition pmp_get_cfg :: "pmp \<Rightarrow> nat \<Rightarrow> u8 option" where
  "pmp_get_cfg es idx = (if idx < PMP_COUNT then Some (pe_cfg (es ! idx)) else None)"

definition pmp_get_addr :: "pmp \<Rightarrow> nat \<Rightarrow> u64 option" where
  "pmp_get_addr es idx = (if idx < PMP_COUNT then Some (pe_addr (es ! idx)) else None)"

text \<open>Every entry is overwritten, so the previous entries only fix the length.\<close>

definition sync_from_csr :: "pmp \<Rightarrow> u64 list \<Rightarrow> u64 list \<Rightarrow> pmp" where
  "sync_from_csr es cfgs addrs =
     map (\<lambda>(i, entry, a).
        let cfg_idx = i div 8; cfg_shift = (i mod 8) * 8;
            raw = (if cfg_idx < 2 then cfgs ! cfg_idx else 0)
        in entry\<lparr>pe_cfg := ucast (drop_bit cfg_shift raw AND 0xFF), pe_addr := a\<rparr>)
      (zip [0..<length es] (zip es addrs))"

section \<open>Address matching\<close>

definition trailing_zeros :: "u64 \<Rightarrow> nat" where
  "trailing_zeros x = length (takeWhile (\<lambda>i. \<not> bit x i) [0..<64])"

definition napot_range :: "u64 \<Rightarrow> u64 \<times> u64" where
  "napot_range a =
     (let g = trailing_zeros (NOT a)
      in if g \<ge> 61 then (0, - 1)
         else let sz = push_bit (g + 3) 1;
                  mask = sz - 1;
                  base = push_bit 2 a AND NOT mask
              in (base, base + sz))"

definition pmp_range :: "pmp \<Rightarrow> nat \<Rightarrow> u64 \<times> u64" where
  "pmp_range es i =
     (let entry = es ! i
      in case from_cfg (pe_cfg entry) of
           Napot \<Rightarrow> napot_range (pe_addr entry)
         | Na4 \<Rightarrow> (let b = push_bit 2 (pe_addr entry) in (b, b + 4))
         | Tor \<Rightarrow> (let prev = (if i = 0 then 0 else push_bit 2 (pe_addr (es ! (i - 1))))
                   in (prev, push_bit 2 (pe_addr entry)))
         | Off \<Rightarrow> (0, 0))"

definition check_permission :: "pmp_entry \<Rightarrow> access_type \<Rightarrow> priv_level \<Rightarrow> exception + unit" where
  "check_permission entry access p =
     (let locked = pe_cfg entry AND PMP_L \<noteq> 0
      in if p = Machine \<and> \<not> locked then Ok ()
         else let allowed = (case access of
                    Read \<Rightarrow> pe_cfg entry AND PMP_R \<noteq> 0
                  | Write \<Rightarrow> pe_cfg entry AND PMP_W \<noteq> 0
                  | Execute \<Rightarrow> pe_cfg entry AND PMP_X \<noteq> 0)
              in if allowed then Ok () else Err (access_fault access))"

text \<open>The loop over the entries; the list holds the indices still to visit.\<close>

fun check_entries ::
    "pmp \<Rightarrow> u64 \<Rightarrow> u64 \<Rightarrow> access_type \<Rightarrow> priv_level \<Rightarrow> nat list \<Rightarrow> exception + unit" where
  "check_entries es addr sz access p [] =
     (if p = Machine then Ok () else Err (access_fault access))"
| "check_entries es addr sz access p (i # is) =
     (if from_cfg (pe_cfg (es ! i)) = Off then check_entries es addr sz access p is
      else let (base, stop) = pmp_range es i
           in if addr \<ge> base \<and> addr + sz \<le> stop then check_permission (es ! i) access p
              else check_entries es addr sz access p is)"

definition check_access ::
    "pmp \<Rightarrow> u64 \<Rightarrow> u64 \<Rightarrow> access_type \<Rightarrow> priv_level \<Rightarrow> exception + unit" where
  "check_access es addr sz access p =
     (if p = Machine \<and> \<not> (\<exists>e\<in>set es. pe_cfg e AND PMP_L \<noteq> 0) then Ok ()
      else check_entries es addr sz access p [0..<PMP_COUNT])"

section \<open>Entries as sets of byte addresses\<close>

lemma pmp_bits [mask_simps]:
  "cf AND PMP_R = 0 \<longleftrightarrow> \<not> bit cf 0" "cf AND PMP_W = 0 \<longleftrightarrow> \<not> bit cf 1"
  "cf AND PMP_X = 0 \<longleftrightarrow> \<not> bit cf 2" "cf AND PMP_L = 0 \<longleftrightarrow> \<not> bit cf 7"
  unfolding PMP_R_def PMP_W_def PMP_X_def PMP_L_def and_push_bit_1 by (rule refl)+

lemma trailing_zeros_bits:
  assumes "trailing_zeros x < 64"
  shows "bit x (trailing_zeros x)" and "i < trailing_zeros x \<Longrightarrow> \<not> bit x i"
proof -
  let ?P = "\<lambda>i. \<not> bit x i"
  have "length (takeWhile ?P [0..<64]) < length [0..<64]"
    using assms by (simp add: trailing_zeros_def)
  from nth_length_takeWhile [OF this] show "bit x (trailing_zeros x)"
    using assms by (simp add: trailing_zeros_def)
  show "\<not> bit x i" if "i < trailing_zeros x"
  proof -
    have "takeWhile ?P [0..<64] ! i = i"
      using that assms unfolding trailing_zeros_def by (subst takeWhile_nth) simp_all
    moreover have "takeWhile ?P [0..<64] ! i \<in> set (takeWhile ?P [0..<64])"
      using that by (simp add: trailing_zeros_def)
    ultimately show ?thesis
      using set_takeWhileD by fastforce
  qed
qed

lemma trailing_zeros_le:
  assumes "bit x n" and "n < 64"
  shows "trailing_zeros x \<le> n"
proof (rule ccontr)
  assume "\<not> trailing_zeros x \<le> n"
  then have "n < length (takeWhile (\<lambda>i. \<not> bit x i) [0..<64])"
    by (simp add: trailing_zeros_def)
  then have "\<not> bit x ([0..<64] ! n)"
    by (metis nth_mem set_takeWhileD takeWhile_nth)
  with assms show False by simp
qed

lemma not_bit_ge: "unat a < 2 ^ n \<Longrightarrow> n \<le> i \<Longrightarrow> \<not> bit a i" for a :: u64
proof
  assume "unat a < 2 ^ n" "n \<le> i" "bit a i"
  then have "bit (unat a) i"
    by (simp add: bit_unsigned_iff)
  moreover have "unat a < 2 ^ i"
    using \<open>unat a < 2 ^ n\<close> \<open>n \<le> i\<close> by (meson less_le_trans power_increasing one_le_numeral)
  ultimately show False
    by (simp add: bit_iff_odd)
qed

text \<open>Clearing the low \<open>n\<close> bits rounds down to a multiple of \<open>2 ^ n\<close>.\<close>

lemma unat_clear_low:
  assumes "n < 64"
  shows "unat (x AND NOT (push_bit n 1 - 1 :: u64)) = unat x div 2 ^ n * 2 ^ n"
proof -
  have m: "push_bit n 1 - 1 = (mask n :: u64)"
    by (simp add: mask_eq_exp_minus_1 push_bit_eq_mult)
  have lt: "unat x < 2 ^ 64"
    using unsigned_less [of x, where ?'a = nat] by simp
  have "x AND NOT (mask n) = push_bit n (drop_bit n x)"
    by (rule bit_eqI) (auto simp: bit_simps)
  then have "unat (x AND NOT (mask n)) = unat (push_bit n (drop_bit n x))"
    by simp
  also have "\<dots> = take_bit 64 (push_bit n (drop_bit n (unat x)))"
    by (simp add: unsigned_push_bit_eq unsigned_drop_bit_eq take_bit_nat_eq_self [OF lt])
  also have "push_bit n (drop_bit n (unat x)) = unat x div 2 ^ n * 2 ^ n"
    by (simp add: push_bit_eq_mult drop_bit_eq_div)
  also have "take_bit 64 (unat x div 2 ^ n * 2 ^ n) = unat x div 2 ^ n * 2 ^ n"
  proof -
    have "unat x div 2 ^ n * 2 ^ n < 2 ^ 64"
      using lt by (meson div_times_less_eq_dividend le_less_trans)
    then show ?thesis
      by (rule take_bit_nat_eq_self)
  qed
  finally show ?thesis
    unfolding m .
qed

lemma unat_exp: "unat (2 ^ n :: u64) = 2 ^ n" if "n < 64"
proof -
  have "unat (of_nat (2 ^ n) :: u64) = 2 ^ n mod 2 ^ 64"
    unfolding unat_of_nat by simp
  also have "\<dots> = 2 ^ n"
    using that by (intro mod_less power_strict_increasing) simp_all
  finally show ?thesis by simp
qed

lemma unat_shift2:
  assumes "unat a < 2 ^ 54"
  shows "unat (push_bit 2 a :: u64) = 4 * unat a"
  using assms by (simp add: push_bit_eq_mult unat_word_ariths)

text \<open>The number of trailing ones, and the bytes an entry covers in the four modes.\<close>

definition trailing_ones :: "u64 \<Rightarrow> nat" where
  "trailing_ones a = trailing_zeros (NOT a)"

definition napot_bytes :: "u64 \<Rightarrow> nat set" where
  "napot_bytes a =
     {b. b div 2 ^ (trailing_ones a + 3) = unat a div 2 ^ (trailing_ones a + 1)}"

definition pmp_bytes :: "pmp \<Rightarrow> nat \<Rightarrow> nat set" where
  "pmp_bytes es i =
     (let a = pe_addr (es ! i)
      in case from_cfg (pe_cfg (es ! i)) of
           Off \<Rightarrow> {}
         | Tor \<Rightarrow> {(if i = 0 then 0 else 4 * unat (pe_addr (es ! (i - 1)))) ..< 4 * unat a}
         | Na4 \<Rightarrow> {4 * unat a ..< 4 * unat a + 4}
         | Napot \<Rightarrow> napot_bytes a)"

text \<open>Address registers hold bits 55:2 of a physical address.\<close>

definition pmp_addrs_ok :: "pmp \<Rightarrow> bool" where
  "pmp_addrs_ok es \<longleftrightarrow> (\<forall>e\<in>set es. unat (pe_addr e) < 2 ^ 54)"

lemma trailing_ones_le:
  assumes "unat a < 2 ^ 54"
  shows "trailing_ones a \<le> 54"
  using trailing_zeros_le [of "NOT a" 54] not_bit_ge [OF assms, of 54]
  by (simp add: trailing_ones_def bit_not_iff)

lemma interval_div:
  "{b. b div k = q} = {q * k ..< q * k + k}" if "0 < k" for k q :: nat
  using that
  by (auto simp: mult.commute intro!: div_nat_eqI)
     (metis add.commute dividend_less_div_times mult.commute)

lemma napot_range_bytes:
  assumes "unat a < 2 ^ 54"
  shows "napot_bytes a = {unat (fst (napot_range a)) ..< unat (snd (napot_range a))}"
    and "unat (snd (napot_range a)) = unat (fst (napot_range a)) + 2 ^ (trailing_ones a + 3)"
proof -
  let ?g = "trailing_ones a" let ?n = "trailing_ones a + 3"
  let ?base = "push_bit 2 a AND NOT (push_bit ?n 1 - 1)"
  have g: "?g \<le> 54"
    by (rule trailing_ones_le [OF assms])
  then have range: "napot_range a = (?base, ?base + push_bit ?n 1)"
    by (simp add: napot_range_def trailing_ones_def Let_def)
  have base: "unat ?base = unat a div 2 ^ (?g + 1) * 2 ^ ?n"
    using g unat_clear_low [of ?n "push_bit 2 a"] unat_shift2 [OF assms]
      div_mult_mult1 [of 4 "unat a" "2 ^ (?g + 1)"]
    by (simp add: power_add)
  have "unat ?base \<le> 4 * unat a"
    using g unat_clear_low [of ?n "push_bit 2 a"] unat_shift2 [OF assms] by simp
  moreover have "(2::nat) ^ ?n \<le> 2 ^ 57"
    using g by (intro power_increasing) simp_all
  moreover have size: "unat (push_bit ?n 1 :: u64) = 2 ^ ?n"
    using g by (simp add: unat_exp)
  ultimately have no_wrap: "unat (?base + push_bit ?n 1) = unat ?base + 2 ^ ?n"
    using assms by (simp add: unat_word_ariths)
  then show "unat (snd (napot_range a)) = unat (fst (napot_range a)) + 2 ^ ?n"
    by (simp add: range)
  show "napot_bytes a = {unat (fst (napot_range a)) ..< unat (snd (napot_range a))}"
    unfolding napot_bytes_def interval_div [OF zero_less_power [OF zero_less_numeral]]
    using no_wrap base by (simp add: range)
qed

lemma pmp_range_bytes:
  assumes "pmp_addrs_ok es" and "i < length es" and "from_cfg (pe_cfg (es ! i)) \<noteq> Off"
  shows "pmp_bytes es i = {unat (fst (pmp_range es i)) ..< unat (snd (pmp_range es i))}"
proof -
  have ok: "unat (pe_addr (es ! j)) < 2 ^ 54" if "j \<le> i" for j
    using assms(1,2) that by (simp add: pmp_addrs_ok_def)
  have shift: "unat (push_bit 2 (pe_addr (es ! j))) = 4 * unat (pe_addr (es ! j))" if "j \<le> i" for j
    by (rule unat_shift2 [OF ok [OF that]])
  have na4: "unat (push_bit 2 (pe_addr (es ! i)) + 4) = 4 * unat (pe_addr (es ! i)) + 4"
    using ok [of i] shift [of i] by (simp add: unat_word_ariths)
  show ?thesis
    using assms(3) shift napot_range_bytes(1) [OF ok [of i]] na4
    by (cases "from_cfg (pe_cfg (es ! i))") (auto simp: pmp_bytes_def pmp_range_def Let_def)
qed

section \<open>The access check against its specification\<close>

text \<open>
  The entry that decides an access is the first one that covers all its bytes. It lets the
  access pass if its permission bit is set, or if the hart is in machine mode and the entry is
  not locked; with no such entry only machine mode passes.
\<close>

definition access_bytes :: "u64 \<Rightarrow> u64 \<Rightarrow> nat set" where
  "access_bytes addr sz = {unat addr ..< unat addr + unat sz}"

definition deciding_entry :: "pmp \<Rightarrow> u64 \<Rightarrow> u64 \<Rightarrow> nat option" where
  "deciding_entry es addr sz = find (\<lambda>i. access_bytes addr sz \<subseteq> pmp_bytes es i) [0..<PMP_COUNT]"

fun perm_bit :: "access_type \<Rightarrow> nat" where
  "perm_bit Read = 0"
| "perm_bit Write = 1"
| "perm_bit Execute = 2"

definition pmp_allows :: "pmp \<Rightarrow> u64 \<Rightarrow> u64 \<Rightarrow> access_type \<Rightarrow> priv_level \<Rightarrow> bool" where
  "pmp_allows es addr sz access p =
     (case deciding_entry es addr sz of
        None \<Rightarrow> p = Machine
      | Some i \<Rightarrow> p = Machine \<and> \<not> bit (pe_cfg (es ! i)) 7 \<or> bit (pe_cfg (es ! i)) (perm_bit access))"

lemma check_permission_iff:
  "check_permission e access p =
     (if p = Machine \<and> \<not> bit (pe_cfg e) 7 \<or> bit (pe_cfg e) (perm_bit access) then Ok ()
      else Err (access_fault access))"
  by (cases access) (auto simp: check_permission_def mask_simps)

text \<open>The interval test of the loop is the inclusion of byte sets.\<close>

lemma match_iff_bytes:
  assumes "pmp_addrs_ok es" and "i < length es" and "0 < unat sz" and "unat addr + unat sz < 2 ^ 64"
  shows "access_bytes addr sz \<subseteq> pmp_bytes es i \<longleftrightarrow> from_cfg (pe_cfg (es ! i)) \<noteq> Off
     \<and> addr \<ge> fst (pmp_range es i) \<and> addr + sz \<le> snd (pmp_range es i)"
proof (cases "from_cfg (pe_cfg (es ! i)) = Off")
  case True
  then show ?thesis
    using assms(3) by (simp add: pmp_bytes_def access_bytes_def)
next
  case False
  have "unat (addr + sz) = unat addr + unat sz"
    using assms(4) by (simp add: unat_word_ariths)
  with False pmp_range_bytes [OF assms(1,2) False] assms(3) show ?thesis
    by (auto simp: access_bytes_def word_le_nat_alt atLeastLessThan_subset_iff)
qed

lemma check_entries_spec:
  assumes "pmp_addrs_ok es" and "0 < unat sz" and "unat addr + unat sz < 2 ^ 64"
    and "\<forall>i\<in>set is. i < length es"
  shows "check_entries es addr sz access p is =
     (case find (\<lambda>i. access_bytes addr sz \<subseteq> pmp_bytes es i) is of
        None \<Rightarrow> if p = Machine then Ok () else Err (access_fault access)
      | Some i \<Rightarrow> check_permission (es ! i) access p)"
  using assms(4)
proof (induction "is")
  case (Cons i "is")
  then have i: "i < length es" by simp
  show ?case
    using Cons match_iff_bytes [OF assms(1) i assms(2,3)]
    by (cases "pmp_range es i") auto
qed simp

lemma check_access_spec:
  assumes "length es = PMP_COUNT" and "pmp_addrs_ok es" and "0 < unat sz"
    and "unat addr + unat sz < 2 ^ 64"
  shows "check_access es addr sz access p =
     (if pmp_allows es addr sz access p then Ok () else Err (access_fault access))"
proof (cases "p = Machine \<and> \<not> (\<exists>e\<in>set es. pe_cfg e AND PMP_L \<noteq> 0)")
  case True
  then have "\<not> bit (pe_cfg (es ! i)) 7" if "i < length es" for i
    using that nth_mem by (simp add: mask_simps)
  moreover have "i < length es" if "deciding_entry es addr sz = Some i" for i
    using that assms(1) by (auto simp: deciding_entry_def find_Some_iff)
  ultimately show ?thesis
    using True by (auto simp: check_access_def pmp_allows_def split: option.splits)
next
  case False
  have "\<forall>i\<in>set [0..<PMP_COUNT]. i < length es"
    using assms(1) by simp
  from check_entries_spec [OF assms(2,3,4) this] False show ?thesis
    by (auto simp: check_access_def pmp_allows_def deciding_entry_def check_permission_iff
        split: option.splits)
qed

section \<open>Synchronisation from the CSR file\<close>

definition pmp_of_csr :: "csr_file \<Rightarrow> pmp" where
  "pmp_of_csr c = sync_from_csr pmp_new (pmpcfg c) (pmpaddr c)"

lemma sync_from_csr_length:
  assumes "length es = PMP_COUNT" and "csr_wf c"
  shows "length (sync_from_csr es (pmpcfg c) (pmpaddr c)) = PMP_COUNT"
  using assms by (simp add: sync_from_csr_def csr_wf_def)

lemma sync_from_csr_nth:
  assumes "length es = PMP_COUNT" and "csr_wf c" and "i < PMP_COUNT"
  shows "sync_from_csr es (pmpcfg c) (pmpaddr c) ! i =
     \<lparr>pe_cfg = ucast (pmpcfg_byte c i), pe_addr = pmpaddr c ! i\<rparr>"
proof -
  have "i div 8 < 2"
    using assms(3) by (simp add: PMP_COUNT_def)
  with assms show ?thesis
    by (simp add: sync_from_csr_def csr_wf_def pmpcfg_byte_def Let_def)
qed

lemma sync_from_csr_indep:
  assumes "length es = PMP_COUNT" and "csr_wf c"
  shows "sync_from_csr es (pmpcfg c) (pmpaddr c) = pmp_of_csr c"
proof (rule nth_equalityI)
  have new: "length pmp_new = PMP_COUNT"
    by (simp add: pmp_new_def)
  show "length (sync_from_csr es (pmpcfg c) (pmpaddr c)) = length (pmp_of_csr c)"
    unfolding pmp_of_csr_def
    by (simp add: sync_from_csr_length [OF assms] sync_from_csr_length [OF new assms(2)])
  show "sync_from_csr es (pmpcfg c) (pmpaddr c) ! i = pmp_of_csr c ! i"
    if "i < length (sync_from_csr es (pmpcfg c) (pmpaddr c))" for i
    using that sync_from_csr_length [OF assms]
    by (simp add: pmp_of_csr_def sync_from_csr_nth [OF assms] sync_from_csr_nth [OF new assms(2)])
qed

section \<open>Locked entries and later CSR writes\<close>

definition pmp_matches :: "pmp \<Rightarrow> u64 \<Rightarrow> u64 \<Rightarrow> nat \<Rightarrow> bool" where
  "pmp_matches es addr sz i \<longleftrightarrow> from_cfg (pe_cfg (es ! i)) \<noteq> Off
     \<and> addr \<ge> fst (pmp_range es i) \<and> addr + sz \<le> snd (pmp_range es i)"

lemma check_entries_find:
  "check_entries es addr sz access p is =
     (case find (pmp_matches es addr sz) is of
        None \<Rightarrow> if p = Machine then Ok () else Err (access_fault access)
      | Some i \<Rightarrow> check_permission (es ! i) access p)"
proof (induction "is")
  case (Cons i "is")
  then show ?case
    by (cases "pmp_range es i") (auto simp: pmp_matches_def)
qed simp

lemma find_cong_prefix:
  assumes "\<And>x. x \<in> set xs \<Longrightarrow> P x = Q x" and "\<exists>x\<in>set xs. P x"
  shows "find P (xs @ ys) = find Q (xs @ zs) \<and> find P (xs @ ys) \<noteq> None \<and>
     the (find P (xs @ ys)) \<in> set xs"
  using assms by (induction xs) auto

lemma pmp_of_csr_kept:
  assumes "csr_wf c" and "csr_wf c'" and "i < PMP_COUNT" and "pmp_entry_kept c c' i"
  shows "pmp_of_csr c' ! i = pmp_of_csr c ! i"
  using assms sync_from_csr_nth [of pmp_new]
  by (simp add: pmp_of_csr_def pmp_entry_kept_def pmp_new_def)

lemma pmp_of_csr_locked:
  assumes "csr_wf c" and "i < PMP_COUNT"
  shows "pe_cfg (pmp_of_csr c ! i) AND PMP_L \<noteq> 0 \<longleftrightarrow> pmp_locked c i"
proof -
  have "pmp_of_csr c ! i = \<lparr>pe_cfg = ucast (pmpcfg_byte c i), pe_addr = pmpaddr c ! i\<rparr>"
    unfolding pmp_of_csr_def by (rule sync_from_csr_nth [OF _ assms]) (simp add: pmp_new_def)
  moreover have "pmp_locked c i \<longleftrightarrow> bit (pmpcfg_byte c i) 7"
    unfolding pmp_locked_def PMPCFG_L_def and_push_bit_1 by simp
  ultimately show ?thesis
    by (simp add: mask_simps bit_ucast_iff)
qed

lemma check_access_locked_prefix:
  assumes "length es = PMP_COUNT" and "length es' = PMP_COUNT" and "k < PMP_COUNT"
    and same: "\<And>j. j \<le> k \<Longrightarrow> es' ! j = es ! j"
    and locked: "pe_cfg (es ! k) AND PMP_L \<noteq> 0" and hit: "i \<le> k" "pmp_matches es addr sz i"
  shows "check_access es' addr sz access p = check_access es addr sz access p"
proof -
  have has_locked: "\<exists>e\<in>set es. pe_cfg e AND PMP_L \<noteq> 0" "\<exists>e\<in>set es'. pe_cfg e AND PMP_L \<noteq> 0"
    using locked same [of k] assms(1-3) nth_mem [of k es] nth_mem [of k es'] by auto
  have split: "[0..<PMP_COUNT] = [0..<Suc k] @ [Suc k..<PMP_COUNT]"
    using assms(3) upt_add_eq_append [of 0 "Suc k" "PMP_COUNT - Suc k"] by simp
  have "pmp_matches es' addr sz j = pmp_matches es addr sz j" if "j \<in> set [0..<Suc k]" for j
  proof -
    have "es' ! j = es ! j" and "es' ! (j - 1) = es ! (j - 1)"
      using that by (auto intro: same)
    then show ?thesis
      by (simp only: pmp_matches_def pmp_range_def Let_def)
  qed
  moreover have "\<exists>j\<in>set [0..<Suc k]. pmp_matches es addr sz j"
    using hit by (intro bexI [of _ i]) auto
  ultimately have found: "find (pmp_matches es' addr sz) [0..<PMP_COUNT] = find (pmp_matches es addr sz) [0..<PMP_COUNT]
      \<and> find (pmp_matches es addr sz) [0..<PMP_COUNT] \<noteq> None
      \<and> the (find (pmp_matches es addr sz) [0..<PMP_COUNT]) \<in> set [0..<Suc k]"
    unfolding split
    using find_cong_prefix [of "[0..<Suc k]" "pmp_matches es addr sz" "pmp_matches es' addr sz"]
    by metis
  then obtain j where "find (pmp_matches es addr sz) [0..<PMP_COUNT] = Some j" and "j \<le> k"
    by (cases "find (pmp_matches es addr sz) [0..<PMP_COUNT]") auto
  then show ?thesis
    using found same has_locked by (simp add: check_access_def check_entries_find)
qed

section \<open>Properties\<close>

text \<open>
  C2: An access is allowed exactly when the first entry covering all its bytes allows it (with
  its permission bit, or in machine mode without its lock bit), or when no entry covers it and
  the hart is in machine mode; otherwise it is refused with the access fault of its type. The
  bytes of an entry are those its mode denotes: a naturally aligned power of two, four bytes, or
  the range from the address register below. Address registers hold 54-bit values and the
  access does not wrap around.
\<close>
theorem check_access_first_match:
  assumes "length es = PMP_COUNT" and "pmp_addrs_ok es" and "0 < unat sz"
    and "unat addr + unat sz < 2 ^ 64"
  shows "check_access es addr sz access p =
     (if pmp_allows es addr sz access p then Ok () else Err (access_fault access))"
  by (rule check_access_spec [OF assms])

definition demo_pmp :: pmp where
  "demo_pmp = \<lparr>pe_cfg = 0x99, pe_addr = 0x401\<rparr> # replicate 15 \<lparr>pe_cfg = 0, pe_addr = 0\<rparr>"

theorem check_access_first_match_witness:
  "check_access demo_pmp 0x1004 4 Write Machine =
     (if pmp_allows demo_pmp 0x1004 4 Write Machine then Ok () else Err (access_fault Write))"
  by (rule check_access_first_match)
     (simp_all add: demo_pmp_def PMP_COUNT_def pmp_addrs_ok_def)

text \<open>
  C29: A naturally aligned region decodes to an interval of \<open>2 ^ (g + 3)\<close> bytes for \<open>g\<close> trailing
  ones, with no wrap-around, which holds exactly the bytes that agree with the address register
  above the size bits.
\<close>
theorem napot_range_exact:
  assumes "unat a < 2 ^ 54"
  shows "napot_bytes a = {unat (fst (napot_range a)) ..< unat (snd (napot_range a))}
     \<and> unat (snd (napot_range a)) = unat (fst (napot_range a)) + 2 ^ (trailing_ones a + 3)"
  using napot_range_bytes [OF assms] by blast

theorem napot_range_exact_witness:
  "napot_bytes 0x5ff = {unat (fst (napot_range 0x5ff)) ..< unat (snd (napot_range 0x5ff))}"
  using napot_range_exact [of "0x5ff"] by simp


definition demo_locked_csr :: csr_file where
  "demo_locked_csr = csr_new\<lparr>pmpcfg := [0x99, 0, 0, 0], pmpaddr := 0x401 # replicate 15 0\<rparr>"

lemma demo_locked_csr_wf: "csr_wf demo_locked_csr"
  using csr_wf_new by (simp add: csr_wf_def demo_locked_csr_def PMP_COUNT_def)

lemma demo_locked_csr_pmp: "pmp_of_csr demo_locked_csr ! 0 = \<lparr>pe_cfg = 0x99, pe_addr = 0x401\<rparr>"
  using sync_from_csr_nth [OF _ demo_locked_csr_wf, of pmp_new 0]
  by (simp add: pmp_of_csr_def pmp_new_def PMP_COUNT_def pmpcfg_byte_def demo_locked_csr_def)

lemma demo_napot: "trailing_zeros (- 1026) = 1"
proof -
  have "trailing_zeros (- 1026) \<le> 1"
    by (rule trailing_zeros_le) simp_all
  moreover have "bit (- 1026 :: u64) (trailing_zeros (- 1026))"
    by (rule trailing_zeros_bits) (use calculation in simp)
  ultimately show ?thesis
    by (cases "trailing_zeros (- 1026) = 0") simp_all
qed


text \<open>
  An access that only partly overlaps an entry without permissions is not stopped by it: the
  next entry that covers the whole access decides.
\<close>

lemma partial_match_falls_through:
  "check_access (\<lparr>pe_cfg = 0x10, pe_addr = 0x400\<rparr> # \<lparr>pe_cfg = 0x0f, pe_addr = 0x800\<rparr>
     # replicate 14 \<lparr>pe_cfg = 0, pe_addr = 0\<rparr>) 0x1000 8 Read Supervisor = Ok ()"
proof -
  let ?es = "\<lparr>pe_cfg = 0x10, pe_addr = 0x400\<rparr> # \<lparr>pe_cfg = 0x0f, pe_addr = 0x800\<rparr>
     # replicate 14 \<lparr>pe_cfg = 0, pe_addr = 0\<rparr>"
  have "pmp_range ?es 0 = (0x1000, 0x1004)" and "pmp_range ?es 1 = (0x1000, 0x2000)"
    by (simp_all add: pmp_range_def from_cfg_def PMP_A_MASK_def)
  then have "check_entries ?es 0x1000 8 Read Supervisor (0 # 1 # is) = Ok ()" for "is"
    by (simp add: from_cfg_def PMP_A_MASK_def PMP_R_def check_permission_def)
  moreover have "[0..<PMP_COUNT] = 0 # 1 # [2..<16]"
    by (simp add: PMP_COUNT_def upt_conv_Cons)
  ultimately show ?thesis
    by (simp only: check_access_def) simp
qed

end
