(* ===== verification/Riscv_Mmu.thy ===== *)
theory Riscv_Mmu
  imports Riscv_Pmp
begin

text \<open>
  The Sv39/Sv48 memory management unit (\<open>guest/riscv/src/riscv/mmu.rs\<close>): the direct-mapped
  software TLB with one tag per access type, the page-table walk with its PMP checks, permission
  check, accessed/dirty update and TLB refill. The closures \<open>mem_read\<close> and \<open>mem_write\<close> that the
  callers pass are a function argument and a list of the writes issued, in order.
\<close>

section \<open>Constants\<close>

definition PAGE_SIZE :: u64 where "PAGE_SIZE = 4096"
definition PTE_SIZE :: u64 where "PTE_SIZE = 8"
definition LEVELS :: nat where "LEVELS = 3"
definition VPN_BITS :: nat where "VPN_BITS = 9"
definition VPN_MASK :: u64 where "VPN_MASK = push_bit VPN_BITS 1 - 1"
definition SATP_MODE_BARE :: u64 where "SATP_MODE_BARE = 0"
definition SATP_MODE_SV39 :: u64 where "SATP_MODE_SV39 = 8"
definition SATP_MODE_SV48 :: u64 where "SATP_MODE_SV48 = 9"
definition SATP_ASID_MASK :: u64 where "SATP_ASID_MASK = 0xFFFF"
definition SATP_PPN_MASK :: u64 where "SATP_PPN_MASK = push_bit 44 1 - 1"
definition PTE_V :: u8 where "PTE_V = push_bit 0 1"
definition PTE_R :: u8 where "PTE_R = push_bit 1 1"
definition PTE_W :: u8 where "PTE_W = push_bit 2 1"
definition PTE_X :: u8 where "PTE_X = push_bit 3 1"
definition PTE_U :: u8 where "PTE_U = push_bit 4 1"
definition PTE_A :: u8 where "PTE_A = push_bit 6 1"
definition PTE_D :: u8 where "PTE_D = push_bit 7 1"
definition PTE_N :: u64 where "PTE_N = push_bit 63 1"
definition PTE_PBMT :: u64 where "PTE_PBMT = 0x6000000000000000"
definition PTE_PPN_MASK :: u64 where "PTE_PPN_MASK = push_bit 44 1 - 1"
definition PTE_THEAD_MAEE_ATTRS :: u64 where "PTE_THEAD_MAEE_ATTRS = 0xf800000000000000"
definition TLB_SIZE :: nat where "TLB_SIZE = 256"
definition PAGE_MASK :: u64 where "PAGE_MASK = NOT (PAGE_SIZE - 1)"
definition TLB_INVALID_TAG :: u64 where "TLB_INVALID_TAG = - 1"
definition TLB_MMIO_ADDEND :: u64 where "TLB_MMIO_ADDEND = - 1"

section \<open>State\<close>

record tlb_entry =
  addr_read :: u64
  addr_write :: u64
  addr_code :: u64
  addend :: u64
  dirty :: u8
  phys_page :: u64
  perm :: u8
  asid :: u16
  page_size :: u64

definition tlb_entry_default :: tlb_entry where
  "tlb_entry_default = \<lparr>addr_read = TLB_INVALID_TAG, addr_write = TLB_INVALID_TAG,
     addr_code = TLB_INVALID_TAG, addend = 0, dirty = 0, phys_page = 0, perm = 0, asid = 0,
     page_size = 0\<rparr>"

record mmu_stats =
  page_walks :: u64
  tlb_hits :: u64
  tlb_misses :: u64

record mmu =
  mmu_satp :: u64
  tlb :: "tlb_entry list"
  stats :: mmu_stats
  mmu_max_satp_mode :: u64
  mmu_svpbmt :: bool
  mmu_ssvnapot :: bool
  mmu_xtheadmaee :: bool
  dirty_pages_buf :: "u64 list"

section \<open>Helpers\<close>

definition vpn_index :: "u64 \<Rightarrow> nat \<Rightarrow> u64" where
  "vpn_index va level = drop_bit (12 + level * VPN_BITS) va AND VPN_MASK"

definition level_page_size :: "nat \<Rightarrow> u64" where
  "level_page_size level = push_bit (level * VPN_BITS) PAGE_SIZE"

definition is_supported_svnapot_pte :: "u64 \<Rightarrow> bool" where
  "is_supported_svnapot_pte pte =
     (if pte AND PTE_N = 0 then False
      else let ppn = drop_bit 10 pte AND PTE_PPN_MASK in trailing_zeros ppn + 1 = 4)"

text \<open>The shift is on \<open>i64\<close>, so it rounds towards minus infinity.\<close>

definition is_canonical_sv :: "u64 \<Rightarrow> u64 \<Rightarrow> bool" where
  "is_canonical_sv gva mode =
     (if mode = SATP_MODE_SV39 \<or> mode = SATP_MODE_SV48 then
        let va_bits = (if mode = SATP_MODE_SV39 then 39 else 48);
            s = drop_bit (va_bits - 1) (sint gva)
        in s = 0 \<or> s = - 1
      else True)"

definition tlb_index :: "u64 \<Rightarrow> nat" where
  "tlb_index va =
     (let vpn = drop_bit 12 va; h = vpn XOR drop_bit 8 vpn
      in unat (h AND of_nat (TLB_SIZE - 1)))"

definition mmu_new :: mmu where
  "mmu_new = \<lparr>mmu_satp = 0, tlb = replicate TLB_SIZE tlb_entry_default,
     stats = \<lparr>page_walks = 0, tlb_hits = 0, tlb_misses = 0\<rparr>, mmu_max_satp_mode = SATP_MODE_SV39,
     mmu_svpbmt = False, mmu_ssvnapot = False, mmu_xtheadmaee = False, dirty_pages_buf = []\<rparr>"

definition configure_profile :: "mmu \<Rightarrow> u64 \<Rightarrow> bool \<Rightarrow> bool \<Rightarrow> bool \<Rightarrow> mmu" where
  "configure_profile m mode svpbmt ssvnapot xtheadmaee =
     m\<lparr>mmu_max_satp_mode := mode, mmu_svpbmt := svpbmt, mmu_ssvnapot := ssvnapot,
       mmu_xtheadmaee := xtheadmaee\<rparr>"

definition set_satp :: "mmu \<Rightarrow> u64 \<Rightarrow> mmu" where
  "set_satp m val = m\<lparr>mmu_satp := val\<rparr>"

definition satp_mode :: "mmu \<Rightarrow> u64" where
  "satp_mode m = drop_bit 60 (mmu_satp m) AND 0xF"

definition thead_maee_attr_mask :: "mmu \<Rightarrow> u64 \<Rightarrow> u64" where
  "thead_maee_attr_mask m pte =
     (if mmu_ssvnapot m \<and> is_supported_svnapot_pte pte then PTE_THEAD_MAEE_ATTRS AND NOT PTE_N
      else PTE_THEAD_MAEE_ATTRS)"

definition pte_standard_view :: "mmu \<Rightarrow> u64 \<Rightarrow> u64" where
  "pte_standard_view m pte =
     (if mmu_xtheadmaee m then pte AND NOT (thead_maee_attr_mask m pte) else pte)"

section \<open>TLB lookup\<close>

definition tlb_lookup_code :: "mmu \<Rightarrow> u64 \<Rightarrow> u64 option" where
  "tlb_lookup_code m gva =
     (let entry = tlb m ! tlb_index gva; tag = gva AND PAGE_MASK
      in if addr_code entry = tag \<and> addend entry \<noteq> TLB_MMIO_ADDEND then Some (addend entry) else None)"

definition tlb_lookup_code_phys :: "mmu \<Rightarrow> u64 \<Rightarrow> u64 option" where
  "tlb_lookup_code_phys m gva =
     (let entry = tlb m ! tlb_index gva; tag = gva AND PAGE_MASK
      in if addr_code entry = tag \<and> addend entry \<noteq> TLB_MMIO_ADDEND
         then Some (push_bit 12 (phys_page entry) OR (gva AND NOT PAGE_MASK)) else None)"

definition tlb_lookup_read :: "mmu \<Rightarrow> u64 \<Rightarrow> u64 option" where
  "tlb_lookup_read m gva =
     (let entry = tlb m ! tlb_index gva; tag = gva AND PAGE_MASK
      in if addr_read entry = tag \<and> addend entry \<noteq> TLB_MMIO_ADDEND then Some (addend entry) else None)"

definition tlb_lookup_write :: "mmu \<Rightarrow> u64 \<Rightarrow> u64 option" where
  "tlb_lookup_write m gva =
     (let entry = tlb m ! tlb_index gva; tag = gva AND PAGE_MASK
      in if addr_write entry = tag \<and> addend entry \<noteq> TLB_MMIO_ADDEND then Some (addend entry) else None)"

section \<open>Permission check\<close>

definition check_perm :: "u8 \<Rightarrow> access_type \<Rightarrow> priv_level \<Rightarrow> u64 \<Rightarrow> exception + unit" where
  "check_perm pm access p status =
     (let r = pm AND PTE_R \<noteq> 0; w = pm AND PTE_W \<noteq> 0; x = pm AND PTE_X \<noteq> 0; u = pm AND PTE_U \<noteq> 0;
          mxr = status AND MSTATUS_MXR \<noteq> 0; sum = status AND MSTATUS_SUM \<noteq> 0;
          ok = (case access of Read \<Rightarrow> r \<or> (mxr \<and> x) | Write \<Rightarrow> w | Execute \<Rightarrow> x)
      in if \<not> ok then Err (page_fault access)
         else case p of
           User \<Rightarrow> if \<not> u then Err (page_fault access) else Ok ()
         | Supervisor \<Rightarrow>
             if u \<and> access = Execute then Err (page_fault access)
             else if u \<and> \<not> sum then Err (page_fault access)
             else Ok ()
         | Machine \<Rightarrow> Ok ())"

section \<open>Page-table walk\<close>

text \<open>An optional PMP unit; a refusal becomes the access fault of the original access.\<close>

definition pmp_check_pte ::
    "pmp option \<Rightarrow> u64 \<Rightarrow> access_type \<Rightarrow> priv_level \<Rightarrow> access_type \<Rightarrow> exception + unit" where
  "pmp_check_pte pu pte_addr kind p access =
     (case pu of
        None \<Rightarrow> Ok ()
      | Some es \<Rightarrow> map_err (\<lambda>_. access_fault access) (check_access es pte_addr PTE_SIZE kind p))"

text \<open>A leaf at some level: its frame number (with the NAPOT bits filled in from the address) or
  a fault for unsupported NAPOT encodings and misaligned superpages.\<close>

definition leaf_ppn :: "mmu \<Rightarrow> u64 \<Rightarrow> access_type \<Rightarrow> nat \<Rightarrow> u64 \<Rightarrow> exception + u64" where
  "leaf_ppn m gva access level pte_view =
     (let ppn = drop_bit 10 pte_view AND PTE_PPN_MASK
      in res_bind
        (if pte_view AND PTE_N \<noteq> 0 then
           if \<not> mmu_ssvnapot m then Err (page_fault access)
           else if level \<noteq> 0 then Err (page_fault access)
           else let napot_bits = trailing_zeros ppn + 1
                in if napot_bits \<noteq> 4 then Err (page_fault access)
                   else let napot_mask = push_bit napot_bits 1 - 1; vpn = drop_bit 12 gva
                        in Ok ((ppn AND NOT napot_mask) OR (vpn AND napot_mask))
         else Ok ppn)
        (\<lambda>ppn'.
           if level > 0 \<and> drop_bit 10 pte_view AND PTE_PPN_MASK AND (push_bit (level * VPN_BITS) 1 - 1) \<noteq> 0
           then Err (page_fault access)
           else Ok ppn'))"

text \<open>The loop over the levels, from \<open>n - 1\<close> down to 0, with the table address \<open>a\<close>.\<close>

fun walk_levels :: "mmu \<Rightarrow> u64 \<Rightarrow> access_type \<Rightarrow> pmp option \<Rightarrow> priv_level \<Rightarrow> (u64 \<Rightarrow> u64) \<Rightarrow>
    nat \<Rightarrow> u64 \<Rightarrow> exception + (u64 \<times> u8 \<times> u64 \<times> u64 \<times> u64)" where
  "walk_levels m gva access pu p mem_read 0 a = Err (page_fault access)"
| "walk_levels m gva access pu p mem_read (Suc level) a =
     (let idx = vpn_index gva level; pte_addr = a + idx * PTE_SIZE
      in res_bind (pmp_check_pte pu pte_addr Read p access) (\<lambda>_.
           let pte = mem_read pte_addr; pte_view = pte_standard_view m pte;
               flags = ucast (pte_view AND 0xFF) :: u8;
               r = flags AND PTE_R \<noteq> 0; w = flags AND PTE_W \<noteq> 0; x = flags AND PTE_X \<noteq> 0
           in if \<not> mmu_svpbmt m \<and> pte_view AND PTE_PBMT \<noteq> 0 then Err (page_fault access)
              else if flags AND PTE_V = 0 then Err (page_fault access)
              else if \<not> r \<and> w then Err (page_fault access)
              else if r \<or> x then
                res_bind (leaf_ppn m gva access level pte_view) (\<lambda>ppn.
                  Ok (ppn, flags, level_page_size level, pte_addr, pte))
              else walk_levels m gva access pu p mem_read level
                     ((drop_bit 10 pte AND PTE_PPN_MASK) * PAGE_SIZE)))"

definition walk_page_table :: "mmu \<Rightarrow> u64 \<Rightarrow> access_type \<Rightarrow> pmp option \<Rightarrow> priv_level \<Rightarrow>
    (u64 \<Rightarrow> u64) \<Rightarrow> exception + (u64 \<times> u8 \<times> u64 \<times> u64 \<times> u64)" where
  "walk_page_table m gva access pu p mem_read =
     (let mode = satp_mode m
      in if \<not> is_canonical_sv gva mode then Err (page_fault access)
         else let root_ppn = mmu_satp m AND SATP_PPN_MASK; a = root_ppn * PAGE_SIZE;
                  levels = (if mode = SATP_MODE_SV48 then 4 else LEVELS)
              in walk_levels m gva access pu p mem_read levels a)"

section \<open>Translation\<close>

text \<open>The new entry for a page; \<open>entry\<close> is the one it replaces (its \<open>dirty\<close> flag stays).\<close>

definition refill_entry :: "mmu \<Rightarrow> u64 \<Rightarrow> u64 \<Rightarrow> u8 \<Rightarrow> u64 \<Rightarrow> u64 \<Rightarrow> tlb_entry \<Rightarrow> tlb_entry" where
  "refill_entry m gva status updated_perm pa pg_size entry =
     (let tag = gva AND PAGE_MASK;
          r = updated_perm AND PTE_R \<noteq> 0; w = updated_perm AND PTE_W \<noteq> 0;
          x = updated_perm AND PTE_X \<noteq> 0; d = updated_perm AND PTE_D \<noteq> 0;
          mxr = status AND MSTATUS_MXR \<noteq> 0
      in entry\<lparr>addr_read := (if r \<or> (mxr \<and> x) then tag else TLB_INVALID_TAG),
               addr_write := (if w \<and> d then tag else TLB_INVALID_TAG),
               addr_code := (if x then tag else TLB_INVALID_TAG),
               addend := 0, phys_page := drop_bit 12 pa, perm := updated_perm,
               asid := ucast (drop_bit 44 (mmu_satp m) AND SATP_ASID_MASK),
               page_size := pg_size\<rparr>)"

definition translate_miss :: "mmu \<Rightarrow> u64 \<Rightarrow> access_type \<Rightarrow> priv_level \<Rightarrow> u64 \<Rightarrow> u64 \<Rightarrow>
    pmp option \<Rightarrow> (u64 \<Rightarrow> u64) \<Rightarrow> (exception + u64) \<times> mmu \<times> (u64 \<times> u64) list" where
  "translate_miss m0 gva access p status access_size pu mem_read =
     (let m = m0\<lparr>stats := (stats m0)\<lparr>tlb_misses := tlb_misses (stats m0) + 1,
                                     page_walks := page_walks (stats m0) + 1\<rparr>\<rparr>
      in case walk_page_table m gva access pu p mem_read of
           Inl e \<Rightarrow> (Err e, m, [])
         | Inr (ppn, flags, pg_size, pte_addr, pte) \<Rightarrow>
           (case check_perm flags access p status of
              Inl e \<Rightarrow> (Err e, m, [])
            | Inr _ \<Rightarrow>
              let new_pte = (let np = pte OR ucast PTE_A
                             in if access = Write then np OR ucast PTE_D else np);
                  upd = (if new_pte \<noteq> pte then
                           res_bind (pmp_check_pte pu pte_addr Write p access)
                             (\<lambda>_. Ok [(pte_addr, new_pte)])
                         else Ok [])
              in case upd of
                   Inl e \<Rightarrow> (Err e, m, [])
                 | Inr writes \<Rightarrow>
                   let updated_perm = ucast (new_pte AND 0xFF) :: u8;
                       pa = push_bit 12 ppn OR (gva AND (pg_size - 1))
                   in (case (case pu of None \<Rightarrow> Ok () | Some es \<Rightarrow> check_access es pa access_size access p) of
                         Inl e \<Rightarrow> (Err e, m, writes)
                       | Inr _ \<Rightarrow>
                         let i = tlb_index gva
                         in (Ok pa, m\<lparr>tlb := (tlb m)[i := refill_entry m gva status updated_perm pa pg_size (tlb m ! i)]\<rparr>,
                             writes))))"

definition tag_match :: "tlb_entry \<Rightarrow> access_type \<Rightarrow> u64 \<Rightarrow> bool" where
  "tag_match entry access tag =
     (case access of Read \<Rightarrow> addr_read entry = tag | Write \<Rightarrow> addr_write entry = tag
      | Execute \<Rightarrow> addr_code entry = tag)"

definition translate :: "mmu \<Rightarrow> u64 \<Rightarrow> access_type \<Rightarrow> priv_level \<Rightarrow> u64 \<Rightarrow> u64 \<Rightarrow>
    pmp option \<Rightarrow> (u64 \<Rightarrow> u64) \<Rightarrow> (exception + u64) \<times> mmu \<times> (u64 \<times> u64) list" where
  "translate m gva access p status access_size pu mem_read =
     (let mode = satp_mode m
      in if mode = SATP_MODE_BARE then (Ok gva, m, [])
         else if mode \<noteq> SATP_MODE_SV39 \<and> mode \<noteq> SATP_MODE_SV48 then (Err (page_fault access), m, [])
         else if mode > mmu_max_satp_mode m then (Err (page_fault access), m, [])
         else if \<not> is_canonical_sv gva mode then (Err (page_fault access), m, [])
         else let tag = gva AND PAGE_MASK; entry = tlb m ! tlb_index gva
              in if tag_match entry access tag then
                   let m' = m\<lparr>stats := (stats m)\<lparr>tlb_hits := tlb_hits (stats m) + 1\<rparr>\<rparr>;
                       pa_page = (gva + addend entry) AND PAGE_MASK;
                       pa = pa_page OR (gva AND (PAGE_SIZE - 1))
                   in (case (case pu of None \<Rightarrow> Ok () | Some es \<Rightarrow> check_access es pa access_size access p) of
                         Inl e \<Rightarrow> (Err e, m', [])
                       | Inr _ \<Rightarrow> (Ok pa, m', []))
                 else translate_miss m gva access p status access_size pu mem_read)"

definition fill_addend :: "mmu \<Rightarrow> u64 \<Rightarrow> u64 \<Rightarrow> mmu" where
  "fill_addend m gva ad =
     (let i = tlb_index gva in m\<lparr>tlb := (tlb m)[i := (tlb m ! i)\<lparr>addend := ad\<rparr>]\<rparr>)"

definition fill_identity :: "mmu \<Rightarrow> u64 \<Rightarrow> u64 \<Rightarrow> mmu" where
  "fill_identity m gva ad =
     (let tag = (if ad = TLB_MMIO_ADDEND then TLB_INVALID_TAG else gva AND PAGE_MASK);
          i = tlb_index gva
      in m\<lparr>tlb := (tlb m)[i := (tlb m ! i)\<lparr>addr_read := tag, addr_write := tag, addr_code := tag,
            addend := ad, phys_page := drop_bit 12 gva,
            perm := PTE_R OR PTE_W OR PTE_X OR PTE_A OR PTE_D, asid := 0,
            page_size := PAGE_SIZE\<rparr>]\<rparr>)"

section \<open>Flushing\<close>

definition invalidate :: "tlb_entry \<Rightarrow> tlb_entry" where
  "invalidate e = e\<lparr>addr_read := TLB_INVALID_TAG, addr_write := TLB_INVALID_TAG,
     addr_code := TLB_INVALID_TAG\<rparr>"

definition flush :: "mmu \<Rightarrow> mmu" where
  "flush m = m\<lparr>tlb := map invalidate (tlb m), dirty_pages_buf := []\<rparr>"

definition flush_page :: "mmu \<Rightarrow> u64 \<Rightarrow> mmu" where
  "flush_page m vpn =
     (let gva = push_bit 12 vpn; i = tlb_index gva; entry = tlb m ! i; tag = gva AND PAGE_MASK
      in if addr_read entry = tag \<or> addr_write entry = tag \<or> addr_code entry = tag
         then m\<lparr>tlb := (tlb m)[i := invalidate entry]\<rparr> else m)"

text \<open>The entries visited so far, and the pages collected.\<close>

fun collect_dirty :: "tlb_entry list \<Rightarrow> u64 list \<Rightarrow> tlb_entry list \<times> u64 list" where
  "collect_dirty [] buf = ([], buf)"
| "collect_dirty (e # es) buf =
     (if dirty e \<noteq> 0 then
        let buf' = (if phys_page e \<noteq> 0 \<and> addend e \<noteq> TLB_MMIO_ADDEND \<and> phys_page e \<notin> set buf
                    then buf @ [phys_page e] else buf);
            (es', out) = collect_dirty es buf'
        in (e\<lparr>dirty := 0\<rparr> # es', out)
      else let (es', out) = collect_dirty es buf in (e # es', out))"

definition take_dirty_tlb_pages :: "mmu \<Rightarrow> u64 list \<times> mmu" where
  "take_dirty_tlb_pages m =
     (let (es, buf) = collect_dirty (tlb m) [] in (buf, m\<lparr>tlb := es, dirty_pages_buf := buf\<rparr>))"

section \<open>Bits and masks\<close>

lemma pte_flag_bits [mask_simps]:
  "f AND PTE_V = 0 \<longleftrightarrow> \<not> bit f 0" "f AND PTE_R = 0 \<longleftrightarrow> \<not> bit f 1" "f AND PTE_W = 0 \<longleftrightarrow> \<not> bit f 2"
  "f AND PTE_X = 0 \<longleftrightarrow> \<not> bit f 3" "f AND PTE_U = 0 \<longleftrightarrow> \<not> bit f 4" "f AND PTE_D = 0 \<longleftrightarrow> \<not> bit f 7"
  unfolding PTE_V_def PTE_R_def PTE_W_def PTE_X_def PTE_U_def PTE_D_def and_push_bit_1 by (rule refl)+

lemma status_bits [mask_simps]:
  "s AND MSTATUS_MXR = 0 \<longleftrightarrow> \<not> bit s 19" "s AND MSTATUS_SUM = 0 \<longleftrightarrow> \<not> bit s 18"
  unfolding MSTATUS_MXR_def MSTATUS_SUM_def and_push_bit_1 by (rule refl)+

lemma low_mask: "push_bit n 1 - 1 = (mask n :: u64)"
  by (simp add: mask_eq_exp_minus_1 push_bit_eq_mult)

lemma bit_low_mask: "bit (push_bit n 1 - 1 :: u64) i \<longleftrightarrow> i < n \<and> i < 64"
  unfolding low_mask by (auto simp: bit_mask_iff)

lemma ppn_masks: "PTE_PPN_MASK = mask 44" "SATP_PPN_MASK = mask 44" "VPN_MASK = mask 9"
  by (simp_all only: PTE_PPN_MASK_def SATP_PPN_MASK_def VPN_MASK_def VPN_BITS_def low_mask)

lemma page_offset_mask: "PAGE_SIZE - 1 = mask 12"
  by (simp add: PAGE_SIZE_def mask_eq_exp_minus_1)

lemma page_mask: "PAGE_MASK = NOT (mask 12)"
  by (simp only: PAGE_MASK_def page_offset_mask)

lemma level_page_offset:
  assumes "level < 4"
  shows "level_page_size level - 1 = mask (12 + 9 * level)"
proof -
  have page: "PAGE_SIZE = push_bit 12 1"
    by (simp add: PAGE_SIZE_def)
  have "level_page_size level = push_bit (12 + 9 * level) 1"
    unfolding level_page_size_def VPN_BITS_def page push_bit_push_bit
    by (simp only: add.commute mult.commute)
  then show ?thesis
    by (simp only: low_mask)
qed

lemma invalid_tag_never_matches: "gva AND PAGE_MASK \<noteq> TLB_INVALID_TAG"
proof
  assume "gva AND PAGE_MASK = TLB_INVALID_TAG"
  then have "bit (gva AND PAGE_MASK) 0 = bit TLB_INVALID_TAG 0" by simp
  then show False
    by (simp add: page_mask TLB_INVALID_TAG_def bit_simps)
qed

lemma tlb_index_less: "tlb_index va < TLB_SIZE"
proof -
  have "(of_nat (TLB_SIZE - 1) :: u64) = mask 8"
    by (simp add: TLB_SIZE_def mask_eq_exp_minus_1)
  then have "tlb_index va = unat (take_bit 8 (drop_bit 12 va XOR drop_bit 8 (drop_bit 12 va)))"
    by (simp add: tlb_index_def Let_def take_bit_eq_mask)
  also have "\<dots> < 2 ^ 8"
    by (simp only: unsigned_take_bit_eq take_bit_nat_less_exp)
  finally show ?thesis
    by (simp add: TLB_SIZE_def)
qed

text \<open>Addresses of one page share their TLB slot and tag.\<close>

lemma same_page:
  assumes "a AND PAGE_MASK = b AND PAGE_MASK"
  shows "tlb_index a = tlb_index b" and "drop_bit 12 a = drop_bit 12 b"
proof -
  show eq: "drop_bit 12 a = drop_bit 12 b"
  proof (rule bit_word_eqI)
    fix n
    have "bit (a AND PAGE_MASK) (12 + n) = bit (b AND PAGE_MASK) (12 + n)"
      by (simp only: assms)
    then show "bit (drop_bit 12 a) n = bit (drop_bit 12 b) n"
      by (cases "12 + n < 64") (auto simp: page_mask bit_simps dest: bit_imp_le_length)
  qed
  then show "tlb_index a = tlb_index b"
    by (simp add: tlb_index_def)
qed

section \<open>The walk\<close>

definition walk_pte_addr :: "u64 \<Rightarrow> nat \<Rightarrow> u64 \<Rightarrow> u64" where
  "walk_pte_addr gva level a = a + vpn_index gva level * PTE_SIZE"

definition view_flags :: "mmu \<Rightarrow> u64 \<Rightarrow> u8" where
  "view_flags m pte = ucast (pte_standard_view m pte AND 0xFF)"

definition pte_valid :: "mmu \<Rightarrow> u64 \<Rightarrow> bool" where
  "pte_valid m pte \<longleftrightarrow> (mmu_svpbmt m \<or> pte_standard_view m pte AND PTE_PBMT = 0)
     \<and> bit (view_flags m pte) 0 \<and> (bit (view_flags m pte) 2 \<longrightarrow> bit (view_flags m pte) 1)"

definition pte_leaf :: "mmu \<Rightarrow> u64 \<Rightarrow> bool" where
  "pte_leaf m pte \<longleftrightarrow> bit (view_flags m pte) 1 \<or> bit (view_flags m pte) 3"

lemma walk_levels_Suc_Ok:
  "walk_levels m gva access pu p mem (Suc level) a = Ok res \<longleftrightarrow>
     (let pa = walk_pte_addr gva level a
      in pmp_check_pte pu pa Read p access = Ok () \<and> pte_valid m (mem pa)
         \<and> (if pte_leaf m (mem pa)
            then \<exists>ppn. leaf_ppn m gva access level (pte_standard_view m (mem pa)) = Ok ppn
                   \<and> res = (ppn, view_flags m (mem pa), level_page_size level, pa, mem pa)
            else walk_levels m gva access pu p mem level
                   ((drop_bit 10 (mem pa) AND PTE_PPN_MASK) * PAGE_SIZE) = Ok res))"
  by (auto simp: Let_def res_simps mask_simps walk_pte_addr_def view_flags_def pte_valid_def pte_leaf_def)

declare walk_levels.simps(2) [simp del]

text \<open>What a successful walk has established about its leaf.\<close>

definition leaf_ok :: "mmu \<Rightarrow> (u64 \<Rightarrow> u64) \<Rightarrow> nat \<Rightarrow> u64 \<times> u8 \<times> u64 \<times> u64 \<times> u64 \<Rightarrow> bool" where
  "leaf_ok m mem_read level = (\<lambda>(ppn, flags, pg_size, pte_addr, pte).
     pte = mem_read pte_addr \<and> flags = view_flags m pte \<and> pte_valid m pte \<and> pte_leaf m pte
     \<and> pg_size = level_page_size level \<and> (\<forall>n. bit ppn n \<longrightarrow> 9 * level \<le> n \<and> n < 44)
     \<and> (pte_standard_view m pte AND PTE_N = 0 \<longrightarrow> ppn = drop_bit 10 (pte_standard_view m pte) AND PTE_PPN_MASK))"

lemma leaf_ppn_bits:
  assumes "leaf_ppn m gva access level view = Ok ppn" and "level < 4"
  shows "bit ppn n \<Longrightarrow> 9 * level \<le> n \<and> n < 44"
proof -
  assume n: "bit ppn n"
  have aligned: "drop_bit 10 view AND PTE_PPN_MASK AND (push_bit (level * 9) 1 - 1) = 0" if "level > 0"
    using assms(1) that by (auto simp: leaf_ppn_def Let_def VPN_BITS_def res_simps split: if_splits)
  have raw: "n < 44" if "bit (drop_bit 10 view AND PTE_PPN_MASK) n" for n
    using that by (simp add: ppn_masks bit_simps)
  consider (plain) "ppn = drop_bit 10 view AND PTE_PPN_MASK"
    | (napot) "level = 0" "ppn = ((drop_bit 10 view AND PTE_PPN_MASK) AND NOT (push_bit 4 1 - 1))
        OR (drop_bit 12 gva AND (push_bit 4 1 - 1))"
    using assms(1) by (auto simp: leaf_ppn_def Let_def res_simps split: if_splits)
  then show "9 * level \<le> n \<and> n < 44"
  proof cases
    case plain
    have "\<not> n < 9 * level"
    proof
      assume less: "n < 9 * level"
      then have "bit (drop_bit 10 view AND PTE_PPN_MASK AND (push_bit (level * 9) 1 - 1)) n"
        using n plain assms(2) unfolding bit_and_iff bit_low_mask by (simp add: bit_and_iff)
      with aligned less show False by (cases "level = 0") simp_all
    qed
    then show ?thesis using raw n plain by simp
  next
    case napot
    then show ?thesis
      using n raw [of n] unfolding napot(2) bit_or_iff bit_and_iff bit_not_iff bit_low_mask by auto
  qed
qed

lemma leaf_ppn_plain:
  assumes "leaf_ppn m gva access level view = Ok ppn" and "view AND PTE_N = 0"
  shows "ppn = drop_bit 10 view AND PTE_PPN_MASK"
  using assms by (auto simp: leaf_ppn_def Let_def res_simps split: if_splits)

lemma walk_levels_leaf:
  assumes "walk_levels m gva access pu p mem_read n a = Ok res" and "n \<le> 4"
  shows "\<exists>level<n. leaf_ok m mem_read level res"
  using assms
proof (induction n arbitrary: a)
  case (Suc level)
  show ?case
  proof (cases "pte_leaf m (mem_read (walk_pte_addr gva level a))")
    case True
    then show ?thesis
      using Suc.prems leaf_ppn_bits leaf_ppn_plain
      by (intro exI [of _ level]) (auto simp: walk_levels_Suc_Ok Let_def leaf_ok_def)
  next
    case False
    then show ?thesis
      using Suc by (simp add: walk_levels_Suc_Ok Let_def) (meson less_SucI)
  qed
qed simp

lemma walk_page_table_leaf:
  assumes "walk_page_table m gva access pu p mem_read = Ok res"
  shows "\<exists>level<4. leaf_ok m mem_read level res"
proof -
  obtain n a where "walk_levels m gva access pu p mem_read n a = Ok res" and "n \<le> 4"
    using assms by (auto simp: walk_page_table_def Let_def LEVELS_def split: if_splits)
  from walk_levels_leaf [OF this] \<open>n \<le> 4\<close> show ?thesis
    by (meson less_le_trans)
qed

text \<open>The walk does not depend on the statistics.\<close>

lemma view_stats [simp]: "pte_standard_view (m\<lparr>stats := s\<rparr>) pte = pte_standard_view m pte"
  by (simp add: pte_standard_view_def thead_maee_attr_mask_def)

lemma leaf_ppn_stats [simp]: "leaf_ppn (m\<lparr>stats := s\<rparr>) gva access level v = leaf_ppn m gva access level v"
  by (simp add: leaf_ppn_def Let_def cong: if_cong)

lemma walk_levels_stats [simp]:
  "walk_levels (m\<lparr>stats := s\<rparr>) gva access pu p mem_read n a = walk_levels m gva access pu p mem_read n a"
  by (induction n arbitrary: a) (simp_all add: walk_levels.simps(2) Let_def cong: if_cong)

lemma walk_stats [simp]:
  "walk_page_table (m\<lparr>stats := s\<rparr>) gva access pu p mem_read = walk_page_table m gva access pu p mem_read"
  by (simp add: walk_page_table_def satp_mode_def Let_def cong: if_cong)

text \<open>The page-table entry after the accessed and dirty update, and the physical address.\<close>

definition ad_pte :: "access_type \<Rightarrow> u64 \<Rightarrow> u64" where
  "ad_pte access pte =
     (let np = pte OR ucast PTE_A in if access = Write then np OR ucast PTE_D else np)"

definition leaf_pa :: "u64 \<Rightarrow> u64 \<Rightarrow> u64 \<Rightarrow> u64" where
  "leaf_pa gva ppn pg_size = push_bit 12 ppn OR (gva AND (pg_size - 1))"

definition pmp_check_data :: "pmp option \<Rightarrow> u64 \<Rightarrow> u64 \<Rightarrow> access_type \<Rightarrow> priv_level \<Rightarrow> exception + unit" where
  "pmp_check_data pu pa sz access p = (case pu of None \<Rightarrow> Ok () | Some es \<Rightarrow> check_access es pa sz access p)"

definition count_miss :: "mmu \<Rightarrow> mmu" where
  "count_miss m = m\<lparr>stats := (stats m)\<lparr>tlb_misses := tlb_misses (stats m) + 1,
     page_walks := page_walks (stats m) + 1\<rparr>\<rparr>"

lemma translate_miss_Ok_iff:
  "translate_miss m gva access p status sz pu mem = (Ok pa, m', ws) \<longleftrightarrow>
   (\<exists>ppn flags pg pte_addr pte. walk_page_table m gva access pu p mem = Ok (ppn, flags, pg, pte_addr, pte)
     \<and> check_perm flags access p status = Ok ()
     \<and> (ad_pte access pte \<noteq> pte \<longrightarrow> pmp_check_pte pu pte_addr Write p access = Ok ())
     \<and> ws = (if ad_pte access pte \<noteq> pte then [(pte_addr, ad_pte access pte)] else [])
     \<and> pa = leaf_pa gva ppn pg \<and> pmp_check_data pu pa sz access p = Ok ()
     \<and> m' = (count_miss m)\<lparr>tlb := (tlb m)[tlb_index gva :=
          refill_entry m gva status (ucast (ad_pte access pte AND 0xFF)) pa pg (tlb m ! tlb_index gva)]\<rparr>)"
  (is "_ \<longleftrightarrow> ?R")
proof -
  have refill: "refill_entry (m\<lparr>stats := s\<rparr>) = refill_entry m" for s
    by (intro ext) (simp add: refill_entry_def)
  have walk: "walk_page_table (count_miss m) gva access pu p mem = walk_page_table m gva access pu p mem"
    by (simp add: count_miss_def)
  have m: "refill_entry (count_miss m) = refill_entry m" "tlb (count_miss m) = tlb m"
    by (simp_all add: count_miss_def refill)
  note folds = ad_pte_def [symmetric] leaf_pa_def [symmetric] pmp_check_data_def [symmetric]
    count_miss_def [symmetric]
  show ?thesis
  proof (cases "walk_page_table m gva access pu p mem")
    case (Inl e)
    then show ?thesis
      unfolding translate_miss_def folds by (simp add: Let_def walk)
  next
    case (Inr res)
    obtain ppn flags pg pte_addr pte where res: "res = (ppn, flags, pg, pte_addr, pte)"
      by (cases res)
    show ?thesis
      unfolding translate_miss_def folds Let_def walk Inr res m
      by (cases "check_perm flags access p status"; cases "pmp_check_pte pu pte_addr Write p access";
          cases "pmp_check_data pu (leaf_pa gva ppn pg) sz access p") (auto simp: ad_pte_def Let_def)
  qed
qed

section \<open>Physical addresses\<close>

lemma bit_leaf_pa:
  assumes "level < 4" and "\<forall>n. bit ppn n \<longrightarrow> 9 * level \<le> n \<and> n < 44"
  shows "bit (leaf_pa gva ppn (level_page_size level)) n \<longleftrightarrow>
     (if n < 12 + 9 * level then bit gva n else 12 \<le> n \<and> bit ppn (n - 12))"
proof -
  have pa: "bit (leaf_pa gva ppn (level_page_size level)) n \<longleftrightarrow>
      (12 \<le> n \<and> n < 64 \<and> bit ppn (n - 12)) \<or> bit gva n \<and> n < 12 + 9 * level \<and> n < 64"
    unfolding leaf_pa_def level_page_offset [OF assms(1)] bit_or_iff bit_and_iff bit_push_bit_iff bit_mask_iff
    by auto
  show ?thesis
  proof (cases "n < 12 + 9 * level")
    case True
    then have "\<not> (12 \<le> n \<and> bit ppn (n - 12))"
      using assms(2) [rule_format, of "n - 12"] by auto
    with True assms(1) show ?thesis
      unfolding pa by auto
  next
    case False
    then show ?thesis
      unfolding pa using assms(2) [rule_format, of "n - 12"] by auto
  qed
qed

lemma not_bits_bound:
  fixes x :: u64
  assumes "\<And>n. bit x n \<Longrightarrow> n < k"
  shows "unat x < 2 ^ k"
proof -
  have "take_bit k x = x"
    by (rule bit_eqI) (auto simp: bit_take_bit_iff dest: assms)
  then have "unat x = take_bit k (unat x)"
    by (metis unsigned_take_bit_eq)
  then show ?thesis
    by (metis take_bit_nat_less_exp)
qed

section \<open>Permissions\<close>

definition perm_allows :: "u8 \<Rightarrow> access_type \<Rightarrow> priv_level \<Rightarrow> u64 \<Rightarrow> bool" where
  "perm_allows fl access p status \<longleftrightarrow>
     (case access of
        Read \<Rightarrow> bit fl 1 \<or> bit status 19 \<and> bit fl 3
      | Write \<Rightarrow> bit fl 2
      | Execute \<Rightarrow> bit fl 3)
     \<and> (p = User \<longrightarrow> bit fl 4) \<and> (p = Supervisor \<and> bit fl 4 \<longrightarrow> access \<noteq> Execute \<and> bit status 18)"

lemma check_perm_iff:
  "check_perm fl access p status = (if perm_allows fl access p status then Ok () else Err (page_fault access))"
  by (cases access; cases p) (auto simp: check_perm_def perm_allows_def mask_simps Let_def)

section \<open>Accessed and dirty bits\<close>

lemma bit_ad_pte: "bit (ad_pte access pte) n \<longleftrightarrow> bit pte n \<or> n = 6 \<or> access = Write \<and> n = 7"
proof -
  have "bit (ucast PTE_A :: u64) n \<longleftrightarrow> n = 6" and "bit (ucast PTE_D :: u64) n \<longleftrightarrow> n = 7"
    unfolding PTE_A_def PTE_D_def bit_ucast_iff bit_push_bit_1 by auto
  then show ?thesis
    by (auto simp: ad_pte_def Let_def bit_or_iff)
qed

lemma ad_pte_idem: "ad_pte access (ad_pte access pte) = ad_pte access pte"
  by (rule bit_eqI) (auto simp: bit_ad_pte)

lemma drop_ad_pte: "drop_bit 10 (ad_pte access pte) = drop_bit 10 pte"
  by (rule bit_eqI) (auto simp: bit_drop_bit_eq bit_ad_pte)

lemma and_high_ad_pte:
  assumes "\<And>n. bit k n \<Longrightarrow> 8 \<le> n"
  shows "ad_pte access pte AND k = pte AND k"
  by (rule bit_eqI) (auto simp: bit_and_iff bit_ad_pte dest: assms)

lemma bit_PTE_N: "bit PTE_N n \<longleftrightarrow> n = 63"
  unfolding PTE_N_def bit_push_bit_1 by simp

lemma bit_attrs: "bit PTE_THEAD_MAEE_ATTRS n \<longleftrightarrow> 59 \<le> n \<and> n < 64"
proof -
  have "PTE_THEAD_MAEE_ATTRS = push_bit 59 (mask 5)"
    by (simp add: PTE_THEAD_MAEE_ATTRS_def mask_eq_exp_minus_1)
  then have "bit PTE_THEAD_MAEE_ATTRS n = bit (push_bit 59 (mask 5) :: u64) n"
    by (simp only:)
  also have "\<dots> \<longleftrightarrow> 59 \<le> n \<and> n < 64"
    unfolding bit_push_bit_iff bit_mask_iff by auto
  finally show ?thesis .
qed

lemma view_ad_pte: "pte_standard_view m (ad_pte access pte) = ad_pte access (pte_standard_view m pte)"
proof -
  have "is_supported_svnapot_pte (ad_pte access pte) = is_supported_svnapot_pte pte"
    unfolding is_supported_svnapot_pte_def drop_ad_pte
    by (subst and_high_ad_pte) (simp_all only: bit_PTE_N)
  then have mask: "thead_maee_attr_mask m (ad_pte access pte) = thead_maee_attr_mask m pte"
    by (simp add: thead_maee_attr_mask_def)
  have "\<not> bit (thead_maee_attr_mask m pte) 6" "\<not> bit (thead_maee_attr_mask m pte) 7"
    by (simp_all add: thead_maee_attr_mask_def bit_and_iff bit_attrs)
  then have "ad_pte access pte AND NOT (thead_maee_attr_mask m pte) =
      ad_pte access (pte AND NOT (thead_maee_attr_mask m pte))"
    by (intro bit_word_eqI) (auto simp: bit_and_iff bit_not_iff bit_ad_pte)
  then show ?thesis
    unfolding pte_standard_view_def mask by simp
qed

lemma view_flags_ad_pte:
  "bit (view_flags m (ad_pte access pte)) n \<longleftrightarrow>
     bit (view_flags m pte) n \<or> n = 6 \<or> access = Write \<and> n = 7"
proof -
  have "bit (view_flags m q) n \<longleftrightarrow> n < 8 \<and> bit (pte_standard_view m q) n" for q
    unfolding view_flags_def word_ff_mask bit_ucast_iff bit_and_iff bit_mask_iff by auto
  then show ?thesis
    by (auto simp: view_ad_pte bit_ad_pte)
qed

lemma pte_valid_ad_pte: "pte_valid m (ad_pte access pte) = pte_valid m pte"
proof -
  have "bit PTE_PBMT n \<Longrightarrow> 8 \<le> n" for n
  proof (rule ccontr)
    assume "bit PTE_PBMT n" and "\<not> 8 \<le> n"
    then have "bit (take_bit 8 PTE_PBMT) n" by (simp add: bit_take_bit_iff)
    then show False by (simp add: PTE_PBMT_def)
  qed
  then show ?thesis
    by (simp add: pte_valid_def view_ad_pte and_high_ad_pte view_flags_ad_pte)
qed

lemma pte_leaf_ad_pte: "pte_leaf m (ad_pte access pte) = pte_leaf m pte"
  by (simp add: pte_leaf_def view_flags_ad_pte)

lemma leaf_ppn_ad_pte:
  "leaf_ppn m gva access level (ad_pte acc v) = leaf_ppn m gva access level v"
proof -
  have "ad_pte acc v AND PTE_N = v AND PTE_N"
    by (rule and_high_ad_pte) (simp only: bit_PTE_N)
  then show ?thesis
    by (simp add: leaf_ppn_def drop_ad_pte)
qed

lemma perm_allows_ad_pte:
  "perm_allows (view_flags m (ad_pte acc pte)) access p status = perm_allows (view_flags m pte) access p status"
  by (simp add: perm_allows_def view_flags_ad_pte split: access_type.splits)

text \<open>Setting the accessed and dirty bits of the leaf does not disturb the walk that found it.\<close>

lemma walk_levels_ad:
  assumes "walk_levels m gva access pu p mem n a = Ok (ppn, flags, pg, pa, pte)" and "n \<le> 4"
  shows "walk_levels m gva access pu p (mem(pa := ad_pte acc pte)) n a =
     Ok (ppn, view_flags m (ad_pte acc pte), pg, pa, ad_pte acc pte)"
  using assms
proof (induction n arbitrary: a)
  case (Suc level)
  let ?q = "walk_pte_addr gva level a"
  show ?case
  proof (cases "pte_leaf m (mem ?q)")
    case True
    with Suc.prems(1) have found: "pa = ?q" "pte = mem ?q" "pg = level_page_size level"
        "leaf_ppn m gva access level (pte_standard_view m (mem ?q)) = Ok ppn"
        "pmp_check_pte pu ?q Read p access = Ok ()" "pte_valid m (mem ?q)"
      by (simp_all add: walk_levels_Suc_Ok Let_def)
    with True show ?thesis
      by (simp add: walk_levels_Suc_Ok Let_def pte_leaf_ad_pte pte_valid_ad_pte view_ad_pte leaf_ppn_ad_pte)
  next
    case False
    then have deeper: "walk_levels m gva access pu p mem level ((drop_bit 10 (mem ?q) AND PTE_PPN_MASK) * PAGE_SIZE)
        = Ok (ppn, flags, pg, pa, pte)"
      using Suc.prems by (simp add: walk_levels_Suc_Ok Let_def)
    from walk_levels_leaf [OF this] Suc.prems(2) have "pte_leaf m (mem pa)"
      by (auto simp: leaf_ok_def)
    with False have "?q \<noteq> pa" by auto
    then show ?thesis
      using Suc.IH [OF deeper] Suc.prems False by (simp add: walk_levels_Suc_Ok Let_def)
  qed
qed simp

section \<open>The TLB\<close>

text \<open>The valid tags of an entry are those of one page.\<close>

definition entry_wf :: "tlb_entry \<Rightarrow> bool" where
  "entry_wf e \<longleftrightarrow>
     (addr_read e = TLB_INVALID_TAG \<or> addr_write e = TLB_INVALID_TAG \<or> addr_read e = addr_write e)
     \<and> (addr_read e = TLB_INVALID_TAG \<or> addr_code e = TLB_INVALID_TAG \<or> addr_read e = addr_code e)
     \<and> (addr_write e = TLB_INVALID_TAG \<or> addr_code e = TLB_INVALID_TAG \<or> addr_write e = addr_code e)"

definition mmu_wf :: "mmu \<Rightarrow> bool" where
  "mmu_wf m \<longleftrightarrow> length (tlb m) = TLB_SIZE \<and> list_all entry_wf (tlb m)"

lemma tlb_slot: "mmu_wf m \<Longrightarrow> tlb_index gva < length (tlb m)"
  by (simp add: mmu_wf_def tlb_index_less)

lemma mmu_wf_update:
  assumes "mmu_wf m" and "entry_wf e" and "tlb m' = (tlb m)[i := e]"
  shows "mmu_wf m'"
  using assms set_update_subset_insert [of "tlb m" i e]
  by (auto simp: mmu_wf_def list_all_iff)

lemma entry_wf_ops [simp]:
  "entry_wf tlb_entry_default" "entry_wf (invalidate e)"
  "entry_wf (refill_entry m gva status fl pa pg e)" "entry_wf (e\<lparr>addend := a\<rparr>) = entry_wf e"
  "entry_wf (e\<lparr>dirty := d\<rparr>) = entry_wf e"
  by (simp_all add: entry_wf_def tlb_entry_default_def invalidate_def refill_entry_def Let_def)

lemma entry_wf_nth: "mmu_wf m \<Longrightarrow> entry_wf (tlb m ! tlb_index gva)"
  using tlb_slot [of m gva] by (simp add: mmu_wf_def list_all_length)

lemma mmu_wf_new [simp]: "mmu_wf mmu_new"
  by (simp add: mmu_wf_def mmu_new_def list_all_iff)

lemma mmu_wf_flush [simp]: "mmu_wf m \<Longrightarrow> mmu_wf (flush m)"
  by (simp add: mmu_wf_def flush_def list_all_iff)

lemma mmu_wf_fields [simp]:
  "mmu_wf (m\<lparr>stats := s\<rparr>) = mmu_wf m" "mmu_wf (m\<lparr>dirty_pages_buf := b\<rparr>) = mmu_wf m"
  "mmu_wf (set_satp m v) = mmu_wf m" "mmu_wf (count_miss m) = mmu_wf m"
  by (simp_all add: mmu_wf_def set_satp_def count_miss_def)

lemma mmu_wf_flush_page [simp]: "mmu_wf m \<Longrightarrow> mmu_wf (flush_page m vpn)"
  using mmu_wf_update [of m "invalidate (tlb m ! tlb_index (push_bit 12 vpn))"]
  by (simp add: flush_page_def Let_def)

lemma mmu_wf_fill_addend [simp]: "mmu_wf m \<Longrightarrow> mmu_wf (fill_addend m gva a)"
  using mmu_wf_update [of m "(tlb m ! tlb_index gva)\<lparr>addend := a\<rparr>"] entry_wf_nth [of m gva]
  by (simp add: fill_addend_def Let_def)

lemma mmu_wf_fill_identity [simp]: "mmu_wf m \<Longrightarrow> mmu_wf (fill_identity m gva a)"
  unfolding fill_identity_def Let_def by (rule mmu_wf_update) (simp_all add: entry_wf_def)

lemma collect_dirty_entries: "fst (collect_dirty es buf) = map (\<lambda>e. e\<lparr>dirty := 0\<rparr>) es"
proof (induction es arbitrary: buf)
  case (Cons e es)
  have "e\<lparr>dirty := 0\<rparr> = e" if "dirty e = 0"
    using that by (cases e) simp
  with Cons show ?case
    by (simp add: Let_def case_prod_beta)
qed simp

text \<open>The pages that \<open>take_dirty_tlb_pages\<close> reports.\<close>

definition dirty_ram :: "tlb_entry \<Rightarrow> bool" where
  "dirty_ram e \<longleftrightarrow> dirty e \<noteq> 0 \<and> phys_page e \<noteq> 0 \<and> addend e \<noteq> TLB_MMIO_ADDEND"

lemma collect_dirty_pages:
  "set (snd (collect_dirty es buf)) = set buf \<union> phys_page ` {e \<in> set es. dirty_ram e}"
  "distinct buf \<Longrightarrow> distinct (snd (collect_dirty es buf))"
  by (induction es arbitrary: buf) (auto simp: Let_def case_prod_beta dirty_ram_def)

lemma mmu_wf_take_dirty [simp]: "mmu_wf m \<Longrightarrow> mmu_wf (snd (take_dirty_tlb_pages m))"
  using collect_dirty_entries [of "tlb m" "[]"]
  by (auto simp: take_dirty_tlb_pages_def mmu_wf_def list_all_iff split: prod.splits)

lemma invalidate_no_match: "\<not> tag_match (invalidate e) access (gva AND PAGE_MASK)"
  using invalid_tag_never_matches [of gva]
  by (cases access) (auto simp: tag_match_def invalidate_def)

text \<open>A slot answers an access of some type for an address.\<close>

definition tlb_hit :: "mmu \<Rightarrow> access_type \<Rightarrow> u64 \<Rightarrow> bool" where
  "tlb_hit m access gva \<longleftrightarrow> tag_match (tlb m ! tlb_index gva) access (gva AND PAGE_MASK)"

lemma lookups_need_hit:
  "tlb_lookup_read m gva \<noteq> None \<Longrightarrow> tlb_hit m Read gva"
  "tlb_lookup_write m gva \<noteq> None \<Longrightarrow> tlb_hit m Write gva"
  "tlb_lookup_code m gva \<noteq> None \<Longrightarrow> tlb_hit m Execute gva"
  "tlb_lookup_code_phys m gva \<noteq> None \<Longrightarrow> tlb_hit m Execute gva"
  by (auto simp: tlb_lookup_read_def tlb_lookup_write_def tlb_lookup_code_def tlb_lookup_code_phys_def
      tlb_hit_def tag_match_def Let_def split: if_splits)

lemma flush_no_hit: "mmu_wf m \<Longrightarrow> \<not> tlb_hit (flush m) access gva"
  using tlb_slot [of m gva] by (simp add: tlb_hit_def flush_def invalidate_no_match)

lemma page_of_vpn:
  assumes "gva AND PAGE_MASK = push_bit 12 vpn"
  shows "tlb_index (push_bit 12 vpn) = tlb_index gva" and "push_bit 12 vpn AND PAGE_MASK = gva AND PAGE_MASK"
proof -
  show tags: "push_bit 12 vpn AND PAGE_MASK = gva AND PAGE_MASK"
    unfolding assms [symmetric] by (simp add: and.assoc)
  show "tlb_index (push_bit 12 vpn) = tlb_index gva"
    by (rule same_page(1) [OF tags])
qed

lemma flush_page_no_hit:
  assumes "mmu_wf m" and "gva AND PAGE_MASK = push_bit 12 vpn"
  shows "\<not> tlb_hit (flush_page m vpn) access gva"
  using tlb_slot [OF assms(1), of gva] page_of_vpn [OF assms(2)] invalidate_no_match [of _ access gva]
  by (cases access) (auto simp: tlb_hit_def flush_page_def tag_match_def Let_def)

lemma flush_page_other:
  assumes "mmu_wf m" and "gva AND PAGE_MASK \<noteq> push_bit 12 vpn AND PAGE_MASK"
  shows "tlb_hit (flush_page m vpn) access gva = tlb_hit m access gva"
proof (cases "tlb_index (push_bit 12 vpn) = tlb_index gva")
  case True
  let ?e = "tlb m ! tlb_index gva"
  have "entry_wf ?e" by (rule entry_wf_nth [OF assms(1)])
  moreover note tlb_slot [OF assms(1), of gva] invalidate_no_match [of ?e access gva]
    invalid_tag_never_matches [of gva] invalid_tag_never_matches [of "push_bit 12 vpn"]
  ultimately show ?thesis
    using True assms(2)
    by (cases access) (auto simp: tlb_hit_def flush_page_def Let_def tag_match_def entry_wf_def)
next
  case False
  then show ?thesis
    by (simp add: tlb_hit_def flush_page_def Let_def)
qed

lemma view_low: "n < 59 \<Longrightarrow> bit (pte_standard_view m pte) n \<longleftrightarrow> bit pte n"
  by (auto simp: pte_standard_view_def thead_maee_attr_mask_def bit_and_iff bit_not_iff bit_attrs
      dest: bit_imp_le_length)

lemma view_flags_low: "view_flags m pte = ucast (pte AND 0xFF)"
  unfolding view_flags_def word_ff_mask
  by (rule bit_word_eqI) (auto simp: bit_ucast_iff bit_and_iff bit_mask_iff view_low)

lemma tag_match_refill:
  "tag_match (refill_entry m gva status fl pa pg e) access (gva AND PAGE_MASK) \<longleftrightarrow>
     (case access of
        Read \<Rightarrow> bit fl 1 \<or> bit status 19 \<and> bit fl 3
      | Write \<Rightarrow> bit fl 2 \<and> bit fl 7
      | Execute \<Rightarrow> bit fl 3)"
  using invalid_tag_never_matches [of gva]
  by (cases access) (auto simp: tag_match_def refill_entry_def mask_simps Let_def)

section \<open>Successful translations\<close>

lemma translate_miss_leaf:
  assumes "translate_miss m gva access p status sz pu mem = (Ok pa, m', ws)"
  obtains ppn pg pte_addr pte level where
    "walk_page_table m gva access pu p mem = Ok (ppn, view_flags m pte, pg, pte_addr, pte)"
    "level < 4" "leaf_ok m mem level (ppn, view_flags m pte, pg, pte_addr, pte)"
    "perm_allows (view_flags m pte) access p status" "pa = leaf_pa gva ppn pg"
    "ws = (if ad_pte access pte \<noteq> pte then [(pte_addr, ad_pte access pte)] else [])"
    "pmp_check_data pu pa sz access p = Ok ()"
    "m' = (count_miss m)\<lparr>tlb := (tlb m)[tlb_index gva := refill_entry m gva status
        (view_flags m (ad_pte access pte)) pa pg (tlb m ! tlb_index gva)]\<rparr>"
proof -
  obtain ppn flags pg pte_addr pte where w: "walk_page_table m gva access pu p mem = Ok (ppn, flags, pg, pte_addr, pte)"
    and rest: "check_perm flags access p status = Ok ()" "pa = leaf_pa gva ppn pg"
      "ws = (if ad_pte access pte \<noteq> pte then [(pte_addr, ad_pte access pte)] else [])"
      "pmp_check_data pu pa sz access p = Ok ()"
      "m' = (count_miss m)\<lparr>tlb := (tlb m)[tlb_index gva := refill_entry m gva status
        (ucast (ad_pte access pte AND 0xFF)) pa pg (tlb m ! tlb_index gva)]\<rparr>"
    using assms unfolding translate_miss_Ok_iff by blast
  obtain level where level: "level < 4" "leaf_ok m mem level (ppn, flags, pg, pte_addr, pte)"
    using walk_page_table_leaf [OF w] by blast
  then have "flags = view_flags m pte"
    by (simp add: leaf_ok_def)
  with w rest level that show ?thesis
    unfolding view_flags_low [of m "ad_pte access pte", symmetric]
    by (auto simp: check_perm_iff split: if_splits)
qed

definition apply_writes :: "(u64 \<times> u64) list \<Rightarrow> (u64 \<Rightarrow> u64) \<Rightarrow> u64 \<Rightarrow> u64" where
  "apply_writes ws mem = fold (\<lambda>(a, v) mem. mem(a := v)) ws mem"

lemma walk_page_table_ad:
  assumes "walk_page_table m gva access pu p mem = Ok (ppn, flags, pg, pa, pte)"
  shows "walk_page_table m gva access pu p (mem(pa := ad_pte acc pte)) =
     Ok (ppn, view_flags m (ad_pte acc pte), pg, pa, ad_pte acc pte)"
  using assms walk_levels_ad
  by (auto simp: walk_page_table_def Let_def LEVELS_def split: if_splits)

section \<open>A concrete page table\<close>

text \<open>
  A three-level table with root frame 1: the page at 0 is a user page with read, write and
  execute permission in frame 0x80.
\<close>

definition demo_mem :: "u64 \<Rightarrow> u64" where
  "demo_mem a = (if a = 0x1000 then 0x801 else if a = 0x2000 then 0xC01
     else if a = 0x3000 then 0x2001F else 0)"

definition demo_mmu :: mmu where
  "demo_mmu = set_satp mmu_new 0x8000000000000001"

lemma demo_walk:
  "walk_page_table demo_mmu 0x123 access None p demo_mem = Ok (0x80, 0x1F, 0x1000, 0x3000, 0x2001F)"
proof -
  have canon: "is_canonical_sv 0x123 8"
    by (simp add: is_canonical_sv_def SATP_MODE_SV39_def)
  have view: "pte_standard_view demo_mmu pte = pte" for pte
    by (simp add: pte_standard_view_def demo_mmu_def set_satp_def mmu_new_def)
  have "walk_levels demo_mmu 0x123 access None p demo_mem (Suc (Suc (Suc 0))) 0x1000 =
      Ok (0x80, 0x1F, 0x1000, 0x3000, 0x2001F)"
    unfolding walk_levels_Suc_Ok Let_def
    by (simp add: walk_pte_addr_def vpn_index_def VPN_BITS_def VPN_MASK_def PTE_SIZE_def demo_mem_def
        pmp_check_pte_def pte_valid_def pte_leaf_def view_flags_def view PTE_PBMT_def PTE_PPN_MASK_def
        PAGE_SIZE_def leaf_ppn_def PTE_N_def level_page_size_def)
  then show ?thesis
    using canon
    by (simp add: walk_page_table_def satp_mode_def demo_mmu_def set_satp_def Let_def SATP_MODE_SV48_def
        LEVELS_def numeral_3_eq_3 SATP_PPN_MASK_def PAGE_SIZE_def)
qed

lemma demo_mmu_wf: "mmu_wf demo_mmu"
  by (simp add: demo_mmu_def)

text \<open>A supervisor access with \<open>SUM\<close> set.\<close>

lemma demo_translate:
  "\<exists>m' ws. translate_miss demo_mmu 0x123 Read Supervisor 0x40000 4 None demo_mem = (Ok 0x80123, m', ws)"
  unfolding translate_miss_Ok_iff demo_walk
  by (simp add: check_perm_iff perm_allows_def pmp_check_data_def leaf_pa_def pmp_check_pte_def)

lemma demo_fetch:
  "\<exists>m' ws. translate_miss demo_mmu 0x123 Execute User 0 2 None demo_mem = (Ok 0x80123, m', ws)"
  unfolding translate_miss_Ok_iff demo_walk
  by (simp add: check_perm_iff perm_allows_def pmp_check_data_def leaf_pa_def pmp_check_pte_def)

section \<open>Properties\<close>



text \<open>
  C26: The accessed and dirty update is transparent. The writes of a successful translation touch
  no bit of memory but bits 6 and 7 of page-table entries, and the same translation on the
  updated memory gives the same address and writes nothing more.
\<close>
theorem ad_update_transparent:
  assumes "translate_miss m gva access p status sz pu mem = (Ok pa, m', ws)"
  shows "(\<forall>a n. n \<noteq> 6 \<and> n \<noteq> 7 \<longrightarrow> bit (apply_writes ws mem a) n = bit (mem a) n)
     \<and> (\<exists>m''. translate_miss m gva access p status sz pu (apply_writes ws mem) = (Ok pa, m'', []))"
proof -
  from assms obtain ppn pg pte_addr pte level where
    w: "walk_page_table m gva access pu p mem = Ok (ppn, view_flags m pte, pg, pte_addr, pte)"
    and leaf: "leaf_ok m mem level (ppn, view_flags m pte, pg, pte_addr, pte)"
    and perm: "perm_allows (view_flags m pte) access p status"
    and pa: "pa = leaf_pa gva ppn pg" and pmp: "pmp_check_data pu pa sz access p = Ok ()"
    and ws: "ws = (if ad_pte access pte \<noteq> pte then [(pte_addr, ad_pte access pte)] else [])"
    by (rule translate_miss_leaf)
  have pte: "pte = mem pte_addr"
    using leaf by (simp add: leaf_ok_def)
  have mem': "apply_writes ws mem = mem(pte_addr := ad_pte access pte)"
    by (auto simp: apply_writes_def ws pte)
  have "\<exists>m''. translate_miss m gva access p status sz pu (apply_writes ws mem) = (Ok pa, m'', [])"
    unfolding translate_miss_Ok_iff mem' walk_page_table_ad [OF w]
    using perm pmp by (auto simp: ad_pte_idem pa check_perm_iff perm_allows_ad_pte)
  then show ?thesis
    by (auto simp: mem' bit_ad_pte pte)
qed

theorem ad_update_transparent_witness:
  "\<exists>ws m''. translate_miss demo_mmu 0x123 Read Supervisor 0x40000 4 None (apply_writes ws demo_mem) =
     (Ok 0x80123, m'', [])"
proof -
  obtain m' ws where "translate_miss demo_mmu 0x123 Read Supervisor 0x40000 4 None demo_mem = (Ok 0x80123, m', ws)"
    using demo_translate by blast
  from ad_update_transparent [OF this] show ?thesis by blast
qed



text \<open>
  C28: \<open>flush\<close> empties the TLB for every access type and address, and \<open>flush_page\<close> drops exactly
  the hits of its page.
\<close>
theorem flush_exact:
  assumes "mmu_wf m"
  shows "\<not> tlb_hit (flush m) access gva
     \<and> (tlb_hit (flush_page m vpn) access gva \<longleftrightarrow>
          tlb_hit m access gva \<and> gva AND PAGE_MASK \<noteq> push_bit 12 vpn)"
proof -
  have "push_bit 12 vpn AND PAGE_MASK = push_bit 12 vpn"
    unfolding page_mask by (rule bit_eqI) (auto simp: bit_simps)
  then show ?thesis
    using flush_no_hit [OF assms] flush_page_no_hit [OF assms] flush_page_other [OF assms] by metis
qed

theorem flush_exact_witness: "\<not> tlb_hit (flush_page demo_mmu 5) Write 0x5678"
  using flush_exact [OF demo_mmu_wf, of Write "0x5678" 5]
  by (simp add: PAGE_MASK_def PAGE_SIZE_def)

text \<open>
  After a fetch translation has filled a TLB entry with a host addend, the code lookup
  gives, for every address of the same page, the physical frame that the walk found with the
  address's own offset.
\<close>
theorem code_lookup_after_fetch:
  assumes "mmu_wf m" and "translate_miss m gva Execute p status sz pu mem = (Ok pa, m', ws)"
    and "ad \<noteq> TLB_MMIO_ADDEND" and "gva' AND PAGE_MASK = gva AND PAGE_MASK"
  shows "tlb_lookup_code_phys (fill_addend m' gva ad) gva' =
     Some ((pa AND PAGE_MASK) OR (gva' AND NOT PAGE_MASK))"
proof -
  from assms(2) obtain pte pg where
    perm: "perm_allows (view_flags m pte) Execute p status" and
    m': "m' = (count_miss m)\<lparr>tlb := (tlb m)[tlb_index gva := refill_entry m gva status
        (view_flags m (ad_pte Execute pte)) pa pg (tlb m ! tlb_index gva)]\<rparr>"
    by (rule translate_miss_leaf)
  let ?e = "refill_entry m gva status (view_flags m (ad_pte Execute pte)) pa pg (tlb m ! tlb_index gva)"
  have slot: "tlb_index gva' = tlb_index gva"
    by (rule same_page(1) [OF assms(4)])
  have "tlb (fill_addend m' gva ad) ! tlb_index gva' = ?e\<lparr>addend := ad\<rparr>"
    using tlb_slot [OF assms(1), of gva] by (simp add: m' slot fill_addend_def Let_def)
  moreover have "addr_code ?e = gva AND PAGE_MASK" and "phys_page ?e = drop_bit 12 pa"
    using perm by (simp_all add: refill_entry_def Let_def perm_allows_def mask_simps view_flags_ad_pte)
  moreover have "push_bit 12 (drop_bit 12 pa) = pa AND PAGE_MASK"
    unfolding page_mask by (rule bit_eqI) (auto simp: bit_simps)
  ultimately show ?thesis
    using assms(3,4) by (simp add: tlb_lookup_code_phys_def Let_def)
qed

theorem code_lookup_after_fetch_witness:
  "\<exists>m' ws. translate_miss demo_mmu 0x123 Execute User 0 2 None demo_mem = (Ok 0x80123, m', ws)
     \<and> tlb_lookup_code_phys (fill_addend m' 0x123 0x10000) 0x456 = Some 0x80456"
proof -
  obtain m' ws where tr: "translate_miss demo_mmu 0x123 Execute User 0 2 None demo_mem = (Ok 0x80123, m', ws)"
    using demo_fetch by blast
  have "tlb_lookup_code_phys (fill_addend m' 0x123 0x10000) 0x456 =
      Some ((0x80123 AND PAGE_MASK) OR (0x456 AND NOT PAGE_MASK))"
    by (rule code_lookup_after_fetch [OF demo_mmu_wf tr])
       (simp_all add: TLB_MMIO_ADDEND_def PAGE_MASK_def PAGE_SIZE_def)
  with tr show ?thesis
    by (auto simp: PAGE_MASK_def PAGE_SIZE_def)
qed

text \<open>
  Collecting the dirty pages reports each dirty RAM page of the TLB exactly once, reports
  nothing else, and clears every dirty flag while keeping the tags.
\<close>
theorem dirty_pages_collected:
  "let (pages, m') = take_dirty_tlb_pages m
   in distinct pages \<and> set pages = phys_page ` {e \<in> set (tlb m). dirty_ram e}
      \<and> tlb m' = map (\<lambda>e. e\<lparr>dirty := 0\<rparr>) (tlb m)"
  using collect_dirty_entries [of "tlb m" "[]"] collect_dirty_pages [where es = "tlb m" and buf = "[]"]
  by (cases "collect_dirty (tlb m) []") (simp add: take_dirty_tlb_pages_def)

section \<open>Two limits of the hit path\<close>

text \<open>
  A supervisor read of a user page under \<open>SUM\<close> fills the code tag as well, so that a supervisor
  fetch from that page, which the walk refuses, then hits the TLB.
\<close>

definition after_sum_read :: mmu where
  "after_sum_read = fst (snd (translate demo_mmu 0x123 Read Supervisor 0x40000 4 None demo_mem))"

lemma demo_mode: "satp_mode demo_mmu = 8" "mmu_max_satp_mode demo_mmu = 8"
  by (simp_all add: demo_mmu_def set_satp_def satp_mode_def mmu_new_def SATP_MODE_SV39_def)

lemma supervisor_fetch_of_user_page:
  "fst (translate demo_mmu 0x123 Execute Supervisor 0x40000 2 None demo_mem) = Err InstructionPageFault
   \<and> tlb_hit after_sum_read Execute 0x123"
proof -
  have empty: "\<not> tag_match (tlb demo_mmu ! tlb_index 0x123) access (0x123 AND PAGE_MASK)" for access
    using tlb_slot [OF demo_mmu_wf, of "0x123"] invalid_tag_never_matches [of "0x123"]
    by (cases access) (auto simp: demo_mmu_def set_satp_def mmu_new_def tlb_entry_default_def tag_match_def)
  have canon: "is_canonical_sv 0x123 8"
    by (simp add: is_canonical_sv_def SATP_MODE_SV39_def)
  have miss: "translate demo_mmu 0x123 access p status sz None demo_mem =
      translate_miss demo_mmu 0x123 access p status sz None demo_mem" for access p status sz
    using empty canon
    by (simp add: translate_def Let_def demo_mode SATP_MODE_BARE_def SATP_MODE_SV39_def)
  obtain m' ws where tr: "translate_miss demo_mmu 0x123 Read Supervisor 0x40000 4 None demo_mem = (Ok 0x80123, m', ws)"
    using demo_translate by blast
  then have "tlb_hit m' Execute 0x123"
    using tlb_slot [OF demo_mmu_wf, of "0x123"]
    by (auto simp: translate_miss_Ok_iff demo_walk tlb_hit_def tag_match_refill ad_pte_def Let_def PTE_A_def)
  moreover have "fst (translate_miss demo_mmu 0x123 Execute Supervisor 0x40000 2 None demo_mem) = Err InstructionPageFault"
    by (simp add: translate_miss_def Let_def demo_walk check_perm_iff perm_allows_def)
  ultimately show ?thesis
    by (simp add: after_sum_read_def miss tr)
qed

text \<open>
  On a hit, \<open>translate\<close> derives the address from the host addend: right after a refill, which
  leaves the addend 0, it returns the virtual address itself.
\<close>

lemma translate_hit_uses_addend:
  assumes "mmu_wf m" and "translate_miss m gva access p status sz None mem = (Ok pa, m', ws)"
    and "satp_mode m = 8" and "8 \<le> mmu_max_satp_mode m" and "is_canonical_sv gva 8"
  shows "fst (translate m' gva access p status sz None mem) = Ok gva"
proof -
  from assms(2) obtain pte pg where
    perm: "perm_allows (view_flags m pte) access p status" and
    m': "m' = (count_miss m)\<lparr>tlb := (tlb m)[tlb_index gva := refill_entry m gva status
        (view_flags m (ad_pte access pte)) pa pg (tlb m ! tlb_index gva)]\<rparr>"
    by (rule translate_miss_leaf)
  let ?e = "refill_entry m gva status (view_flags m (ad_pte access pte)) pa pg (tlb m ! tlb_index gva)"
  have entry: "tlb m' ! tlb_index gva = ?e"
    using tlb_slot [OF assms(1), of gva] by (simp add: m')
  have "tag_match ?e access (gva AND PAGE_MASK)"
    using perm by (cases access) (auto simp: tag_match_refill perm_allows_def view_flags_ad_pte)
  moreover have "addend ?e = 0"
    by (simp add: refill_entry_def Let_def)
  moreover have "(gva AND PAGE_MASK) OR (gva AND (PAGE_SIZE - 1)) = gva"
    unfolding page_mask page_offset_mask by (rule bit_eqI) (auto simp: bit_simps)
  moreover have "satp_mode m' = 8" "mmu_max_satp_mode m' = mmu_max_satp_mode m"
    using assms(3) by (simp_all add: m' satp_mode_def count_miss_def)
  ultimately show ?thesis
    using assms(4,5)
    by (simp add: translate_def Let_def entry SATP_MODE_BARE_def SATP_MODE_SV39_def not_less)
qed

end
