(* ===== verification/Riscv_Cpu.thy ===== *)
theory Riscv_Cpu
  imports Riscv_Mmu
begin

text \<open>
  The architectural state of a hart (\<open>guest/riscv/src/riscv/cpu.rs\<close>) and its trap model
  (\<open>guest/riscv/src/riscv/exception.rs\<close>): trap entry with delegation, the interrupt selection, and
  the returns \<open>mret\<close> and \<open>sret\<close>.
\<close>

section \<open>State\<close>

record riscv_cpu =
  gpr :: "u64 list"
  fpr :: "u64 list"
  pc :: u64
  guest_base :: u64
  load_res :: u64
  load_val :: u64
  cpu_fflags :: u64
  cpu_frm :: u64
  ustatus :: u64
  uie :: u64
  utvec :: u64
  uscratch :: u64
  uepc :: u64
  ucause :: u64
  utval :: u64
  uip :: u64
  interrupt_request :: u32
  halted :: bool
  cpu_priv :: priv_level
  cpu_csr :: csr_file
  cpu_profile :: riscv_cpu_profile
  cpu_pmp :: pmp
  cpu_mmu :: mmu
  mem_fault_cause :: u64
  mem_fault_tval :: u64
  as_ptr :: u64
  time_mmio_addr :: u64
  ram_base :: u64
  ram_end :: u64
  code_pages_ptr :: u64
  code_pages_len :: u64
  tb_flush_pending :: bool
  last_phys_pc :: u64
  fault_pc :: u64
  jmp_env :: u64
  neg_align :: "32 word"
  dirty_pages :: "u64 list"

definition gpr_offset :: "nat \<Rightarrow> int" where
  "gpr_offset i = int (i * 8)"

definition fpr_offset :: "nat \<Rightarrow> int" where
  "fpr_offset i = int ((32 + i) * 8)"

definition PC_OFFSET :: int where
  "PC_OFFSET = int ((32 + 32) * 8)"

definition new_with_model :: "riscv_cpu_model \<Rightarrow> riscv_cpu" where
  "new_with_model model =
     (let prof = profile model;
          csr = set_max_satp_mode (set_machine_ids csr_new (prof_mvendorid prof) (prof_marchid prof))
                  (prof_max_satp_mode prof)
      in \<lparr>gpr = replicate 32 0, fpr = replicate 32 0, pc = 0, guest_base = 0, load_res = - 1,
          load_val = 0, cpu_fflags = 0, cpu_frm = 0, ustatus = 0x6000, uie = 0, utvec = 0,
          uscratch = 0, uepc = 0, ucause = 0, utval = 0, uip = 0, interrupt_request = 0,
          halted = False, cpu_priv = Machine, cpu_csr = csr, cpu_profile = prof,
          cpu_pmp = pmp_new,
          cpu_mmu = configure_profile mmu_new (prof_max_satp_mode prof) (ext_svpbmt (cfg prof))
            (ext_ssvnapot (cfg prof)) (ext_xtheadmaee (cfg prof)),
          mem_fault_cause = 0, mem_fault_tval = 0, as_ptr = 0, time_mmio_addr = 0x0200BFF8,
          ram_base = 0, ram_end = 0, code_pages_ptr = 0, code_pages_len = 0,
          tb_flush_pending = False, last_phys_pc = 0, fault_pc = 0, jmp_env = 0, neg_align = 0,
          dirty_pages = []\<rparr>)"

definition set_priv :: "riscv_cpu \<Rightarrow> priv_level \<Rightarrow> riscv_cpu" where
  "set_priv c p = c\<lparr>cpu_priv := p\<rparr>"

definition try_csr_read :: "riscv_cpu \<Rightarrow> u16 \<Rightarrow> u64 + u64" where
  "try_csr_read c addr = read_for_profile (cpu_csr c) addr (cpu_priv c) (cpu_profile c)"

definition try_csr_write :: "riscv_cpu \<Rightarrow> u16 \<Rightarrow> u64 \<Rightarrow> u64 + riscv_cpu" where
  "try_csr_write c addr val =
     res_bind (write_for_profile (cpu_csr c) addr val (cpu_priv c) (cpu_profile c))
       (\<lambda>f. Ok (c\<lparr>cpu_csr := f\<rparr>))"

section \<open>Trap entry\<close>

datatype interrupt = SupervisorSoftware | MachineSoftware | SupervisorTimer | MachineTimer
  | SupervisorExternal | MachineExternal

fun interrupt_code :: "interrupt \<Rightarrow> nat" where
  "interrupt_code SupervisorSoftware = 1"
| "interrupt_code MachineSoftware = 3"
| "interrupt_code SupervisorTimer = 5"
| "interrupt_code MachineTimer = 7"
| "interrupt_code SupervisorExternal = 9"
| "interrupt_code MachineExternal = 11"

definition INTERRUPT_BIT :: u64 where "INTERRUPT_BIT = push_bit 63 1"

definition INT_PRIORITY :: "interrupt list" where
  "INT_PRIORITY = [MachineExternal, MachineSoftware, MachineTimer, SupervisorExternal,
     SupervisorSoftware, SupervisorTimer]"

definition tvec_addr :: "u64 \<Rightarrow> u64 \<Rightarrow> bool \<Rightarrow> u64" where
  "tvec_addr tvec cause is_interrupt =
     (let base = tvec AND NOT 0x3; mode = tvec AND 0x3
      in if mode = 1 \<and> is_interrupt then base + 4 * (cause AND NOT INTERRUPT_BIT) else base)"

text \<open>A shift distance of 64 or more is reduced modulo 64, as in a release build.\<close>

definition do_trap :: "riscv_cpu \<Rightarrow> u64 \<Rightarrow> u64 \<Rightarrow> riscv_cpu" where
  "do_trap c cause tval =
     (let is_interrupt = cause AND INTERRUPT_BIT \<noteq> 0;
          code = cause AND NOT INTERRUPT_BIT;
          cur_priv = of_nat (priv_num (cpu_priv c)) :: u64;
          csr = cpu_csr c;
          deleg = (if is_interrupt then mideleg csr else medeleg csr);
          delegated = (drop_bit (unat code mod 64) deleg AND 1 \<noteq> 0 \<and> cpu_priv c < Machine);
          c' = (if delegated then
                  let ms1 = (mstatus csr AND NOT MSTATUS_SPP) OR
                            (if cur_priv \<ge> of_nat (priv_num Supervisor) then MSTATUS_SPP else 0);
                      ms2 = (if ms1 AND MSTATUS_SIE \<noteq> 0 then ms1 OR MSTATUS_SPIE else ms1 AND NOT MSTATUS_SPIE);
                      ms3 = ms2 AND NOT MSTATUS_SIE
                  in c\<lparr>cpu_csr := csr\<lparr>sepc := pc c, scause := cause, stval := tval, mstatus := ms3\<rparr>,
                       pc := tvec_addr (stvec csr) cause is_interrupt, cpu_priv := Supervisor\<rparr>
                else
                  let ms1 = (mstatus csr AND NOT MSTATUS_MPP) OR push_bit 11 (cur_priv AND 0x3);
                      ms2 = (if ms1 AND MSTATUS_MIE \<noteq> 0 then ms1 OR MSTATUS_MPIE else ms1 AND NOT MSTATUS_MPIE);
                      ms3 = ms2 AND NOT MSTATUS_MIE
                  in c\<lparr>cpu_csr := csr\<lparr>mepc := pc c, mcause := cause, mtval := tval, mstatus := ms3\<rparr>,
                       pc := tvec_addr (mtvec csr) cause is_interrupt, cpu_priv := Machine\<rparr>)
      in c'\<lparr>load_res := - 1, cpu_mmu := flush (cpu_mmu c')\<rparr>)"

definition raise_exception :: "riscv_cpu \<Rightarrow> exception \<Rightarrow> u64 \<Rightarrow> riscv_cpu" where
  "raise_exception c excp tval = do_trap c (exception_code excp) tval"

section \<open>Interrupts\<close>

text \<open>The body of the loop for one interrupt: \<open>None\<close> continues with the next one.\<close>

definition try_interrupt :: "riscv_cpu \<Rightarrow> u64 \<Rightarrow> interrupt \<Rightarrow> riscv_cpu option" where
  "try_interrupt c pending irq =
     (let csr = cpu_csr c; cur_priv = priv_num (cpu_priv c);
          b = push_bit (interrupt_code irq) 1 :: u64
      in if pending AND b = 0 then None
         else let delegated = (drop_bit (interrupt_code irq) (mideleg csr) AND 1 \<noteq> 0);
                  can_take = (if delegated then
                      cur_priv < priv_num Supervisor
                      \<or> cur_priv = priv_num Supervisor \<and> mstatus csr AND MSTATUS_SIE \<noteq> 0
                    else
                      cur_priv < priv_num Machine
                      \<or> cur_priv = priv_num Machine \<and> mstatus csr AND MSTATUS_MIE \<noteq> 0)
              in if \<not> can_take then None
                 else Some (do_trap c (INTERRUPT_BIT OR of_nat (interrupt_code irq)) 0))"

fun try_interrupts :: "riscv_cpu \<Rightarrow> u64 \<Rightarrow> interrupt list \<Rightarrow> bool \<times> riscv_cpu" where
  "try_interrupts c pending [] = (False, c)"
| "try_interrupts c pending (irq # irqs) =
     (case try_interrupt c pending irq of
        Some c' \<Rightarrow> (True, c')
      | None \<Rightarrow> try_interrupts c pending irqs)"

definition cpu_handle_interrupt :: "riscv_cpu \<Rightarrow> bool \<times> riscv_cpu" where
  "cpu_handle_interrupt c =
     (let pending = mip (cpu_csr c) AND mie (cpu_csr c)
      in if pending = 0 then (False, c) else try_interrupts c pending INT_PRIORITY)"

section \<open>Trap return\<close>

definition execute_mret :: "riscv_cpu \<Rightarrow> riscv_cpu" where
  "execute_mret c =
     (let csr = cpu_csr c;
          mpp = drop_bit 11 (mstatus csr AND MSTATUS_MPP);
          p = (if mpp = 0 then User else if mpp = 1 then Supervisor else Machine);
          ms1 = (if mstatus csr AND MSTATUS_MPIE \<noteq> 0 then mstatus csr OR MSTATUS_MIE
                 else mstatus csr AND NOT MSTATUS_MIE);
          ms2 = ms1 OR MSTATUS_MPIE;
          ms3 = ms2 AND NOT MSTATUS_MPP
      in c\<lparr>cpu_priv := p, cpu_csr := csr\<lparr>mstatus := ms3\<rparr>, pc := mepc csr, load_res := - 1,
           cpu_mmu := flush (cpu_mmu c)\<rparr>)"

definition execute_sret :: "riscv_cpu \<Rightarrow> bool \<times> riscv_cpu" where
  "execute_sret c =
     (let csr = cpu_csr c
      in if cpu_priv c < Supervisor then (False, c)
         else if cpu_priv c = Supervisor \<and> mstatus csr AND MSTATUS_TSR \<noteq> 0 then (False, c)
         else let p = (if mstatus csr AND MSTATUS_SPP \<noteq> 0 then Supervisor else User);
                  ms1 = (if mstatus csr AND MSTATUS_SPIE \<noteq> 0 then mstatus csr OR MSTATUS_SIE
                         else mstatus csr AND NOT MSTATUS_SIE);
                  ms2 = ms1 OR MSTATUS_SPIE;
                  ms3 = ms2 AND NOT MSTATUS_SPP
              in (True, c\<lparr>cpu_priv := p, cpu_csr := csr\<lparr>mstatus := ms3\<rparr>, pc := sepc csr,
                          load_res := - 1, cpu_mmu := flush (cpu_mmu c)\<rparr>))"

section \<open>Bits of the status register\<close>

lemma and_1_iff: "drop_bit k x AND 1 \<noteq> 0 \<longleftrightarrow> bit x k" for x :: u64
proof -
  have "drop_bit k x AND 1 = 0 \<longleftrightarrow> \<not> bit (drop_bit k x) 0"
    using and_push_bit_1 [of "drop_bit k x" 0] by simp
  then show ?thesis
    by (simp add: bit_drop_bit_eq)
qed

lemma status_tests [mask_simps]:
  "s AND MSTATUS_SIE = 0 \<longleftrightarrow> \<not> bit s 1" "s AND MSTATUS_MIE = 0 \<longleftrightarrow> \<not> bit s 3"
  "s AND MSTATUS_SPIE = 0 \<longleftrightarrow> \<not> bit s 5" "s AND MSTATUS_MPIE = 0 \<longleftrightarrow> \<not> bit s 7"
  "s AND MSTATUS_SPP = 0 \<longleftrightarrow> \<not> bit s 8" "s AND MSTATUS_TSR = 0 \<longleftrightarrow> \<not> bit s 22"
  "s AND INTERRUPT_BIT = 0 \<longleftrightarrow> \<not> bit s 63"
  unfolding MSTATUS_SIE_def MSTATUS_MIE_def MSTATUS_SPIE_def MSTATUS_MPIE_def MSTATUS_SPP_def
    MSTATUS_TSR_def INTERRUPT_BIT_def and_push_bit_1 by (rule refl)+

text \<open>Whether a trap goes to supervisor mode.\<close>

definition trap_delegated :: "riscv_cpu \<Rightarrow> u64 \<Rightarrow> bool" where
  "trap_delegated c cause \<longleftrightarrow> cpu_priv c \<noteq> Machine
     \<and> bit (if bit cause 63 then mideleg (cpu_csr c) else medeleg (cpu_csr c))
         (unat (cause AND NOT INTERRUPT_BIT) mod 64)"

lemma priv_bits:
  "bit (of_nat (priv_num p) AND 0x3 :: u64) n \<longleftrightarrow> n = 0 \<and> p \<noteq> User \<or> n = 1 \<and> p = Machine"
proof (cases p)
  case Machine
  have "(3 :: u64) = push_bit 0 3" by simp
  with Machine show ?thesis
    using bit_push_bit_3 [where ?'a = 64, of 0 n] by auto
qed (auto simp: bit_1_iff)

lemma do_trap_delegated:
  assumes "trap_delegated c cause"
  shows "cpu_priv (do_trap c cause tval) = Supervisor"
    and "pc (do_trap c cause tval) = tvec_addr (stvec (cpu_csr c)) cause (bit cause 63)"
    and "sepc (cpu_csr (do_trap c cause tval)) = pc c" "scause (cpu_csr (do_trap c cause tval)) = cause"
    and "stval (cpu_csr (do_trap c cause tval)) = tval"
    and "bit (mstatus (cpu_csr (do_trap c cause tval))) n \<longleftrightarrow>
      (if n = 8 then cpu_priv c = Supervisor else if n = 5 then bit (mstatus (cpu_csr c)) 1
       else if n = 1 then False else bit (mstatus (cpu_csr c)) n)"
proof -
  have deleg: "drop_bit (unat (cause AND NOT INTERRUPT_BIT) mod 64)
      (if cause AND INTERRUPT_BIT \<noteq> 0 then mideleg (cpu_csr c) else medeleg (cpu_csr c)) AND 1 \<noteq> 0
      \<and> cpu_priv c < Machine"
    using assms unfolding trap_delegated_def and_1_iff by (simp add: mask_simps)
  have ge: "(of_nat (priv_num Supervisor) :: u64) \<le> of_nat (priv_num (cpu_priv c)) \<longleftrightarrow> cpu_priv c = Supervisor"
    using assms by (cases "cpu_priv c") (simp_all add: trap_delegated_def)
  note def = do_trap_def Let_def
  show "cpu_priv (do_trap c cause tval) = Supervisor"
    and "pc (do_trap c cause tval) = tvec_addr (stvec (cpu_csr c)) cause (bit cause 63)"
    and "sepc (cpu_csr (do_trap c cause tval)) = pc c" "scause (cpu_csr (do_trap c cause tval)) = cause"
    and "stval (cpu_csr (do_trap c cause tval)) = tval"
    unfolding def if_P [OF deleg] by (simp_all add: mask_simps)
  show "bit (mstatus (cpu_csr (do_trap c cause tval))) n \<longleftrightarrow>
      (if n = 8 then cpu_priv c = Supervisor else if n = 5 then bit (mstatus (cpu_csr c)) 1
       else if n = 1 then False else bit (mstatus (cpu_csr c)) n)"
    unfolding def if_P [OF deleg] ge
    by (auto simp: mask_simps bit_and_iff bit_or_iff bit_not_iff dest: bit_imp_le_length)
qed

lemma do_trap_machine:
  assumes "\<not> trap_delegated c cause"
  shows "cpu_priv (do_trap c cause tval) = Machine"
    and "pc (do_trap c cause tval) = tvec_addr (mtvec (cpu_csr c)) cause (bit cause 63)"
    and "mepc (cpu_csr (do_trap c cause tval)) = pc c" "mcause (cpu_csr (do_trap c cause tval)) = cause"
    and "mtval (cpu_csr (do_trap c cause tval)) = tval"
    and "bit (mstatus (cpu_csr (do_trap c cause tval))) n \<longleftrightarrow>
      (if n = 11 then cpu_priv c \<noteq> User else if n = 12 then cpu_priv c = Machine
       else if n = 7 then bit (mstatus (cpu_csr c)) 3
       else if n = 3 then False else bit (mstatus (cpu_csr c)) n)"
proof -
  have deleg: "\<not> (drop_bit (unat (cause AND NOT INTERRUPT_BIT) mod 64)
      (if cause AND INTERRUPT_BIT \<noteq> 0 then mideleg (cpu_csr c) else medeleg (cpu_csr c)) AND 1 \<noteq> 0
      \<and> cpu_priv c < Machine)"
    using assms unfolding trap_delegated_def and_1_iff by (auto simp: mask_simps split: if_splits)
  note def = do_trap_def Let_def
  show "cpu_priv (do_trap c cause tval) = Machine"
    and "pc (do_trap c cause tval) = tvec_addr (mtvec (cpu_csr c)) cause (bit cause 63)"
    and "mepc (cpu_csr (do_trap c cause tval)) = pc c" "mcause (cpu_csr (do_trap c cause tval)) = cause"
    and "mtval (cpu_csr (do_trap c cause tval)) = tval"
    unfolding def if_not_P [OF deleg] by (simp_all add: mask_simps)
  define mpp where "mpp = push_bit 11 (of_nat (priv_num (cpu_priv c)) AND 0x3 :: u64)"
  have mpp: "bit mpp n \<longleftrightarrow> n = 11 \<and> cpu_priv c \<noteq> User \<or> n = 12 \<and> cpu_priv c = Machine" for n
    unfolding mpp_def bit_push_bit_iff priv_bits by auto
  show "bit (mstatus (cpu_csr (do_trap c cause tval))) n \<longleftrightarrow>
      (if n = 11 then cpu_priv c \<noteq> User else if n = 12 then cpu_priv c = Machine
       else if n = 7 then bit (mstatus (cpu_csr c)) 3
       else if n = 3 then False else bit (mstatus (cpu_csr c)) n)"
    unfolding def if_not_P [OF deleg] mpp_def [symmetric]
    by (auto simp: mask_simps bit_and_iff bit_or_iff bit_not_iff mpp dest: bit_imp_le_length)
qed

lemma two_bit_cases:
  fixes x :: u64
  assumes "\<And>n. bit x n \<longleftrightarrow> n = 0 \<and> a \<or> n = 1 \<and> b"
  shows "(x = 0 \<longleftrightarrow> \<not> a \<and> \<not> b) \<and> (x = 1 \<longleftrightarrow> a \<and> \<not> b)"
proof -
  have "x = of_bool a OR push_bit 1 (of_bool b)"
    by (rule bit_eqI, unfold assms bit_or_iff bit_push_bit_iff bit_of_bool_iff) auto
  then show ?thesis
    by (cases a; cases b) simp_all
qed

lemma execute_mret_state:
  shows "pc (execute_mret c) = mepc (cpu_csr c)"
    and "cpu_priv (execute_mret c) =
      (if bit (mstatus (cpu_csr c)) 12 then Machine
       else if bit (mstatus (cpu_csr c)) 11 then Supervisor else User)"
    and "bit (mstatus (cpu_csr (execute_mret c))) n \<longleftrightarrow>
      (if n = 11 \<or> n = 12 then False else if n = 7 then True
       else if n = 3 then bit (mstatus (cpu_csr c)) 7 else bit (mstatus (cpu_csr c)) n)"
proof -
  let ?mpp = "drop_bit 11 (mstatus (cpu_csr c) AND MSTATUS_MPP)"
  have bits: "bit ?mpp n \<longleftrightarrow> n = 0 \<and> bit (mstatus (cpu_csr c)) 11 \<or> n = 1 \<and> bit (mstatus (cpu_csr c)) 12" for n
    by (auto simp: bit_drop_bit_eq bit_and_iff csr_bits)
  from two_bit_cases [OF bits] have
    "?mpp = 0 \<longleftrightarrow> \<not> bit (mstatus (cpu_csr c)) 11 \<and> \<not> bit (mstatus (cpu_csr c)) 12"
    "?mpp = 1 \<longleftrightarrow> bit (mstatus (cpu_csr c)) 11 \<and> \<not> bit (mstatus (cpu_csr c)) 12"
    by blast+
  then show "cpu_priv (execute_mret c) =
      (if bit (mstatus (cpu_csr c)) 12 then Machine
       else if bit (mstatus (cpu_csr c)) 11 then Supervisor else User)"
    by (auto simp: execute_mret_def Let_def)
  show "pc (execute_mret c) = mepc (cpu_csr c)"
    by (simp add: execute_mret_def Let_def)
  show "bit (mstatus (cpu_csr (execute_mret c))) n \<longleftrightarrow>
      (if n = 11 \<or> n = 12 then False else if n = 7 then True
       else if n = 3 then bit (mstatus (cpu_csr c)) 7 else bit (mstatus (cpu_csr c)) n)"
    by (auto simp: execute_mret_def Let_def mask_simps bit_and_iff bit_or_iff bit_not_iff
        dest: bit_imp_le_length)
qed

definition sret_legal :: "riscv_cpu \<Rightarrow> bool" where
  "sret_legal c \<longleftrightarrow> cpu_priv c = Machine \<or> cpu_priv c = Supervisor \<and> \<not> bit (mstatus (cpu_csr c)) 22"

lemma execute_sret_illegal: "\<not> sret_legal c \<Longrightarrow> execute_sret c = (False, c)"
  by (cases "cpu_priv c") (auto simp: execute_sret_def sret_legal_def Let_def mask_simps)

lemma execute_sret_state:
  assumes "sret_legal c"
  shows "fst (execute_sret c)" and "pc (snd (execute_sret c)) = sepc (cpu_csr c)"
    and "cpu_priv (snd (execute_sret c)) = (if bit (mstatus (cpu_csr c)) 8 then Supervisor else User)"
    and "bit (mstatus (cpu_csr (snd (execute_sret c)))) n \<longleftrightarrow>
      (if n = 8 then False else if n = 5 then True
       else if n = 1 then bit (mstatus (cpu_csr c)) 5 else bit (mstatus (cpu_csr c)) n)"
proof -
  have go: "\<not> cpu_priv c < Supervisor" "\<not> (cpu_priv c = Supervisor \<and> mstatus (cpu_csr c) AND MSTATUS_TSR \<noteq> 0)"
    using assms by (auto simp: sret_legal_def mask_simps)
  note def = execute_sret_def Let_def if_not_P [OF go(1)] if_not_P [OF go(2)]
  show "fst (execute_sret c)" and "pc (snd (execute_sret c)) = sepc (cpu_csr c)"
    and "cpu_priv (snd (execute_sret c)) = (if bit (mstatus (cpu_csr c)) 8 then Supervisor else User)"
    unfolding def by (simp_all add: mask_simps)
  show "bit (mstatus (cpu_csr (snd (execute_sret c)))) n \<longleftrightarrow>
      (if n = 8 then False else if n = 5 then True
       else if n = 1 then bit (mstatus (cpu_csr c)) 5 else bit (mstatus (cpu_csr c)) n)"
    unfolding def
    by (auto simp: mask_simps bit_and_iff bit_or_iff bit_not_iff dest: bit_imp_le_length)
qed

section \<open>Selection of interrupts\<close>

text \<open>An interrupt is pending, enabled, and not masked at the current privilege level.\<close>

definition takable :: "riscv_cpu \<Rightarrow> interrupt \<Rightarrow> bool" where
  "takable c irq \<longleftrightarrow>
     (let i = interrupt_code irq; csr = cpu_csr c
      in bit (mip csr) i \<and> bit (mie csr) i
         \<and> (if bit (mideleg csr) i
            then cpu_priv c = User \<or> cpu_priv c = Supervisor \<and> bit (mstatus csr) 1
            else cpu_priv c \<noteq> Machine \<or> bit (mstatus csr) 3))"

definition irq_cause :: "interrupt \<Rightarrow> u64" where
  "irq_cause irq = INTERRUPT_BIT OR of_nat (interrupt_code irq)"

lemma try_interrupt_iff:
  "try_interrupt c (mip (cpu_csr c) AND mie (cpu_csr c)) irq =
     (if takable c irq then Some (do_trap c (irq_cause irq) 0) else None)"
proof -
  have pend: "x AND push_bit i 1 = 0 \<longleftrightarrow> \<not> bit x i" for x :: u64 and i
    by (rule and_push_bit_1)
  show ?thesis
    unfolding try_interrupt_def Let_def and_1_iff pend takable_def irq_cause_def
    by (cases "cpu_priv c") (simp_all add: mask_simps bit_and_iff)
qed

lemma try_interrupts_find:
  "try_interrupts c (mip (cpu_csr c) AND mie (cpu_csr c)) irqs =
     (case find (takable c) irqs of
        None \<Rightarrow> (False, c)
      | Some irq \<Rightarrow> (True, do_trap c (irq_cause irq) 0))"
  by (induction irqs) (simp_all add: try_interrupt_iff)

lemma cpu_handle_interrupt_find:
  "cpu_handle_interrupt c =
     (case find (takable c) INT_PRIORITY of
        None \<Rightarrow> (False, c)
      | Some irq \<Rightarrow> (True, do_trap c (irq_cause irq) 0))"
proof (cases "mip (cpu_csr c) AND mie (cpu_csr c) = 0")
  case True
  have "\<not> takable c irq" for irq
  proof
    assume "takable c irq"
    then have "bit (mip (cpu_csr c) AND mie (cpu_csr c)) (interrupt_code irq)"
      by (simp add: takable_def Let_def bit_and_iff)
    with True show False by simp
  qed
  then have "find (takable c) INT_PRIORITY = None"
    by (simp add: find_None_iff)
  with True show ?thesis
    by (simp add: cpu_handle_interrupt_def)
next
  case False
  then show ?thesis
    by (simp add: cpu_handle_interrupt_def try_interrupts_find)
qed

section \<open>Well-formed harts\<close>

definition cpu_wf :: "riscv_cpu \<Rightarrow> bool" where
  "cpu_wf c \<longleftrightarrow> csr_wf (cpu_csr c) \<and> \<not> bit (pc c) 0 \<and> mmu_wf (cpu_mmu c)
     \<and> length (cpu_pmp c) = PMP_COUNT \<and> length (gpr c) = 32 \<and> length (fpr c) = 32"

lemma csr_wf_frame:
  assumes "csr_wf c" and "within s MSTATUS_WRITE_MASK"
  shows "csr_wf (c\<lparr>mstatus := s\<rparr>)"
  using assms by (simp add: csr_wf_def)

lemma csr_wf_trap_regs:
  assumes "csr_wf c" and "\<not> bit e 0"
  shows "csr_wf (c\<lparr>sepc := e, scause := x, stval := y\<rparr>)" "csr_wf (c\<lparr>mepc := e, mcause := x, mtval := y\<rparr>)"
proof -
  have "within e (NOT 1)"
    using assms(2) by (auto simp: within_iff bit_not_iff bit_1_iff dest: bit_imp_le_length intro: gr0I)
  then show "csr_wf (c\<lparr>sepc := e, scause := x, stval := y\<rparr>)" "csr_wf (c\<lparr>mepc := e, mcause := x, mtval := y\<rparr>)"
    using assms(1) by (simp_all add: csr_wf_def)
qed

lemma status_mask_bits: "bit MSTATUS_WRITE_MASK n \<longleftrightarrow> n \<in> {1, 3, 5, 7, 8, 11, 12, 13, 14, 17, 18, 19, 20, 21, 22}"
  by (auto simp: MSTATUS_WRITE_MASK_def bit_or_iff csr_bits)

lemma within_status:
  assumes "\<And>n. bit s' n \<Longrightarrow> bit s n \<or> n \<in> {1, 3, 5, 7, 8, 11, 12}" and "within s MSTATUS_WRITE_MASK"
  shows "within s' MSTATUS_WRITE_MASK"
  using assms unfolding within_iff status_mask_bits by blast

lemma tvec_even: "\<not> bit (tvec_addr tvec cause i) 0"
proof -
  define base where "base = tvec AND NOT 0x3"
  have "\<not> bit base 0"
    unfolding base_def bit_and_iff bit_not_iff by simp
  then have "even base"
    by (simp add: bit_0)
  then show ?thesis
    unfolding tvec_addr_def Let_def base_def [symmetric] by (simp add: bit_0)
qed

lemma wf_epc:
  assumes "cpu_wf c"
  shows "\<not> bit (mepc (cpu_csr c)) 0" "\<not> bit (sepc (cpu_csr c)) 0" "within (mstatus (cpu_csr c)) MSTATUS_WRITE_MASK"
  using assms by (auto simp: cpu_wf_def csr_wf_def within_iff bit_not_iff bit_1_iff)

lemma do_trap_frame:
  "gpr (do_trap c cause tval) = gpr c" "fpr (do_trap c cause tval) = fpr c"
  "cpu_pmp (do_trap c cause tval) = cpu_pmp c" "cpu_mmu (do_trap c cause tval) = flush (cpu_mmu c)"
  "load_res (do_trap c cause tval) = - 1" "cpu_profile (do_trap c cause tval) = cpu_profile c"
  by (simp_all add: do_trap_def Let_def)

lemma do_trap_csr:
  "cpu_csr (do_trap c cause tval) =
     (if trap_delegated c cause then (cpu_csr c)\<lparr>sepc := pc c, scause := cause, stval := tval\<rparr>
      else (cpu_csr c)\<lparr>mepc := pc c, mcause := cause, mtval := tval\<rparr>)
     \<lparr>mstatus := mstatus (cpu_csr (do_trap c cause tval))\<rparr>"
proof -
  have deleg: "(drop_bit (unat (cause AND NOT INTERRUPT_BIT) mod 64)
      (if cause AND INTERRUPT_BIT \<noteq> 0 then mideleg (cpu_csr c) else medeleg (cpu_csr c)) AND 1 \<noteq> 0
      \<and> cpu_priv c < Machine) = trap_delegated c cause"
    unfolding trap_delegated_def and_1_iff by (auto simp: mask_simps)
  show ?thesis
    unfolding do_trap_def Let_def deleg by (cases "trap_delegated c cause") simp_all
qed

lemma do_trap_wf:
  assumes "cpu_wf c"
  shows "cpu_wf (do_trap c cause tval)"
proof -
  have odd: "\<not> bit (pc c) 0" and csr: "csr_wf (cpu_csr c)"
    using assms by (simp_all add: cpu_wf_def)
  have "within (mstatus (cpu_csr (do_trap c cause tval))) MSTATUS_WRITE_MASK"
    using wf_epc(3) [OF assms] do_trap_delegated(6) [of c cause tval] do_trap_machine(6) [of c cause tval]
    by (cases "trap_delegated c cause") (rule within_status; auto split: if_splits)+
  then have "csr_wf (cpu_csr (do_trap c cause tval))"
    using csr_wf_trap_regs [OF csr odd] by (subst do_trap_csr) (simp add: csr_wf_frame)
  moreover have "\<not> bit (pc (do_trap c cause tval)) 0"
    using do_trap_delegated(2) [of c cause tval] do_trap_machine(2) [of c cause tval] tvec_even
    by (cases "trap_delegated c cause") simp_all
  ultimately show ?thesis
    using assms by (simp add: cpu_wf_def do_trap_frame)
qed

lemma execute_mret_wf:
  assumes "cpu_wf c"
  shows "cpu_wf (execute_mret c)"
proof -
  have "within (mstatus (cpu_csr (execute_mret c))) MSTATUS_WRITE_MASK"
    using wf_epc(3) [OF assms] by (rule within_status [rotated]) (auto simp: execute_mret_state split: if_splits)
  then have "csr_wf ((cpu_csr c)\<lparr>mstatus := mstatus (cpu_csr (execute_mret c))\<rparr>)"
    using assms by (simp add: cpu_wf_def csr_wf_frame)
  moreover have "cpu_csr (execute_mret c) = (cpu_csr c)\<lparr>mstatus := mstatus (cpu_csr (execute_mret c))\<rparr>"
    by (simp add: execute_mret_def Let_def)
  moreover have "gpr (execute_mret c) = gpr c" "fpr (execute_mret c) = fpr c"
      "cpu_pmp (execute_mret c) = cpu_pmp c" "cpu_mmu (execute_mret c) = flush (cpu_mmu c)"
    by (simp_all add: execute_mret_def Let_def)
  ultimately show ?thesis
    using assms wf_epc(1) [OF assms] by (simp add: cpu_wf_def execute_mret_state)
qed

lemma execute_sret_wf:
  assumes "cpu_wf c"
  shows "cpu_wf (snd (execute_sret c))"
proof (cases "sret_legal c")
  case True
  let ?c' = "snd (execute_sret c)"
  note st = execute_sret_state [OF True]
  have "within (mstatus (cpu_csr ?c')) MSTATUS_WRITE_MASK"
    using wf_epc(3) [OF assms] by (rule within_status [rotated]) (auto simp: st split: if_splits)
  then have "csr_wf ((cpu_csr c)\<lparr>mstatus := mstatus (cpu_csr ?c')\<rparr>)"
    using assms by (simp add: cpu_wf_def csr_wf_frame)
  moreover have "cpu_csr ?c' = (cpu_csr c)\<lparr>mstatus := mstatus (cpu_csr ?c')\<rparr>"
    by (simp add: execute_sret_def Let_def)
  moreover have "gpr ?c' = gpr c" "fpr ?c' = fpr c" "cpu_pmp ?c' = cpu_pmp c"
      "mmu_wf (cpu_mmu ?c')"
    using assms by (simp_all add: execute_sret_def Let_def cpu_wf_def)
  ultimately show ?thesis
    using assms wf_epc(2) [OF assms] by (simp add: cpu_wf_def st)
next
  case False
  then show ?thesis
    using assms by (simp add: execute_sret_illegal)
qed

lemma new_with_model_wf: "cpu_wf (new_with_model model)"
proof -
  have "csr_wf (set_max_satp_mode (set_machine_ids csr_new x y) z)" for x y z
    using csr_wf_new by (simp add: csr_wf_def set_max_satp_mode_def set_machine_ids_def csr_new_def)
  moreover have "mmu_wf (configure_profile mmu_new w b d e)" for w b d e
    using mmu_wf_new by (simp add: mmu_wf_def configure_profile_def)
  ultimately show ?thesis
    by (simp add: cpu_wf_def new_with_model_def Let_def pmp_new_def)
qed

lemma irq_cause_bits: "bit (irq_cause irq) 63" "unat (irq_cause irq AND NOT INTERRUPT_BIT) = interrupt_code irq"
  by (cases irq; simp add: irq_cause_def INTERRUPT_BIT_def bit_or_iff)+

lemma irq_delegated:
  assumes "takable c irq"
  shows "trap_delegated c (irq_cause irq) \<longleftrightarrow> bit (mideleg (cpu_csr c)) (interrupt_code irq)"
proof -
  have "interrupt_code irq mod 64 = interrupt_code irq"
    by (cases irq) simp_all
  then show ?thesis
    using assms by (auto simp: trap_delegated_def irq_cause_bits takable_def Let_def split: if_splits)
qed

section \<open>Properties\<close>

text \<open>
  C8: A trap goes to supervisor mode exactly when its cause is delegated and the hart is below
  machine mode, and to machine mode otherwise, so it never lowers the privilege level. It saves
  the program counter, the cause and the trap value in the registers of the target mode,
  disables that mode's interrupts, and drops the LR reservation.
\<close>
theorem trap_entry:
  "let c' = do_trap c cause tval; s = trap_delegated c cause
   in cpu_priv c' = (if s then Supervisor else Machine) \<and> cpu_priv c \<le> cpu_priv c'
      \<and> (if s then sepc (cpu_csr c') else mepc (cpu_csr c')) = pc c
      \<and> (if s then scause (cpu_csr c') else mcause (cpu_csr c')) = cause
      \<and> (if s then stval (cpu_csr c') else mtval (cpu_csr c')) = tval
      \<and> \<not> bit (mstatus (cpu_csr c')) (if s then 1 else 3) \<and> load_res c' = - 1"
proof (cases "trap_delegated c cause")
  case True
  then show ?thesis
    using do_trap_delegated [OF True, of tval]
    by (simp add: Let_def do_trap_frame trap_delegated_def)
next
  case False
  then show ?thesis
    using do_trap_machine [OF False, of tval] by (simp add: Let_def do_trap_frame)
qed

text \<open>
  C33: \<open>mret\<close> undoes a trap to machine mode: it restores the privilege level, the program counter
  and every bit of \<open>mstatus\<close> but MPIE and MPP, the interrupt enable included.
\<close>
theorem mret_after_trap:
  assumes "\<not> trap_delegated c cause"
  shows "cpu_priv (execute_mret (do_trap c cause tval)) = cpu_priv c
     \<and> pc (execute_mret (do_trap c cause tval)) = pc c
     \<and> (\<forall>n. n \<notin> {7, 11, 12} \<longrightarrow>
          bit (mstatus (cpu_csr (execute_mret (do_trap c cause tval)))) n = bit (mstatus (cpu_csr c)) n)"
  using do_trap_machine [OF assms, of tval]
  by (cases "cpu_priv c") (auto simp: execute_mret_state)

theorem mret_after_trap_witness:
  "cpu_priv (execute_mret (do_trap ((new_with_model GenericRv64)\<lparr>cpu_priv := User\<rparr>) 2 7)) = User"
  using mret_after_trap [of "(new_with_model GenericRv64)\<lparr>cpu_priv := User\<rparr>" 2 7]
  by (simp add: trap_delegated_def new_with_model_def Let_def set_max_satp_mode_def set_machine_ids_def
      csr_new_def)


definition demo_user_cpu :: riscv_cpu where
  "demo_user_cpu = (new_with_model GenericRv64)\<lparr>cpu_priv := User, cpu_csr := csr_new\<lparr>medeleg := 0x100\<rparr>\<rparr>"


text \<open>
  C9: An interrupt is taken exactly when some interrupt is pending, enabled and unmasked at the
  current privilege level, and then it is the first such one in the order MEI, MSI, MTI, SEI,
  SSI, STI; it traps to supervisor mode if it is delegated and to machine mode otherwise. With
  none takable the hart is unchanged.
\<close>
theorem interrupt_selection:
  "case find (takable c) INT_PRIORITY of
     None \<Rightarrow> cpu_handle_interrupt c = (False, c)
   | Some irq \<Rightarrow> cpu_handle_interrupt c = (True, do_trap c (irq_cause irq) 0)
       \<and> cpu_priv (do_trap c (irq_cause irq) 0) =
           (if bit (mideleg (cpu_csr c)) (interrupt_code irq) then Supervisor else Machine)"
proof (cases "find (takable c) INT_PRIORITY")
  case None
  then show ?thesis by (simp add: cpu_handle_interrupt_find)
next
  case (Some irq)
  then have "takable c irq"
    by (auto simp: find_Some_iff)
  then show ?thesis
    using Some do_trap_delegated(1) [of c "irq_cause irq" 0] do_trap_machine(1) [of c "irq_cause irq" 0]
    by (simp add: cpu_handle_interrupt_find irq_delegated)
qed

end
