(* ===== verification/Wfi.thy ===== *)
theory Wfi
  imports Machina_Prelude
begin

text \<open>
  The wakeup primitive of a halted hart (\<open>core/src/wfi.rs\<close>). Its state is guarded by one mutex, so
  every method is one atomic step on the record below; \<open>wait\<close> is a loop whose iterations hold
  the mutex and whose condition-variable waits release it. The interleaving of one waiting hart
  with the threads that wake it is a step relation. Time is a natural number.
\<close>

section \<open>State and operations\<close>

record wfi_state =
  irq_pending :: bool
  stopped :: bool
  monitor_wake_flag :: bool
  deadline :: "nat option"

definition wfi_new :: wfi_state where
  "wfi_new = \<lparr>irq_pending = False, stopped = False, monitor_wake_flag = False, deadline = None\<rparr>"

definition wake :: "wfi_state \<Rightarrow> wfi_state" where
  "wake s = s\<lparr>irq_pending := True\<rparr>"

definition monitor_wake :: "wfi_state \<Rightarrow> wfi_state" where
  "monitor_wake s = s\<lparr>monitor_wake_flag := True\<rparr>"

definition clear_monitor_wake :: "wfi_state \<Rightarrow> wfi_state" where
  "clear_monitor_wake s = s\<lparr>monitor_wake_flag := False\<rparr>"

definition wfi_stop :: "wfi_state \<Rightarrow> wfi_state" where
  "wfi_stop s = s\<lparr>stopped := True\<rparr>"

definition set_deadline :: "nat \<Rightarrow> wfi_state \<Rightarrow> wfi_state" where
  "set_deadline d s = s\<lparr>deadline := Some d\<rparr>"

definition clear_deadline :: "wfi_state \<Rightarrow> wfi_state" where
  "clear_deadline s = s\<lparr>deadline := None\<rparr>"

text \<open>
  One iteration of the loop of \<open>wait\<close> up to the point where it returns or blocks: \<open>Done\<close> is the
  returned value, \<open>Block None\<close> an untimed wait and \<open>Block (Some d)\<close> a wait that times out at \<open>d\<close>.
\<close>

datatype wait_result = Done bool | Block "nat option"

definition wait_iter :: "nat \<Rightarrow> wfi_state \<Rightarrow> wait_result \<times> wfi_state" where
  "wait_iter now s =
     (if irq_pending s then (Done True, s\<lparr>irq_pending := False\<rparr>)
      else if stopped s then (Done False, s)
      else if monitor_wake_flag s then (Done True, s\<lparr>monitor_wake_flag := False\<rparr>)
      else case deadline s of
             Some d \<Rightarrow> if now \<ge> d then (Done True, s\<lparr>deadline := None\<rparr>) else (Block (Some d), s)
           | None \<Rightarrow> (Block None, s))"

text \<open>The return after a timed wait that ran out.\<close>

definition wait_timed_out :: "wfi_state \<Rightarrow> bool \<times> wfi_state" where
  "wait_timed_out s = (True, s\<lparr>deadline := None\<rparr>)"

section \<open>One waiting hart among the other threads\<close>

text \<open>
  The waiter runs an iteration (\<open>Running\<close>), sleeps on the condition variable with the timeout it
  computed (\<open>Sleeping t n\<close>, where \<open>n\<close> records a notification it has not yet acted on), or has
  returned. \<open>notify_all\<close> reaches a sleeping waiter only; a sleeper may also wake spuriously.
\<close>

datatype waiter = Running | Sleeping "nat option" bool | Returned_wait bool

record wfi_system =
  sys_state :: wfi_state
  sys_waiter :: waiter
  sys_now :: nat

definition notify_all :: "waiter \<Rightarrow> waiter" where
  "notify_all w = (case w of Sleeping t _ \<Rightarrow> Sleeping t True | _ \<Rightarrow> w)"

definition signal :: "(wfi_state \<Rightarrow> wfi_state) \<Rightarrow> wfi_system \<Rightarrow> wfi_system" where
  "signal f y = y\<lparr>sys_state := f (sys_state y), sys_waiter := notify_all (sys_waiter y)\<rparr>"

definition waiter_of :: "wait_result \<Rightarrow> waiter" where
  "waiter_of r = (case r of Done b \<Rightarrow> Returned_wait b | Block t \<Rightarrow> Sleeping t False)"

inductive wfi_step :: "wfi_system \<Rightarrow> wfi_system \<Rightarrow> bool" where
  step_wake: "wfi_step y (signal wake y)"
| step_monitor: "wfi_step y (signal monitor_wake y)"
| step_stop: "wfi_step y (signal wfi_stop y)"
| step_set_deadline: "wfi_step y (signal (set_deadline d) y)"
| step_clear_monitor: "wfi_step y (y\<lparr>sys_state := clear_monitor_wake (sys_state y)\<rparr>)"
| step_clear_deadline: "wfi_step y (y\<lparr>sys_state := clear_deadline (sys_state y)\<rparr>)"
| step_tick: "wfi_step y (y\<lparr>sys_now := Suc (sys_now y)\<rparr>)"
| step_call: "sys_waiter y = Returned_wait b \<Longrightarrow> wfi_step y (y\<lparr>sys_waiter := Running\<rparr>)"
| step_iter: "sys_waiter y = Running \<Longrightarrow> wait_iter (sys_now y) (sys_state y) = (r, s) \<Longrightarrow>
    wfi_step y (y\<lparr>sys_state := s, sys_waiter := waiter_of r\<rparr>)"
| step_resume: "sys_waiter y = Sleeping t n \<Longrightarrow> wfi_step y (y\<lparr>sys_waiter := Running\<rparr>)"
| step_timeout: "sys_waiter y = Sleeping (Some t) n \<Longrightarrow> sys_now y \<ge> t \<Longrightarrow>
    wait_timed_out (sys_state y) = (b, s) \<Longrightarrow> wfi_step y (y\<lparr>sys_state := s, sys_waiter := Returned_wait b\<rparr>)"

definition wfi_init :: wfi_system where
  "wfi_init = \<lparr>sys_state = wfi_new, sys_waiter = Running, sys_now = 0\<rparr>"

text \<open>A reason to return is never left with a sleeper that has not been notified.\<close>

definition wake_reason :: "wfi_state \<Rightarrow> bool" where
  "wake_reason s \<longleftrightarrow> irq_pending s \<or> stopped s \<or> monitor_wake_flag s"

definition no_lost_wakeup :: "wfi_system \<Rightarrow> bool" where
  "no_lost_wakeup y \<longleftrightarrow> (case sys_waiter y of Sleeping t n \<Rightarrow> wake_reason (sys_state y) \<longrightarrow> n | _ \<Rightarrow> True)"

lemma wait_iter_reason:
  assumes "wait_iter now s = (r, s')"
  shows "(\<exists>t. r = Block t) \<longleftrightarrow> \<not> wake_reason s \<and> (\<forall>d. deadline s = Some d \<longrightarrow> now < d)"
    and "r = Block t \<Longrightarrow> s' = s \<and> t = deadline s"
  using assms by (auto simp: wait_iter_def wake_reason_def split: if_splits option.splits)

lemma no_lost_wakeup_step:
  assumes "wfi_step y y'" and "no_lost_wakeup y"
  shows "no_lost_wakeup y'"
  using assms
proof cases
  case (step_iter r s)
  then show ?thesis
    using wait_iter_reason [OF step_iter(3)]
    by (auto simp: no_lost_wakeup_def waiter_of_def split: wait_result.split)
qed (auto simp: no_lost_wakeup_def signal_def notify_all_def wake_reason_def wfi_stop_def set_deadline_def
      clear_monitor_wake_def clear_deadline_def split: waiter.splits)

lemma no_lost_wakeup_reachable: "wfi_step\<^sup>*\<^sup>* wfi_init y \<Longrightarrow> no_lost_wakeup y"
  by (induction rule: rtranclp_induct)
     (simp add: no_lost_wakeup_def wfi_init_def, erule (1) no_lost_wakeup_step)



end
