(* ===== verification/Full_System.thy ===== *)
theory Full_System
  imports Riscv_Cpu Address_Space Wfi
begin

text \<open>
  The full-system CPU (\<open>system/src/cpus.rs\<close>): the bridge between the execution loop and the hart,
  and the helpers that translated code calls for memory accesses, LR/SC, atomic operations and
  CSR instructions. The state holds the hart, the RAM and MROM behind its raw pointers, the
  address space it dispatches MMIO to, the code-page bitmap, and the interrupt lines shared with
  the devices. A helper that leaves the translated block by \<open>longjmp\<close> has the outcome \<open>LoopExit\<close>.
\<close>

section \<open>State\<close>

record 'd full_system =
  fs_cpu :: riscv_cpu
  fs_ram :: nat
  fs_ram_size :: u64
  fs_mrom :: "nat option"
  fs_mrom_base :: u64
  fs_mrom_size :: u64
  fs_shared_mip :: u64
  fs_wfi :: wfi_state
  fs_stop_flag :: bool
  fs_htif_tohost_off :: "u64 option"
  fs_htif_exit_code :: u64
  fs_builtin_mode :: bool
  fs_instret_write_suppression :: bool
  fs_asp :: address_space
  fs_bk :: "'d backing"
  fs_code_pages :: "u8 list"

text \<open>What a helper hands back to translated code, or that it does not return to it.\<close>

datatype outcome = Returned u64 | LoopExit | Panicked

definition effective_data_priv :: "priv_level \<Rightarrow> u64 \<Rightarrow> priv_level" where
  "effective_data_priv p status =
     (if p = Machine \<and> status AND MSTATUS_MPRV \<noteq> 0 then
        let mpp = drop_bit 11 (status AND MSTATUS_MPP)
        in if mpp = 0 then User else if mpp = 1 then Supervisor else Machine
      else p)"

definition should_flush_data_tlb_on_status_write :: "u16 \<Rightarrow> bool" where
  "should_flush_data_tlb_on_status_write csr_addr \<longleftrightarrow> csr_addr = CSR_MSTATUS \<or> csr_addr = CSR_SSTATUS"

definition writes_instret_counter :: "u16 \<Rightarrow> u32 \<Rightarrow> nat \<Rightarrow> bool" where
  "writes_instret_counter csr_addr funct3 rs1_idx =
     (let writes = (if funct3 = 1 \<or> funct3 = 5 then True
                    else if funct3 \<in> {2, 3, 6, 7} then rs1_idx \<noteq> 0 else False)
      in writes \<and> csr_addr \<in> {CSR_INSTRET, CSR_MINSTRET, 0xB82})"

section \<open>Construction and configuration\<close>

text \<open>
  The RAM block and the host address of its first byte stand for \<open>ram_ptr\<close>; the address space and
  the blocks behind the raw pointers are part of the state.
\<close>

definition fs_new :: "riscv_cpu \<Rightarrow> nat \<Rightarrow> u64 \<Rightarrow> u64 \<Rightarrow> u64 \<Rightarrow> u64 \<Rightarrow> address_space \<Rightarrow> 'd backing \<Rightarrow> u64 \<Rightarrow>
    wfi_state \<Rightarrow> bool \<Rightarrow> 'd full_system" where
  "fs_new c ram host ram_base' ram_size asp_ptr asp bk shared wfi running =
     \<lparr>fs_cpu = c\<lparr>guest_base := host - ram_base', as_ptr := asp_ptr, ram_base := ram_base',
                ram_end := ram_base' + ram_size\<rparr>,
      fs_ram = ram, fs_ram_size = ram_size, fs_mrom = None, fs_mrom_base = 0, fs_mrom_size = 0,
      fs_shared_mip = shared, fs_wfi = wfi, fs_stop_flag = running, fs_htif_tohost_off = None,
      fs_htif_exit_code = 0, fs_builtin_mode = False, fs_instret_write_suppression = False,
      fs_asp = asp, fs_bk = bk, fs_code_pages = []\<rparr>"

definition set_htif_tohost :: "'d full_system \<Rightarrow> u64 \<Rightarrow> 'd full_system" where
  "set_htif_tohost fs gpa =
     (let off = gpa - ram_base (fs_cpu fs)
      in if off < fs_ram_size fs then fs\<lparr>fs_htif_tohost_off := Some off\<rparr> else fs)"

definition set_code_pages :: "'d full_system \<Rightarrow> u64 \<Rightarrow> u64 \<Rightarrow> 'd full_system" where
  "set_code_pages fs ptr len = fs\<lparr>fs_cpu := (fs_cpu fs)\<lparr>code_pages_ptr := ptr, code_pages_len := len\<rparr>\<rparr>"

definition set_mrom :: "'d full_system \<Rightarrow> nat option \<Rightarrow> u64 \<Rightarrow> u64 \<Rightarrow> 'd full_system" where
  "set_mrom fs block base sz = fs\<lparr>fs_mrom := block, fs_mrom_base := base, fs_mrom_size := sz\<rparr>"

section \<open>Physical memory\<close>

text \<open>
  RAM is reached through \<open>guest_base + pa\<close>, a host pointer to byte \<open>pa - ram_base\<close> of the RAM
  block. An access past the block is \<open>OutOfBounds\<close>.
\<close>

definition in_ram_window :: "riscv_cpu \<Rightarrow> u64 \<Rightarrow> bool" where
  "in_ram_window c pa \<longleftrightarrow> pa \<ge> ram_base c \<and> pa < ram_end c"

definition read_phys_sized :: "'d mmio_ops \<Rightarrow> 'd full_system \<Rightarrow> u64 \<Rightarrow> u32 \<Rightarrow>
    mem_error + (u64 \<times> 'd full_system)" where
  "read_phys_sized ops fs pa sz =
     (if in_ram_window (fs_cpu fs) pa then
        if sz \<in> {1, 2, 4, 8} then
          case load_bytes (bk_block (fs_bk fs) (fs_ram fs)) (unat (pa - ram_base (fs_cpu fs))) (unat sz) of
            None \<Rightarrow> Err OutOfBounds
          | Some bs \<Rightarrow> Ok (from_le_bytes bs, fs)
        else Ok (0, fs)
      else if as_ptr (fs_cpu fs) \<noteq> 0 then
        res_bind (as_read ops (fs_asp fs) (fs_bk fs) pa sz) (\<lambda>(v, bk). Ok (v, fs\<lparr>fs_bk := bk\<rparr>))
      else Ok (0, fs))"

text \<open>The code-page check of a RAM store.\<close>

definition track_dirty :: "u8 list \<Rightarrow> riscv_cpu \<Rightarrow> u64 \<Rightarrow> riscv_cpu" where
  "track_dirty bitmap c pa =
     (if code_pages_ptr c \<noteq> 0 then
        let page = drop_bit 12 pa
        in if unat page < unat (code_pages_len c) \<and> bitmap ! unat page \<noteq> 0 \<and> page \<notin> set (dirty_pages c)
           then c\<lparr>dirty_pages := dirty_pages c @ [page]\<rparr> else c
      else c)"

definition write_phys_sized :: "'d mmio_ops \<Rightarrow> 'd full_system \<Rightarrow> u64 \<Rightarrow> u64 \<Rightarrow> u32 \<Rightarrow>
    mem_error + 'd full_system" where
  "write_phys_sized ops fs pa val sz =
     (if in_ram_window (fs_cpu fs) pa then
        let track = (\<lambda>fs. fs\<lparr>fs_cpu := track_dirty (fs_code_pages fs) (fs_cpu fs) pa\<rparr>);
            blocks = bk_block (fs_bk fs)
        in if sz \<in> {1, 2, 4, 8} then
             case store_bytes (blocks (fs_ram fs)) (unat (pa - ram_base (fs_cpu fs)))
                    (to_le_bytes (unat sz) val) of
               None \<Rightarrow> Err OutOfBounds
             | Some bs \<Rightarrow> Ok (track (fs\<lparr>fs_bk := (fs_bk fs)\<lparr>bk_block := blocks(fs_ram fs := bs)\<rparr>\<rparr>))
           else Ok (track fs)
      else if as_ptr (fs_cpu fs) \<noteq> 0 then
        res_bind (as_write ops (fs_asp fs) (fs_bk fs) pa sz val) (\<lambda>bk. Ok (fs\<lparr>fs_bk := bk\<rparr>))
      else Ok fs)"

definition is_phys_backed :: "'d full_system \<Rightarrow> u64 \<Rightarrow> u32 \<Rightarrow> bool" where
  "is_phys_backed fs pa sz =
     (let c = fs_cpu fs
      in if pa \<ge> ram_base c \<and> unat pa + unat sz < 2 ^ 64 \<and> pa + ucast sz \<le> ram_end c then True
         else if as_ptr c = 0 then False
         else is_mapped (fs_asp fs) pa sz)"

text \<open>
  The closures of the page-table walk. \<open>mem_read\<close> has the type \<open>Fn(u64) -> u64\<close>: the walk sees
  the value that a physical read returns.
\<close>

definition walk_read :: "'d mmio_ops \<Rightarrow> 'd full_system \<Rightarrow> u64 \<Rightarrow> u64" where
  "walk_read ops fs pa = (case read_phys_sized ops fs pa 8 of Inr (v, _) \<Rightarrow> v | Inl _ \<Rightarrow> 0)"

fun walk_writes :: "'d mmio_ops \<Rightarrow> 'd full_system \<Rightarrow> (u64 \<times> u64) list \<Rightarrow> mem_error + 'd full_system" where
  "walk_writes ops fs [] = Ok fs"
| "walk_writes ops fs ((pa, val) # ws) =
     res_bind (write_phys_sized ops fs pa val 8) (\<lambda>fs'. walk_writes ops fs' ws)"

section \<open>Address translation for the helpers\<close>

definition latch_fault :: "riscv_cpu \<Rightarrow> u64 \<Rightarrow> u64 \<Rightarrow> riscv_cpu" where
  "latch_fault c cause tval = c\<lparr>mem_fault_cause := cause, mem_fault_tval := tval\<rparr>"

definition bare_fault_code :: "exception \<Rightarrow> u64" where
  "bare_fault_code e =
     (case e of LoadAccessFault \<Rightarrow> 5 | StoreAccessFault \<Rightarrow> 7 | InstructionAccessFault \<Rightarrow> 1 | _ \<Rightarrow> 5)"

definition paged_fault_code :: "exception \<Rightarrow> u64" where
  "paged_fault_code e =
     (case e of LoadPageFault \<Rightarrow> 13 | StorePageFault \<Rightarrow> 15 | InstructionPageFault \<Rightarrow> 12
      | LoadAccessFault \<Rightarrow> 5 | StoreAccessFault \<Rightarrow> 7 | InstructionAccessFault \<Rightarrow> 1 | _ \<Rightarrow> 5)"

text \<open>The host addend of a RAM page, or the MMIO sentinel.\<close>

definition page_addend :: "riscv_cpu \<Rightarrow> u64 \<Rightarrow> u64 \<Rightarrow> u64" where
  "page_addend c gva pa =
     (if in_ram_window c pa then guest_base c + (pa AND PAGE_MASK) - (gva AND PAGE_MASK)
      else TLB_MMIO_ADDEND)"

text \<open>
  A paged translation shared by the data helpers and the fetch path: the walk, its page-table
  writes, and the addend of the refilled entry.
\<close>

definition paged_translate :: "'d mmio_ops \<Rightarrow> 'd full_system \<Rightarrow> u64 \<Rightarrow> access_type \<Rightarrow> priv_level \<Rightarrow>
    u64 \<Rightarrow> mem_error + ((exception + u64) \<times> 'd full_system)" where
  "paged_translate ops fs gva access p sz =
     (let c = fs_cpu fs;
          (res, m', writes) = translate_miss (cpu_mmu c) gva access p (mstatus (cpu_csr c)) sz
             (Some (cpu_pmp c)) (walk_read ops fs)
      in res_bind (walk_writes ops fs writes) (\<lambda>fs'.
           let c' = (fs_cpu fs')\<lparr>cpu_mmu := m'\<rparr>
           in case res of
                Inr pa \<Rightarrow> Ok (Ok pa, fs'\<lparr>fs_cpu := c'\<lparr>cpu_mmu := fill_addend m' gva (page_addend c' gva pa)\<rparr>\<rparr>)
              | Inl e \<Rightarrow> Ok (Err e, fs'\<lparr>fs_cpu := c'\<rparr>)))"

definition translate_for_helper :: "'d mmio_ops \<Rightarrow> 'd full_system \<Rightarrow> u64 \<Rightarrow> access_type \<Rightarrow> u32 \<Rightarrow>
    mem_error + (u64 option \<times> 'd full_system)" where
  "translate_for_helper ops fs gva access sz =
     (let c = fs_cpu fs;
          eff_priv = effective_data_priv (cpu_priv c) (mstatus (cpu_csr c));
          mode = (if eff_priv = Machine then 0 else satp_mode (cpu_mmu c))
      in if mode = 0 then
           case check_access (cpu_pmp c) gva (ucast sz) access eff_priv of
             Inl e \<Rightarrow> Ok (None, fs\<lparr>fs_cpu := latch_fault c (bare_fault_code e) gva\<rparr>)
           | Inr _ \<Rightarrow>
             let ad = (if in_ram_window c gva then guest_base c else TLB_MMIO_ADDEND)
             in Ok (Some gva, fs\<lparr>fs_cpu := c\<lparr>cpu_mmu := fill_identity (cpu_mmu c) gva ad\<rparr>\<rparr>)
         else
           res_bind (paged_translate ops fs gva access eff_priv (ucast sz)) (\<lambda>(res, fs').
             case res of
               Inr pa \<Rightarrow> Ok (Some pa, fs')
             | Inl e \<Rightarrow> Ok (None, fs'\<lparr>fs_cpu := latch_fault (fs_cpu fs') (paged_fault_code e) gva\<rparr>)))"

section \<open>Loads and stores\<close>

definition machina_mem_read :: "'d mmio_ops \<Rightarrow> 'd full_system \<Rightarrow> u64 \<Rightarrow> u32 \<Rightarrow>
    mem_error + (u64 \<times> 'd full_system)" where
  "machina_mem_read ops fs gva sz =
     res_bind (translate_for_helper ops fs gva Read sz) (\<lambda>(tr, fs1).
       case tr of
         Some pa \<Rightarrow>
           if \<not> is_phys_backed fs1 pa sz then Ok (0, fs1\<lparr>fs_cpu := latch_fault (fs_cpu fs1) 5 gva\<rparr>)
           else read_phys_sized ops fs1 pa sz
       | None \<Rightarrow> Ok (0, fs1))"

definition machina_mem_write :: "'d mmio_ops \<Rightarrow> 'd full_system \<Rightarrow> u64 \<Rightarrow> u64 \<Rightarrow> u32 \<Rightarrow>
    mem_error + 'd full_system" where
  "machina_mem_write ops fs gva val sz =
     res_bind (translate_for_helper ops fs gva Write sz) (\<lambda>(tr, fs1).
       case tr of
         Some pa \<Rightarrow>
           if \<not> is_phys_backed fs1 pa sz then Ok (fs1\<lparr>fs_cpu := latch_fault (fs_cpu fs1) 7 gva\<rparr>)
           else write_phys_sized ops fs1 pa val sz
       | None \<Rightarrow> Ok fs1)"

section \<open>Load-reserved and store-conditional\<close>

definition cpu_loop_exit :: "riscv_cpu \<Rightarrow> outcome" where
  "cpu_loop_exit c = (if jmp_env c \<noteq> 0 then LoopExit else Panicked)"

text \<open>Deliver an exception and leave the block.\<close>

definition exit_with :: "'d full_system \<Rightarrow> exception \<Rightarrow> u64 \<Rightarrow> outcome \<times> 'd full_system" where
  "exit_with fs e tval =
     (let c = raise_exception (fs_cpu fs) e tval in (cpu_loop_exit c, fs\<lparr>fs_cpu := c\<rparr>))"

definition clear_fault :: "riscv_cpu \<Rightarrow> riscv_cpu" where
  "clear_fault c = c\<lparr>mem_fault_cause := 0, mem_fault_tval := 0\<rparr>"

definition load_fault :: "u64 \<Rightarrow> exception" where
  "load_fault cause = (if cause = 5 then LoadAccessFault else LoadPageFault)"

definition store_fault :: "u64 \<Rightarrow> exception" where
  "store_fault cause = (if cause = 7 then StoreAccessFault else StorePageFault)"

text \<open>\<open>v as u32 as i32 as i64 as u64\<close>.\<close>

definition sext32 :: "u64 \<Rightarrow> u64" where
  "sext32 v = scast (ucast v :: u32)"

definition read_atomic :: "'d mmio_ops \<Rightarrow> 'd full_system \<Rightarrow> u64 \<Rightarrow> u64 \<Rightarrow> mem_error + (u64 \<times> 'd full_system)" where
  "read_atomic ops fs pa sz =
     (if sz = 4 then res_bind (read_phys_sized ops fs pa 4) (\<lambda>(v, fs'). Ok (sext32 v, fs'))
      else read_phys_sized ops fs pa 8)"

definition machina_lr_op :: "'d mmio_ops \<Rightarrow> 'd full_system \<Rightarrow> u64 \<Rightarrow> u64 \<Rightarrow>
    mem_error + (outcome \<times> 'd full_system)" where
  "machina_lr_op ops fs gva sz =
     res_bind (translate_for_helper ops fs gva Read (ucast sz)) (\<lambda>(tr, fs1).
       case tr of
         None \<Rightarrow>
           let c = fs_cpu fs1
           in Ok (exit_with (fs1\<lparr>fs_cpu := (clear_fault c)\<lparr>load_res := - 1\<rparr>\<rparr>)
                    (load_fault (mem_fault_cause c)) (mem_fault_tval c))
       | Some pa \<Rightarrow>
           if \<not> is_phys_backed fs1 pa (ucast sz) then
             Ok (exit_with (fs1\<lparr>fs_cpu := (fs_cpu fs1)\<lparr>load_res := - 1\<rparr>\<rparr>) LoadAccessFault gva)
           else res_bind (read_atomic ops fs1 pa sz) (\<lambda>(v, fs2).
             Ok (Returned v, fs2\<lparr>fs_cpu := (fs_cpu fs2)\<lparr>load_res := pa, load_val := v\<rparr>\<rparr>)))"

definition machina_sc_op :: "'d mmio_ops \<Rightarrow> 'd full_system \<Rightarrow> u64 \<Rightarrow> u64 \<Rightarrow> u64 \<Rightarrow>
    mem_error + (outcome \<times> 'd full_system)" where
  "machina_sc_op ops fs gva val sz =
     res_bind (translate_for_helper ops fs gva Write (ucast sz)) (\<lambda>(tr, fs1).
       let clear_res = (\<lambda>fs. fs\<lparr>fs_cpu := (fs_cpu fs)\<lparr>load_res := - 1\<rparr>\<rparr>)
       in case tr of
         None \<Rightarrow>
           let c = fs_cpu fs1
           in Ok (exit_with (clear_res (fs1\<lparr>fs_cpu := clear_fault c\<rparr>))
                    (store_fault (mem_fault_cause c)) (mem_fault_tval c))
       | Some pa \<Rightarrow>
           if load_res (fs_cpu fs1) \<noteq> pa then Ok (Returned 1, clear_res fs1)
           else if \<not> is_phys_backed fs1 pa (ucast sz) then
             Ok (exit_with (clear_res fs1) StoreAccessFault gva)
           else res_bind (read_atomic ops fs1 pa sz) (\<lambda>(current, fs2).
             if current \<noteq> load_val (fs_cpu fs2) then Ok (Returned 1, clear_res fs2)
             else res_bind (write_phys_sized ops fs2 pa val (ucast sz)) (\<lambda>fs3.
               Ok (Returned 0, clear_res fs3))))"

section \<open>Atomic memory operations\<close>

text \<open>The operation codes are 0 to 8; a larger one has been refused before.\<close>

definition amo_new :: "u64 \<Rightarrow> u32 \<Rightarrow> u64 \<Rightarrow> u64 \<Rightarrow> u64" where
  "amo_new op sz old val =
     (let old32 = ucast old :: u32; val32 = ucast val :: u32
      in if op = 0 then val
         else if op = 1 then (if sz = 4 then ucast (old32 + val32) else old + val)
         else if op = 2 then old XOR val
         else if op = 3 then old AND val
         else if op = 4 then old OR val
         else if op = 5 then
           (if sz = 4 then (if sint old32 \<le> sint val32 then old else val)
            else if sint old \<le> sint val then old else val)
         else if op = 6 then
           (if sz = 4 then (if sint old32 \<ge> sint val32 then old else val)
            else if sint old \<ge> sint val then old else val)
         else if op = 7 then
           (if sz = 4 then (if old32 \<le> val32 then old else val)
            else if old \<le> val then old else val)
         else
           (if sz = 4 then (if old32 \<ge> val32 then old else val)
            else if old \<ge> val then old else val))"

definition machina_amo_op :: "'d mmio_ops \<Rightarrow> 'd full_system \<Rightarrow> u64 \<Rightarrow> u64 \<Rightarrow> u64 \<Rightarrow> u64 \<Rightarrow>
    mem_error + (outcome \<times> 'd full_system)" where
  "machina_amo_op ops fs gva val size64 op =
     (let sz = ucast size64 :: u32
      in if sz \<noteq> 4 \<and> sz \<noteq> 8 then Ok (exit_with fs StoreAccessFault gva)
         else if gva AND (ucast sz - 1) \<noteq> 0 then Ok (exit_with fs StoreMisaligned gva)
         else res_bind (translate_for_helper ops fs gva Write sz) (\<lambda>(tr, fs1).
           case tr of
             None \<Rightarrow>
               let c = fs_cpu fs1
               in Ok (exit_with (fs1\<lparr>fs_cpu := clear_fault c\<rparr>)
                        (store_fault (mem_fault_cause c)) (mem_fault_tval c))
           | Some pa \<Rightarrow>
               if \<not> is_phys_backed fs1 pa sz then Ok (exit_with fs1 StoreAccessFault gva)
               else if op > 8 then Ok (exit_with fs1 IllegalInstruction 0)
               else res_bind (read_phys_sized ops fs1 pa sz) (\<lambda>(old_raw, fs2).
                 res_bind (write_phys_sized ops fs2 pa (amo_new op sz old_raw val) sz) (\<lambda>fs3.
                   Ok (Returned (if sz = 4 then sext32 old_raw else old_raw), fs3)))))"

section \<open>CSR instructions\<close>

definition is_pmp_csr :: "u16 \<Rightarrow> bool" where
  "is_pmp_csr csr_addr \<longleftrightarrow> CSR_PMPCFG0 \<le> csr_addr \<and> csr_addr \<le> CSR_PMPCFG0 + 3
     \<or> CSR_PMPADDR0 \<le> csr_addr \<and> csr_addr < CSR_PMPADDR0 + of_nat PMP_COUNT"

definition sync_pmp :: "riscv_cpu \<Rightarrow> riscv_cpu" where
  "sync_pmp c = c\<lparr>cpu_pmp := sync_from_csr (cpu_pmp c) (pmpcfg (cpu_csr c)) (pmpaddr (cpu_csr c))\<rparr>"

text \<open>
  The value an instruction reads: the time source for \<open>time\<close> and \<open>cycle\<close>, the retired-instruction
  counter, or a register.
\<close>

definition time_read :: "'d mmio_ops \<Rightarrow> 'd full_system \<Rightarrow> mem_error + (u64 \<times> 'd full_system)" where
  "time_read ops fs =
     (if as_ptr (fs_cpu fs) \<noteq> 0 \<and> time_mmio_addr (fs_cpu fs) \<noteq> 0 then
        res_bind (as_read ops (fs_asp fs) (fs_bk fs) (time_mmio_addr (fs_cpu fs)) 8)
          (\<lambda>(v, bk). Ok (v, fs\<lparr>fs_bk := bk\<rparr>))
      else Ok (0, fs))"

definition csr_old :: "'d mmio_ops \<Rightarrow> 'd full_system \<Rightarrow> u16 \<Rightarrow> mem_error + ((u64 + u64) \<times> 'd full_system)" where
  "csr_old ops fs csr_addr =
     (if csr_addr = CSR_TIME \<or> csr_addr = CSR_CYCLE then
        res_bind (time_read ops fs) (\<lambda>(v, fs'). Ok (Ok v, fs'))
      else if csr_addr = CSR_INSTRET then Ok (Ok (instret (cpu_csr (fs_cpu fs))), fs)
      else Ok (try_csr_read (fs_cpu fs) csr_addr, fs))"

text \<open>The new value for the six instructions, by \<open>funct3\<close>.\<close>

definition csr_new_val :: "u64 \<Rightarrow> u64 \<Rightarrow> u64 \<Rightarrow> u64 option" where
  "csr_new_val funct3 old rs1_val =
     (if funct3 = 1 \<or> funct3 = 5 then Some rs1_val
      else if funct3 = 2 \<or> funct3 = 6 then Some (old OR rs1_val)
      else if funct3 = 3 \<or> funct3 = 7 then Some (old AND NOT rs1_val)
      else None)"

text \<open>The runtime state kept beside the register file, after a write through the JIT helper.\<close>

definition sync_after_write :: "u16 \<Rightarrow> u64 \<Rightarrow> riscv_cpu \<Rightarrow> riscv_cpu" where
  "sync_after_write csr_addr new_val c0 =
     (let c = (if is_pmp_csr csr_addr then sync_pmp c0 else c0)
      in if csr_addr = CSR_SATP then
           c\<lparr>cpu_mmu := flush (set_satp (cpu_mmu c) new_val), tb_flush_pending := True\<rparr>
         else if should_flush_data_tlb_on_status_write csr_addr then c\<lparr>cpu_mmu := flush (cpu_mmu c)\<rparr>
         else c)"

definition machina_csr_op :: "'d mmio_ops \<Rightarrow> 'd full_system \<Rightarrow> u64 \<Rightarrow> u64 \<Rightarrow> u64 \<Rightarrow> u64 \<Rightarrow>
    mem_error + (outcome \<times> 'd full_system)" where
  "machina_csr_op ops fs csr rs1_val rs1_idx funct3 =
     (let csr_addr = ucast csr :: u16
      in res_bind (csr_old ops fs csr_addr) (\<lambda>(r, fs1).
           case r of
             Inl _ \<Rightarrow> Ok (exit_with fs1 IllegalInstruction 0)
           | Inr old \<Rightarrow>
             (case csr_new_val funct3 old rs1_val of
                None \<Rightarrow> Ok (Returned old, fs1)
              | Some new_val \<Rightarrow>
                let do_write = (if funct3 = 1 \<or> funct3 = 5 then True else rs1_idx \<noteq> 0)
                in if \<not> do_write then Ok (Returned old, fs1)
                   else case try_csr_write (fs_cpu fs1) csr_addr new_val of
                          Inl _ \<Rightarrow> Ok (exit_with fs1 IllegalInstruction 0)
                        | Inr c \<Rightarrow>
                          Ok (Returned old, fs1\<lparr>fs_cpu := sync_after_write csr_addr new_val c\<rparr>))))"

section \<open>Instruction fetch\<close>

definition resolve_fetch_region :: "'d full_system \<Rightarrow> u64 \<Rightarrow> (nat \<times> u64 \<times> u64) option" where
  "resolve_fetch_region fs pa =
     (if pa - ram_base (fs_cpu fs) < fs_ram_size fs
      then Some (fs_ram fs, ram_base (fs_cpu fs), fs_ram_size fs)
      else case fs_mrom fs of
             Some b \<Rightarrow> if pa - fs_mrom_base fs < fs_mrom_size fs
                       then Some (b, fs_mrom_base fs, fs_mrom_size fs) else None
           | None \<Rightarrow> None)"

definition translate_pc :: "'d mmio_ops \<Rightarrow> 'd full_system \<Rightarrow> u64 \<Rightarrow> mem_error + (u64 \<times> 'd full_system)" where
  "translate_pc ops fs vpc =
     (let c = fs_cpu fs;
          mode = (if cpu_priv c = Machine then 0 else satp_mode (cpu_mmu c))
      in if mode = 0 then
           case check_access (cpu_pmp c) vpc 2 Execute (cpu_priv c) of
             Inr _ \<Rightarrow> Ok (vpc, fs)
           | Inl _ \<Rightarrow> Ok (- 1, fs\<lparr>fs_cpu := latch_fault c 1 vpc\<rparr>)
         else
           res_bind (paged_translate ops fs vpc Execute (cpu_priv c) 2) (\<lambda>(res, fs').
             case res of
               Inr pa \<Rightarrow> Ok (pa, fs')
             | Inl e \<Rightarrow>
               let cause = (case e of InstructionPageFault \<Rightarrow> 12 | InstructionAccessFault \<Rightarrow> 1 | _ \<Rightarrow> 12)
               in Ok (- 1, fs'\<lparr>fs_cpu := latch_fault (fs_cpu fs') cause vpc\<rparr>)))"

text \<open>The fetch of the four bytes at an offset of a resolved region.\<close>

definition fetch_u32 :: "'d full_system \<Rightarrow> nat \<Rightarrow> u64 \<Rightarrow> mem_error + u32" where
  "fetch_u32 fs block off =
     (case load_bytes (bk_block (fs_bk fs) block) (unat off) 4 of
        None \<Rightarrow> Err OutOfBounds
      | Some bs \<Rightarrow> Ok (ucast (from_le_bytes bs :: u64)))"

definition fetch_insn_at_pc :: "'d mmio_ops \<Rightarrow> 'd full_system \<Rightarrow> mem_error + (u32 \<times> 'd full_system)" where
  "fetch_insn_at_pc ops fs =
     (let c = fs_cpu fs;
          restore = (\<lambda>fs. fs\<lparr>fs_cpu := (fs_cpu fs)\<lparr>mem_fault_cause := mem_fault_cause c,
             mem_fault_tval := mem_fault_tval c, fault_pc := fault_pc c\<rparr>\<rparr>)
      in res_bind (translate_pc ops fs (pc c)) (\<lambda>(phys_pc, fs1).
           if phys_pc = - 1 then Ok (0, restore fs1)
           else case resolve_fetch_region fs1 phys_pc of
                  None \<Rightarrow> Ok (0, restore fs1)
                | Some (block, rb, rs) \<Rightarrow>
                  if phys_pc - rb \<ge> rs then Ok (0, restore fs1)
                  else res_bind (fetch_u32 fs1 block (phys_pc - rb)) (\<lambda>insn. Ok (insn, restore fs1))))"

text \<open>
  A CSR instruction that has been fetched: the destination register and the pc, the copies of the
  written registers, the write, and the decoding.
\<close>

definition csr_finish :: "nat \<Rightarrow> u64 \<Rightarrow> 'd full_system \<Rightarrow> 'd full_system" where
  "csr_finish rd old fs =
     (let c = fs_cpu fs
      in fs\<lparr>fs_cpu := c\<lparr>gpr := (if rd \<noteq> 0 then (gpr c)[rd := old] else gpr c), pc := pc c + 4\<rparr>\<rparr>)"

definition sync_priv_csr :: "u16 \<Rightarrow> riscv_cpu \<Rightarrow> riscv_cpu" where
  "sync_priv_csr csr_addr c0 =
     (let c = (if is_pmp_csr csr_addr then sync_pmp c0 else c0)
      in if csr_addr = CSR_SATP then c\<lparr>cpu_mmu := flush (set_satp (cpu_mmu c) (satp (cpu_csr c)))\<rparr>
         else if should_flush_data_tlb_on_status_write csr_addr then c\<lparr>cpu_mmu := flush (cpu_mmu c)\<rparr>
         else c)"

definition csr_commit :: "u16 \<Rightarrow> u32 \<Rightarrow> nat \<Rightarrow> nat \<Rightarrow> u64 \<Rightarrow> u64 \<Rightarrow> 'd full_system \<Rightarrow> bool \<times> 'd full_system" where
  "csr_commit csr_addr funct3 rs1_idx rd old new_val fs =
     (let do_write = (if funct3 = 1 \<or> funct3 = 5 then True else rs1_idx \<noteq> 0)
      in if \<not> do_write then (True, csr_finish rd old fs)
         else case try_csr_write (fs_cpu fs) csr_addr new_val of
                Inl _ \<Rightarrow> (False, fs)
              | Inr c1 \<Rightarrow>
                let fs1 = (if writes_instret_counter csr_addr funct3 rs1_idx
                           then fs\<lparr>fs_instret_write_suppression := True\<rparr> else fs)
                in (True, csr_finish rd old (fs1\<lparr>fs_cpu := sync_priv_csr csr_addr c1\<rparr>)))"

definition csr_insn :: "'d mmio_ops \<Rightarrow> 'd full_system \<Rightarrow> u32 \<Rightarrow> mem_error + (bool \<times> 'd full_system)" where
  "csr_insn ops fs insn =
     (let funct3 = drop_bit 12 insn AND 0x7;
          rd = unat (drop_bit 7 insn AND 0x1F);
          rs1_idx = unat (drop_bit 15 insn AND 0x1F);
          csr_addr = ucast (drop_bit 20 insn) :: u16;
          rs1_val = (if funct3 \<ge> 5 then of_nat rs1_idx
                     else if rs1_idx = 0 then 0 else gpr (fs_cpu fs) ! rs1_idx)
      in if insn AND 0x7F \<noteq> 0x73 then Ok (False, fs)
         else if funct3 = 0 then Ok (False, fs)
         else res_bind (csr_old ops fs csr_addr) (\<lambda>(r, fs1).
           case r of
             Inl _ \<Rightarrow> Ok (False, fs1)
           | Inr old \<Rightarrow>
             (case csr_new_val (ucast funct3) old rs1_val of
                None \<Rightarrow> Ok (False, fs1)
              | Some new_val \<Rightarrow> Ok (csr_commit csr_addr funct3 rs1_idx rd old new_val fs1))))"

definition handle_priv_csr :: "'d mmio_ops \<Rightarrow> 'd full_system \<Rightarrow> mem_error + (bool \<times> 'd full_system)" where
  "handle_priv_csr ops fs0 =
     (let pc0 = pc (fs_cpu fs0);
          fs1 = fs0\<lparr>fs_instret_write_suppression := False, fs_cpu := (fs_cpu fs0)\<lparr>fault_pc := 0\<rparr>\<rparr>
      in res_bind (translate_pc ops fs1 pc0) (\<lambda>(phys_pc, fs2).
        if phys_pc = - 1 then Ok (mem_fault_cause (fs_cpu fs2) \<noteq> 0, fs2)
        else case resolve_fetch_region fs2 phys_pc of
          None \<Rightarrow> Ok (True, fs2\<lparr>fs_cpu := latch_fault (fs_cpu fs2) 1 pc0\<rparr>)
        | Some (block, rb, rs) \<Rightarrow>
          if phys_pc - rb \<ge> rs then Ok (True, fs2\<lparr>fs_cpu := latch_fault (fs_cpu fs2) 1 pc0\<rparr>)
          else res_bind (fetch_u32 fs2 block (phys_pc - rb)) (\<lambda>insn. csr_insn ops fs2 insn)))"

section \<open>Hooks of the execution loop\<close>

definition get_flags :: "riscv_cpu \<Rightarrow> u32" where
  "get_flags c =
     (let priv_bits = of_nat (priv_num (cpu_priv c)) :: u32;
          sp = mmu_satp (cpu_mmu c);
          mode = ucast (drop_bit 60 sp) AND 0xF :: u32
      in if mode = 0 then priv_bits
         else let ppn = ucast sp :: u32; ppn_hash = (ppn XOR drop_bit 16 ppn) AND 0xFFFF
              in priv_bits OR push_bit 2 mode OR push_bit 6 ppn_hash)"

text \<open>The device interrupt lines, with the timer line moved to STIP in builtin mode.\<close>

definition device_mip :: "'d full_system \<Rightarrow> u64" where
  "device_mip fs =
     (let dev = fs_shared_mip fs
      in if fs_builtin_mode fs \<and> dev AND push_bit 7 1 \<noteq> 0
         then (dev AND NOT (push_bit 7 1)) OR push_bit 5 1 else dev)"

fun pending_scan :: "riscv_cpu \<Rightarrow> u64 \<Rightarrow> nat list \<Rightarrow> bool" where
  "pending_scan c pending [] = False"
| "pending_scan c pending (irq # irqs) =
     (if pending AND push_bit irq 1 = 0 then pending_scan c pending irqs
      else if drop_bit irq (mideleg (cpu_csr c)) AND 1 \<noteq> 0 then
        priv_num (cpu_priv c) < priv_num Supervisor
        \<or> priv_num (cpu_priv c) = priv_num Supervisor \<and> mstatus (cpu_csr c) AND MSTATUS_SIE \<noteq> 0
      else
        priv_num (cpu_priv c) < priv_num Machine
        \<or> priv_num (cpu_priv c) = priv_num Machine \<and> mstatus (cpu_csr c) AND MSTATUS_MIE \<noteq> 0)"

definition pending_interrupt :: "'d full_system \<Rightarrow> bool" where
  "pending_interrupt fs =
     (let c = fs_cpu fs; pending = (mip (cpu_csr c) OR device_mip fs) AND mie (cpu_csr c)
      in if pending = 0 then False else pending_scan c pending [11, 3, 7, 9, 1, 5])"

definition pending_wfi_wakeup :: "'d full_system \<Rightarrow> bool" where
  "pending_wfi_wakeup fs \<longleftrightarrow> (mip (cpu_csr (fs_cpu fs)) OR device_mip fs) AND mie (cpu_csr (fs_cpu fs)) \<noteq> 0"

definition HW_MASK :: u64 where
  "HW_MASK = push_bit 3 1 OR push_bit 7 1 OR push_bit 9 1 OR push_bit 11 1"

definition fs_handle_interrupt :: "'d full_system \<Rightarrow> 'd full_system" where
  "fs_handle_interrupt fs0 =
     (let convert = (fs_builtin_mode fs0 \<and> fs_shared_mip fs0 AND push_bit 7 1 \<noteq> 0);
          shared = (if convert then fs_shared_mip fs0 AND NOT (push_bit 7 1) else fs_shared_mip fs0);
          csr0 = cpu_csr (fs_cpu fs0);
          csr1 = (if convert then csr0\<lparr>mip := mip csr0 OR push_bit 5 1\<rparr> else csr0);
          csr2 = csr1\<lparr>mip := (mip csr1 AND NOT HW_MASK) OR (shared AND HW_MASK)\<rparr>
      in fs0\<lparr>fs_shared_mip := shared,
             fs_cpu := snd (cpu_handle_interrupt ((fs_cpu fs0)\<lparr>cpu_csr := csr2\<rparr>))\<rparr>)"

definition exception_of_code :: "u64 \<Rightarrow> exception" where
  "exception_of_code excp =
     (if excp = 0 then InstructionMisaligned else if excp = 1 then InstructionAccessFault
      else if excp = 2 then IllegalInstruction else if excp = 3 then Breakpoint
      else if excp = 4 then LoadMisaligned else if excp = 5 then LoadAccessFault
      else if excp = 6 then StoreMisaligned else if excp = 7 then StoreAccessFault
      else if excp = 8 then EcallFromU else if excp = 9 then EcallFromS
      else if excp = 11 then EcallFromM else if excp = 12 then InstructionPageFault
      else if excp = 13 then LoadPageFault else if excp = 15 then StorePageFault
      else IllegalInstruction)"

definition handle_exception :: "riscv_cpu \<Rightarrow> u64 \<Rightarrow> u64 \<Rightarrow> riscv_cpu" where
  "handle_exception c excp tval = raise_exception c (exception_of_code excp) tval"

definition check_sfence_trap :: "riscv_cpu \<Rightarrow> bool" where
  "check_sfence_trap c \<longleftrightarrow> cpu_priv c = Supervisor \<and> mstatus (cpu_csr c) AND MSTATUS_TVM \<noteq> 0"

definition check_mem_fault :: "riscv_cpu \<Rightarrow> bool \<times> riscv_cpu" where
  "check_mem_fault c =
     (let cause = mem_fault_cause c
      in if cause \<noteq> 0 then
           let tval = mem_fault_tval c; c1 = clear_fault c;
               c2 = (if fault_pc c1 \<noteq> 0 then c1\<lparr>pc := fault_pc c1, fault_pc := 0\<rparr> else c1)
           in (True, handle_exception c2 cause tval)
         else (False, c))"

definition on_tb_executed :: "riscv_cpu \<Rightarrow> u32 \<Rightarrow> u16 \<Rightarrow> riscv_cpu" where
  "on_tb_executed c guest_size guest_insns =
     c\<lparr>cpu_csr := (cpu_csr c)\<lparr>cycle := cycle (cpu_csr c) + max (ucast guest_size) 1,
                              instret := instret (cpu_csr c) + ucast guest_insns\<rparr>\<rparr>"

definition lookup_pc :: "riscv_cpu \<Rightarrow> u64 \<Rightarrow> u64" where
  "lookup_pc c vpc =
     (if cpu_priv c = Machine then vpc
      else if drop_bit 60 (satp (cpu_csr c)) = 0 then vpc
      else case tlb_lookup_code_phys (cpu_mmu c) vpc of Some pa \<Rightarrow> pa | None \<Rightarrow> - 1)"

definition take_dirty_pages :: "riscv_cpu \<Rightarrow> u64 list \<times> riscv_cpu" where
  "take_dirty_pages c =
     (let pages = dirty_pages c;
          (tlb_pages, m') = take_dirty_tlb_pages (cpu_mmu c);
          out = foldl (\<lambda>pages p. if p \<notin> set pages then pages @ [p] else pages) pages tlb_pages
      in (out, c\<lparr>dirty_pages := [], cpu_mmu := m'\<rparr>))"

definition has_pending_irq :: "'d full_system \<Rightarrow> bool" where
  "has_pending_irq fs \<longleftrightarrow> (mip (cpu_csr (fs_cpu fs)) OR device_mip fs) AND mie (cpu_csr (fs_cpu fs)) \<noteq> 0"

definition set_halted :: "'d full_system \<Rightarrow> bool \<Rightarrow> 'd full_system" where
  "set_halted fs h = fs\<lparr>fs_cpu := (fs_cpu fs)\<lparr>halted := h\<rparr>\<rparr>"

definition privilege_level :: "'d full_system \<Rightarrow> u8" where
  "privilege_level fs = of_nat (priv_num (cpu_priv (fs_cpu fs)))"

definition set_pc :: "'d full_system \<Rightarrow> u64 \<Rightarrow> 'd full_system" where
  "set_pc fs v = fs\<lparr>fs_cpu := (fs_cpu fs)\<lparr>pc := v\<rparr>\<rparr>"

definition set_jmp_env :: "'d full_system \<Rightarrow> u64 \<Rightarrow> 'd full_system" where
  "set_jmp_env fs ptr = fs\<lparr>fs_cpu := (fs_cpu fs)\<lparr>jmp_env := ptr\<rparr>\<rparr>"

definition clear_jmp_env :: "'d full_system \<Rightarrow> 'd full_system" where
  "clear_jmp_env fs = fs\<lparr>fs_cpu := (fs_cpu fs)\<lparr>jmp_env := 0\<rparr>\<rparr>"

definition tlb_flush :: "'d full_system \<Rightarrow> 'd full_system" where
  "tlb_flush fs = fs\<lparr>fs_cpu := (fs_cpu fs)\<lparr>cpu_mmu := flush (cpu_mmu (fs_cpu fs))\<rparr>\<rparr>"

definition tlb_flush_page :: "'d full_system \<Rightarrow> u64 \<Rightarrow> 'd full_system" where
  "tlb_flush_page fs vpn = fs\<lparr>fs_cpu := (fs_cpu fs)\<lparr>cpu_mmu := flush_page (cpu_mmu (fs_cpu fs)) vpn\<rparr>\<rparr>"

definition set_exit_request :: "'d full_system \<Rightarrow> 'd full_system" where
  "set_exit_request fs = fs\<lparr>fs_cpu := (fs_cpu fs)\<lparr>neg_align := - 1\<rparr>\<rparr>"

definition reset_exit_request :: "'d full_system \<Rightarrow> 'd full_system" where
  "reset_exit_request fs = fs\<lparr>fs_cpu := (fs_cpu fs)\<lparr>neg_align := 0\<rparr>\<rparr>"

text \<open>The stop flag is true while the machine runs; the HTIF word is polled in RAM.\<close>

definition should_exit :: "'d full_system \<Rightarrow> mem_error + (bool \<times> 'd full_system)" where
  "should_exit fs =
     (if \<not> fs_stop_flag fs then Ok (True, fs)
      else case fs_htif_tohost_off fs of
             None \<Rightarrow> Ok (False, fs)
           | Some off \<Rightarrow>
               (case load_bytes (bk_block (fs_bk fs) (fs_ram fs)) (unat off) 8 of
                  None \<Rightarrow> Err OutOfBounds
                | Some bs \<Rightarrow>
                    if from_le_bytes bs \<noteq> 0 then
                      Ok (True, fs\<lparr>fs_htif_exit_code := from_le_bytes bs, fs_stop_flag := False,
                                   fs_wfi := wfi_stop (fs_wfi fs)\<rparr>)
                    else Ok (False, fs)))"

definition take_tb_flush_pending :: "'d full_system \<Rightarrow> bool \<times> 'd full_system" where
  "take_tb_flush_pending fs =
     (tb_flush_pending (fs_cpu fs), fs\<lparr>fs_cpu := (fs_cpu fs)\<lparr>tb_flush_pending := False\<rparr>\<rparr>)"

definition take_instret_write_suppression :: "'d full_system \<Rightarrow> bool \<times> 'd full_system" where
  "take_instret_write_suppression fs =
     (fs_instret_write_suppression fs, fs\<lparr>fs_instret_write_suppression := False\<rparr>)"

end
