(* ===== verification/Hart_Memory.thy ===== *)
theory Hart_Memory
  imports Full_System
begin

text \<open>
  Correctness of the memory helpers of \<open>system/src/cpus.rs\<close>. The RAM window of the hart is an
  instance of the plain-memory interface, so loads, stores, LR/SC and the atomic operations are
  shown against reads and writes of that memory; the atomic operations are compared with their
  meaning on 32-bit and 64-bit words.
\<close>

section \<open>The RAM window as plain memory\<close>

definition ram_ok :: "'d full_system \<Rightarrow> u64 \<Rightarrow> u32 \<Rightarrow> bool" where
  "ram_ok fs pa sz \<longleftrightarrow> in_ram_window (fs_cpu fs) pa \<and> sz \<in> {1, 2, 4, 8}
     \<and> unat (pa - ram_base (fs_cpu fs)) + unat sz \<le> length (bk_block (fs_bk fs) (fs_ram fs))"

definition ram_rd :: "'d mmio_ops \<Rightarrow> 'd full_system \<Rightarrow> u64 \<Rightarrow> u32 \<Rightarrow> u64" where
  "ram_rd ops fs pa sz = (case read_phys_sized ops fs pa sz of Inl _ \<Rightarrow> 0 | Inr (v, _) \<Rightarrow> v)"

definition ram_wr :: "'d mmio_ops \<Rightarrow> 'd full_system \<Rightarrow> u64 \<Rightarrow> u32 \<Rightarrow> u64 \<Rightarrow> 'd full_system" where
  "ram_wr ops fs pa sz v = (case write_phys_sized ops fs pa v sz of Inl _ \<Rightarrow> fs | Inr fs' \<Rightarrow> fs')"

text \<open>What a read of RAM depends on.\<close>

definition same_ram :: "'d full_system \<Rightarrow> 'd full_system \<Rightarrow> bool" where
  "same_ram fs fs' \<longleftrightarrow> ram_base (fs_cpu fs') = ram_base (fs_cpu fs) \<and> ram_end (fs_cpu fs') = ram_end (fs_cpu fs)
     \<and> fs_ram fs' = fs_ram fs \<and> bk_block (fs_bk fs') (fs_ram fs) = bk_block (fs_bk fs) (fs_ram fs)"

lemma track_dirty_frame [simp]:
  "ram_base (track_dirty b c pa) = ram_base c" "ram_end (track_dirty b c pa) = ram_end c"
  "load_res (track_dirty b c pa) = load_res c" "load_val (track_dirty b c pa) = load_val c"
  "cpu_csr (track_dirty b c pa) = cpu_csr c" "cpu_pmp (track_dirty b c pa) = cpu_pmp c"
  "cpu_mmu (track_dirty b c pa) = cpu_mmu c" "cpu_priv (track_dirty b c pa) = cpu_priv c"
  "gpr (track_dirty b c pa) = gpr c" "fpr (track_dirty b c pa) = fpr c" "pc (track_dirty b c pa) = pc c"
  "cpu_profile (track_dirty b c pa) = cpu_profile c" "as_ptr (track_dirty b c pa) = as_ptr c"
  "code_pages_ptr (track_dirty b c pa) = code_pages_ptr c" "code_pages_len (track_dirty b c pa) = code_pages_len c"
  by (simp_all add: track_dirty_def Let_def)

lemma ram_offset:
  assumes "in_ram_window c pa"
  shows "unat (pa - ram_base c) = unat pa - unat (ram_base c)" "unat (ram_base c) \<le> unat pa"
  using assms by (simp_all add: in_ram_window_def unat_sub word_le_nat_alt)

lemma ram_okE:
  assumes "ram_ok fs pa sz"
  obtains bs where "load_bytes (bk_block (fs_bk fs) (fs_ram fs)) (unat (pa - ram_base (fs_cpu fs))) (unat sz) = Some bs"
    and "read_phys_sized ops fs pa sz = Ok (from_le_bytes bs, fs)" and "ram_rd ops fs pa sz = from_le_bytes bs"
    and "length bs = unat sz"
  using assms
  by (auto simp: ram_ok_def ram_rd_def read_phys_sized_def load_bytes_def)

lemma ram_read: "ram_ok fs pa sz \<Longrightarrow> read_phys_sized ops fs pa sz = Ok (ram_rd ops fs pa sz, fs)"
  by (rule ram_okE [where ops = ops]) auto

lemma ram_writeE:
  assumes "ram_ok fs pa sz"
  obtains block' where
    "store_bytes (bk_block (fs_bk fs) (fs_ram fs)) (unat (pa - ram_base (fs_cpu fs))) (to_le_bytes (unat sz) v) = Some block'"
    and "write_phys_sized ops fs pa v sz = Ok (ram_wr ops fs pa sz v)"
    and "ram_wr ops fs pa sz v =
      fs\<lparr>fs_bk := (fs_bk fs)\<lparr>bk_block := (bk_block (fs_bk fs))(fs_ram fs := block')\<rparr>,
         fs_cpu := track_dirty (fs_code_pages fs) (fs_cpu fs) pa\<rparr>"
  using assms
  by (auto simp: ram_ok_def ram_wr_def write_phys_sized_def store_bytes_def Let_def)

lemma ram_write: "ram_ok fs pa sz \<Longrightarrow> write_phys_sized ops fs pa v sz = Ok (ram_wr ops fs pa sz v)"
  by (rule ram_writeE [where ops = ops and v = v]) auto

lemma same_ram_ok: "same_ram fs fs' \<Longrightarrow> ram_ok fs' pa sz = ram_ok fs pa sz"
  by (simp add: same_ram_def ram_ok_def in_ram_window_def)

lemma same_ram_rd:
  assumes "same_ram fs fs'" and "ram_ok fs pa sz"
  shows "ram_rd ops fs' pa sz = ram_rd ops fs pa sz"
  using assms
  by (simp add: same_ram_def ram_ok_def in_ram_window_def ram_rd_def read_phys_sized_def load_bytes_def)

lemma ram_ok_wr:
  assumes "ram_ok fs a n"
  shows "ram_ok (ram_wr ops fs a n v) b m = ram_ok fs b m"
proof -
  obtain block' where st: "store_bytes (bk_block (fs_bk fs) (fs_ram fs)) (unat (a - ram_base (fs_cpu fs)))
      (to_le_bytes (unat n) v) = Some block'"
    and wr: "ram_wr ops fs a n v =
      fs\<lparr>fs_bk := (fs_bk fs)\<lparr>bk_block := (bk_block (fs_bk fs))(fs_ram fs := block')\<rparr>,
         fs_cpu := track_dirty (fs_code_pages fs) (fs_cpu fs) a\<rparr>"
    by (rule ram_writeE [OF assms])
  show ?thesis
    unfolding wr using store_bytes_length [OF st] by (simp add: ram_ok_def in_ram_window_def)
qed

lemma ram_rd_wr_same:
  assumes "ram_ok fs a n"
  shows "ram_rd ops (ram_wr ops fs a n v) a n = take_bit (8 * unat n) v"
proof -
  obtain block' where st: "store_bytes (bk_block (fs_bk fs) (fs_ram fs)) (unat (a - ram_base (fs_cpu fs)))
      (to_le_bytes (unat n) v) = Some block'"
    and wr: "ram_wr ops fs a n v =
      fs\<lparr>fs_bk := (fs_bk fs)\<lparr>bk_block := (bk_block (fs_bk fs))(fs_ram fs := block')\<rparr>,
         fs_cpu := track_dirty (fs_code_pages fs) (fs_cpu fs) a\<rparr>"
    by (rule ram_writeE [OF assms])
  show ?thesis
    unfolding wr using load_store_same [OF st] assms
    by (simp add: ram_ok_def ram_rd_def read_phys_sized_def in_ram_window_def from_to_le_bytes)
qed

lemma ram_rd_wr_other:
  assumes a: "ram_ok fs a n" and b: "ram_ok fs b m" and "disjoint_access a n b m"
  shows "ram_rd ops (ram_wr ops fs a n v) b m = ram_rd ops fs b m"
proof -
  obtain block' where st: "store_bytes (bk_block (fs_bk fs) (fs_ram fs)) (unat (a - ram_base (fs_cpu fs)))
      (to_le_bytes (unat n) v) = Some block'"
    and wr: "ram_wr ops fs a n v =
      fs\<lparr>fs_bk := (fs_bk fs)\<lparr>bk_block := (bk_block (fs_bk fs))(fs_ram fs := block')\<rparr>,
         fs_cpu := track_dirty (fs_code_pages fs) (fs_cpu fs) a\<rparr>"
    by (rule ram_writeE [OF a])
  have "in_ram_window (fs_cpu fs) a" "in_ram_window (fs_cpu fs) b"
    using a b by (simp_all add: ram_ok_def)
  note off = ram_offset [OF this(1)] ram_offset [OF this(2)]
  have "load_bytes block' (unat (b - ram_base (fs_cpu fs))) (unat m) =
      load_bytes (bk_block (fs_bk fs) (fs_ram fs)) (unat (b - ram_base (fs_cpu fs))) (unat m)"
    by (rule load_store_other [OF st]) (use assms(3) off in \<open>auto simp: disjoint_access_def\<close>)
  then show ?thesis
    unfolding wr using b
    by (simp add: ram_ok_def ram_rd_def read_phys_sized_def in_ram_window_def split: option.split)
qed

lemma ram_rd_bound:
  assumes "ram_ok fs a n"
  shows "take_bit (8 * unat n) (ram_rd ops fs a n) = ram_rd ops fs a n"
  by (rule ram_okE [OF assms, where ops = ops]) (metis take_bit_from_le_bytes)

interpretation hart_ram: sized_store ram_ok "ram_rd ops" "ram_wr ops" for ops :: "'d mmio_ops"
  by unfold_locales (simp_all add: ram_ok_wr ram_rd_wr_same ram_rd_wr_other ram_rd_bound)

section \<open>Bare translation\<close>

text \<open>A data access that is not paged, and the RAM locations it may read and write.\<close>

definition bare :: "riscv_cpu \<Rightarrow> bool" where
  "bare c \<longleftrightarrow> effective_data_priv (cpu_priv c) (mstatus (cpu_csr c)) = Machine \<or> satp_mode (cpu_mmu c) = 0"

definition pmp_grants :: "riscv_cpu \<Rightarrow> u64 \<Rightarrow> u32 \<Rightarrow> access_type \<Rightarrow> bool" where
  "pmp_grants c a n access \<longleftrightarrow>
     check_access (cpu_pmp c) a (ucast n) access (effective_data_priv (cpu_priv c) (mstatus (cpu_csr c))) = Ok ()"

definition accessible :: "'d full_system \<Rightarrow> u64 \<Rightarrow> u32 \<Rightarrow> bool" where
  "accessible fs a n \<longleftrightarrow> bare (fs_cpu fs) \<and> ram_ok fs a n \<and> is_phys_backed fs a n
     \<and> pmp_grants (fs_cpu fs) a n Read \<and> pmp_grants (fs_cpu fs) a n Write"

text \<open>What the access checks depend on.\<close>

definition same_access :: "'d full_system \<Rightarrow> 'd full_system \<Rightarrow> bool" where
  "same_access fs fs' \<longleftrightarrow> cpu_priv (fs_cpu fs') = cpu_priv (fs_cpu fs) \<and> cpu_csr (fs_cpu fs') = cpu_csr (fs_cpu fs)
     \<and> cpu_pmp (fs_cpu fs') = cpu_pmp (fs_cpu fs) \<and> mmu_satp (cpu_mmu (fs_cpu fs')) = mmu_satp (cpu_mmu (fs_cpu fs))
     \<and> as_ptr (fs_cpu fs') = as_ptr (fs_cpu fs) \<and> fs_asp fs' = fs_asp fs
     \<and> ram_base (fs_cpu fs') = ram_base (fs_cpu fs) \<and> ram_end (fs_cpu fs') = ram_end (fs_cpu fs)
     \<and> (\<forall>a n. ram_ok fs' a n = ram_ok fs a n)"

lemma same_access_refl [simp]: "same_access fs fs"
  by (simp add: same_access_def)

lemma same_access_trans: "same_access fs fs1 \<Longrightarrow> same_access fs1 fs2 \<Longrightarrow> same_access fs fs2"
  by (simp add: same_access_def)

lemma same_access_iff: "same_access fs fs' \<Longrightarrow> accessible fs' a n = accessible fs a n"
  by (simp add: same_access_def accessible_def bare_def pmp_grants_def is_phys_backed_def satp_mode_def Let_def)

lemma same_access_wr:
  assumes "ram_ok fs a n"
  shows "same_access fs (ram_wr ops fs a n v)"
proof -
  have "ram_ok (ram_wr ops fs a n v) b m = ram_ok fs b m" for b m
    by (rule ram_ok_wr [OF assms])
  then show ?thesis
    by (rule_tac ram_writeE [OF assms, where ops = ops and v = v]) (simp add: same_access_def)
qed

lemma wr_keeps_reservation:
  assumes "ram_ok fs a n"
  shows "load_res (fs_cpu (ram_wr ops fs a n v)) = load_res (fs_cpu fs)"
    "load_val (fs_cpu (ram_wr ops fs a n v)) = load_val (fs_cpu fs)"
  by (rule ram_writeE [OF assms, where ops = ops and v = v]; simp)+

text \<open>A change of the hart's bookkeeping only: the TLB, the latched fault, the reservation.\<close>

definition retag :: "(riscv_cpu \<Rightarrow> riscv_cpu) \<Rightarrow> bool" where
  "retag f \<longleftrightarrow> (\<forall>c. cpu_priv (f c) = cpu_priv c \<and> cpu_csr (f c) = cpu_csr c \<and> cpu_pmp (f c) = cpu_pmp c
     \<and> mmu_satp (cpu_mmu (f c)) = mmu_satp (cpu_mmu c) \<and> as_ptr (f c) = as_ptr c
     \<and> ram_base (f c) = ram_base c \<and> ram_end (f c) = ram_end c)"

lemma retag_same:
  assumes "retag f"
  shows "same_access fs (fs\<lparr>fs_cpu := f (fs_cpu fs)\<rparr>)" "same_ram fs (fs\<lparr>fs_cpu := f (fs_cpu fs)\<rparr>)"
  using assms by (simp_all add: retag_def same_access_def same_ram_def ram_ok_def in_ram_window_def)

lemma retag_intros [simp]:
  "retag (\<lambda>c. c\<lparr>load_res := r c\<rparr>)" "retag (\<lambda>c. c\<lparr>load_res := r c, load_val := v c\<rparr>)"
  "retag (\<lambda>c. c\<lparr>cpu_mmu := fill_identity (cpu_mmu c) gva (ad c)\<rparr>)"
  by (simp_all add: retag_def fill_identity_def Let_def)

definition fill_ram :: "u64 \<Rightarrow> riscv_cpu \<Rightarrow> riscv_cpu" where
  "fill_ram gva c = c\<lparr>cpu_mmu := fill_identity (cpu_mmu c) gva (guest_base c)\<rparr>"

lemma fill_ram_keeps [simp]:
  "retag (fill_ram gva)" "load_res (fill_ram gva c) = load_res c" "load_val (fill_ram gva c) = load_val c"
  "guest_base (fill_ram gva c) = guest_base c"
  "dirty_pages (fill_ram gva c) = dirty_pages c" "code_pages_ptr (fill_ram gva c) = code_pages_ptr c"
  "code_pages_len (fill_ram gva c) = code_pages_len c"
  by (simp_all add: fill_ram_def retag_def fill_identity_def Let_def)

lemma bare_translate:
  assumes "bare (fs_cpu fs)" and "in_ram_window (fs_cpu fs) a" and "pmp_grants (fs_cpu fs) a n access"
  shows "translate_for_helper ops fs a access n = Ok (Some a, fs\<lparr>fs_cpu := fill_ram a (fs_cpu fs)\<rparr>)"
  using assms by (auto simp: translate_for_helper_def bare_def pmp_grants_def fill_ram_def Let_def)

lemma accessible_parts:
  assumes "accessible fs a n"
  shows "bare (fs_cpu fs)" "in_ram_window (fs_cpu fs) a" "pmp_grants (fs_cpu fs) a n Read"
    "pmp_grants (fs_cpu fs) a n Write" "ram_ok fs a n" "is_phys_backed fs a n"
  using assms by (simp_all add: accessible_def ram_ok_def)

text \<open>The state after a translation of a RAM address, where everything but the TLB is as before.\<close>

abbreviation touched :: "u64 \<Rightarrow> 'd full_system \<Rightarrow> 'd full_system" where
  "touched a fs \<equiv> fs\<lparr>fs_cpu := fill_ram a (fs_cpu fs)\<rparr>"

lemma touched_keeps:
  "same_access fs (touched a fs)" "same_ram fs (touched a fs)"
  by (simp_all add: retag_same)

lemma touched_ok:
  assumes "accessible fs a n"
  shows "ram_ok (touched b fs) a n" "is_phys_backed (touched b fs) a n"
    "ram_rd ops (touched b fs) a n = ram_rd ops fs a n"
proof -
  have "accessible (touched b fs) a n"
    using assms same_access_iff [OF touched_keeps(1)] by blast
  then show "ram_ok (touched b fs) a n" "is_phys_backed (touched b fs) a n"
    by (rule accessible_parts)+
  show "ram_rd ops (touched b fs) a n = ram_rd ops fs a n"
    by (rule same_ram_rd [OF touched_keeps(2) accessible_parts(5) [OF assms]])
qed

lemma mem_write_bare:
  assumes "accessible fs a n"
  shows "machina_mem_write ops fs a v n = Ok (ram_wr ops (touched a fs) a n v)"
  using assms
  by (simp add: machina_mem_write_def bare_translate accessible_parts touched_ok ram_write)

lemma mem_read_bare:
  assumes "accessible fs a n"
  shows "machina_mem_read ops fs a n = Ok (ram_rd ops fs a n, touched a fs)"
  using assms
  by (simp add: machina_mem_read_def bare_translate accessible_parts touched_ok ram_read)

section \<open>The helpers as plain memory\<close>

text \<open>The value of a helper load and the state after a helper store.\<close>

definition helper_load :: "'d mmio_ops \<Rightarrow> 'd full_system \<Rightarrow> u64 \<Rightarrow> u32 \<Rightarrow> u64" where
  "helper_load ops fs a n = (case machina_mem_read ops fs a n of Inl _ \<Rightarrow> 0 | Inr (v, _) \<Rightarrow> v)"

definition helper_store :: "'d mmio_ops \<Rightarrow> 'd full_system \<Rightarrow> u64 \<Rightarrow> u32 \<Rightarrow> u64 \<Rightarrow> 'd full_system" where
  "helper_store ops fs a n v = (case machina_mem_write ops fs a v n of Inl _ \<Rightarrow> fs | Inr fs' \<Rightarrow> fs')"

fun helper_stores :: "'d mmio_ops \<Rightarrow> 'd full_system \<Rightarrow> sized_write list \<Rightarrow> mem_error + 'd full_system" where
  "helper_stores ops fs [] = Ok fs"
| "helper_stores ops fs ((a, n, v) # ws) =
     res_bind (machina_mem_write ops fs a v n) (\<lambda>fs'. helper_stores ops fs' ws)"

lemma helper_bare:
  assumes "accessible fs a n"
  shows "helper_load ops fs a n = ram_rd ops fs a n" "helper_store ops fs a n v = ram_wr ops (touched a fs) a n v"
  by (simp_all add: helper_load_def helper_store_def mem_read_bare [OF assms] mem_write_bare [OF assms])

lemma helper_store_accessible:
  assumes "accessible fs a n"
  shows "accessible (helper_store ops fs a n v) b m = accessible fs b m"
proof -
  have "same_access fs (ram_wr ops (touched a fs) a n v)"
    by (rule same_access_trans [OF touched_keeps(1) same_access_wr [OF touched_ok(1) [OF assms]]])
  then show ?thesis
    using assms by (simp add: helper_bare same_access_iff)
qed

interpretation hart_data: sized_store accessible "helper_load ops" "helper_store ops" for ops :: "'d mmio_ops"
proof
  fix s :: "'d full_system" and a b :: u64 and n m :: u32 and v :: u64
  assume a: "accessible s a n"
  note ok = touched_ok [OF a, where b = a]
  show "accessible (helper_store ops s a n v) b m" if "accessible s b m"
    using that a by (simp add: helper_store_accessible)
  show "helper_load ops (helper_store ops s a n v) a n = take_bit (8 * unat n) v"
    using a ok(1) helper_store_accessible [OF a, where b = a and m = n] by (simp add: helper_bare ram_rd_wr_same)
  show "helper_load ops (helper_store ops s a n v) b m = helper_load ops s b m"
    if b: "accessible s b m" and "disjoint_access a n b m"
  proof -
    have "accessible (helper_store ops s a n v) b m"
      using a b by (simp add: helper_store_accessible)
    then have "helper_load ops (helper_store ops s a n v) b m = ram_rd ops (ram_wr ops (touched a s) a n v) b m"
      using a by (simp add: helper_bare)
    also have "\<dots> = ram_rd ops (touched a s) b m"
      by (rule ram_rd_wr_other [OF ok(1) touched_ok(1) [OF b] that(2)])
    finally show ?thesis
      using b by (simp add: helper_bare touched_ok)
  qed
  show "take_bit (8 * unat n) (helper_load ops s a n) = helper_load ops s a n"
    using a by (simp add: helper_bare ram_rd_bound accessible_parts)
qed

lemma helper_stores_fold:
  "\<forall>(a, n, v)\<in>set ws. accessible fs a n \<Longrightarrow>
     helper_stores ops fs ws = Ok (foldl (\<lambda>s (a, n, v). helper_store ops s a n v) fs ws)"
proof (induction ws arbitrary: fs)
  case (Cons w ws)
  obtain a n v where w: "w = (a, n, v)" by (cases w)
  have acc: "accessible fs a n"
    using Cons.prems by (simp add: w)
  then have "\<forall>(b, m, u)\<in>set ws. accessible (helper_store ops fs a n v) b m"
    using Cons.prems by (auto simp: w helper_store_accessible)
  from Cons.IH [OF this] show ?case
    using acc by (simp add: w mem_write_bare helper_bare)
qed simp

section \<open>The meaning of the atomic operations\<close>

text \<open>The operations of the A extension on words of either size.\<close>

definition amo_spec :: "u64 \<Rightarrow> 'a::len word \<Rightarrow> 'a word \<Rightarrow> 'a word" where
  "amo_spec op old val =
     (if op = 0 then val
      else if op = 1 then old + val
      else if op = 2 then old XOR val
      else if op = 3 then old AND val
      else if op = 4 then old OR val
      else if op = 5 then (if sint old \<le> sint val then old else val)
      else if op = 6 then (if sint old \<ge> sint val then old else val)
      else if op = 7 then min old val
      else max old val)"

definition amo_value :: "u64 \<Rightarrow> u32 \<Rightarrow> u64 \<Rightarrow> u64 \<Rightarrow> u64" where
  "amo_value op sz old val =
     (if sz = 4 then ucast (amo_spec op (ucast old :: u32) (ucast val)) else amo_spec op old val)"

lemma take_32: "take_bit 32 x = ucast (ucast x :: u32)" for x :: u64
  by (rule bit_eqI) (auto simp: bit_simps)

lemma ucast_ops:
  "(ucast (x XOR y) :: u32) = ucast x XOR ucast y" "(ucast (x AND y) :: u32) = ucast x AND ucast y"
  "(ucast (x OR y) :: u32) = ucast x OR ucast y" for x y :: u64
  by (rule bit_eqI; simp add: bit_simps; blast)+

lemma amo_new_value:
  assumes "sz = 4 \<or> sz = 8"
  shows "take_bit (8 * unat sz) (amo_new op sz old val) = amo_value op sz old val"
  using assms
proof
  assume sz: "sz = 4"
  have eight: "8 * unat (4 :: u32) = 32" by simp
  have id: "(ucast (ucast x :: u64) :: u32) = x" for x :: u32
    by (rule bit_eqI) (auto simp: bit_simps)
  show ?thesis
    unfolding sz eight take_32 amo_new_def amo_value_def amo_spec_def Let_def
    by (simp add: id ucast_ops if_distrib [of ucast] min_def max_def cong: if_cong)
       (auto simp: not_le)
next
  assume sz: "sz = 8"
  have all: "take_bit (8 * unat (8 :: u32)) x = x" for x :: u64
    by (rule bit_eqI) (auto simp: bit_simps)
  show ?thesis
    unfolding sz all amo_new_def amo_value_def amo_spec_def Let_def min_def max_def
    by (auto simp: not_le)
qed

lemma raise_keeps: "load_res (raise_exception c e tval) = - 1"
  by (simp add: raise_exception_def do_trap_frame)

lemma read_atomic_ram:
  assumes "sz = 4 \<or> sz = 8" and "ram_ok fs pa (ucast sz)"
  shows "read_atomic ops fs pa sz =
    Ok (if sz = 4 then sext32 (ram_rd ops fs pa (ucast sz)) else ram_rd ops fs pa (ucast sz), fs)"
  using assms by (auto simp: read_atomic_def ram_read)

lemma clear_res_rd:
  assumes "ram_ok fs b m"
  shows "ram_rd ops (fs\<lparr>fs_cpu := (fs_cpu fs)\<lparr>load_res := x\<rparr>\<rparr>) b m = ram_rd ops fs b m"
  by (rule same_ram_rd [OF _ assms]) (simp add: same_ram_def)

text \<open>The store-conditional on a backed RAM location.\<close>

lemma sc_ram:
  assumes sz: "sz = 4 \<or> sz = 8" and tr: "translate_for_helper ops fs gva Write (ucast sz) = Ok (Some pa, fs1)"
    and ok: "ram_ok fs1 pa (ucast sz)" and backed: "is_phys_backed fs1 pa (ucast sz)"
  shows "let old = ram_rd ops fs1 pa (ucast sz);
             success = (load_res (fs_cpu fs1) = pa \<and> load_val (fs_cpu fs1) = (if sz = 4 then sext32 old else old))
         in \<exists>fs'. machina_sc_op ops fs gva val sz = Ok (Returned (if success then 0 else 1), fs')
              \<and> load_res (fs_cpu fs') = - 1
              \<and> ram_rd ops fs' pa (ucast sz) = (if success then take_bit (8 * unat sz) val else old)
              \<and> (\<forall>b m. ram_ok fs1 b m \<and> disjoint_access pa (ucast sz) b m \<longrightarrow>
                    ram_rd ops fs' b m = ram_rd ops fs1 b m)"
proof -
  define old where "old = ram_rd ops fs1 pa (ucast sz)"
  define success where
    "success \<longleftrightarrow> load_res (fs_cpu fs1) = pa \<and> load_val (fs_cpu fs1) = (if sz = 4 then sext32 old else old)"
  define fs2 where "fs2 = (if success then ram_wr ops fs1 pa (ucast sz) val else fs1)"
  let ?fs' = "fs2\<lparr>fs_cpu := (fs_cpu fs2)\<lparr>load_res := - 1\<rparr>\<rparr>"
  have "machina_sc_op ops fs gva val sz = Ok (Returned (if success then 0 else 1), ?fs')"
    unfolding machina_sc_op_def tr Let_def res_bind_simps prod.case option.case read_atomic_ram [OF sz ok]
      old_def [symmetric] ram_write [OF ok] fs2_def success_def
    using backed by auto
  moreover have "ram_ok fs2 b m = ram_ok fs1 b m" for b m
    using ok by (simp add: fs2_def ram_ok_wr)
  moreover have "ram_rd ops fs2 pa (ucast sz) = (if success then take_bit (8 * unat sz) val else old)"
    using ok sz by (auto simp: fs2_def ram_rd_wr_same old_def)
  moreover have "ram_rd ops fs2 b m = ram_rd ops fs1 b m" if "ram_ok fs1 b m \<and> disjoint_access pa (ucast sz) b m" for b m
    using that ok by (simp add: fs2_def ram_rd_wr_other)
  ultimately show ?thesis
    using ok unfolding Let_def old_def [symmetric] success_def [symmetric]
    by (intro exI [of _ ?fs']) (simp add: clear_res_rd)
qed

section \<open>An example system\<close>

text \<open>A hart in machine mode with 32 bytes of RAM at 0x80000000 and no address space.\<close>

definition demo_fs :: "unit full_system" where
  "demo_fs = \<lparr>fs_cpu = (new_with_model GenericRv64)\<lparr>ram_base := 0x80000000, ram_end := 0x80000020, jmp_env := 1\<rparr>,
     fs_ram = 0, fs_ram_size = 32, fs_mrom = None, fs_mrom_base = 0, fs_mrom_size = 0, fs_shared_mip = 0,
     fs_wfi = wfi_new, fs_stop_flag = True, fs_htif_tohost_off = None, fs_htif_exit_code = 0,
     fs_builtin_mode = False, fs_instret_write_suppression = False,
     fs_asp = as_new (region_container ''system'' 0), fs_bk = \<lparr>bk_block = (\<lambda>_. replicate 32 1), bk_dev = ()\<rparr>,
     fs_code_pages = []\<rparr>"

lemma demo_fs_accessible:
  assumes "n \<in> {1, 2, 4, 8}" and "0x80000000 \<le> a" and "unat a + unat n \<le> 0x80000020"
  shows "accessible demo_fs a n"
proof -
  have "unat (a - 0x80000000) = unat a - 0x80000000"
    using assms(2) by (simp add: unat_sub)
  moreover have lt: "unat a < 0x80000020"
    using assms(1,3) by auto
  moreover have le: "a + ucast n \<le> 0x80000020"
  proof -
    have "unat (a + ucast n) = unat a + unat n"
      using assms(3) by (simp add: unat_word_ariths)
    then show ?thesis
      using assms(3) by (simp add: word_le_nat_alt)
  qed
  moreover have "0x80000000 \<le> unat a"
    using assms(2) by (simp add: word_le_nat_alt)
  ultimately have "ram_ok demo_fs a n" "is_phys_backed demo_fs a n"
    using assms by (auto simp: ram_ok_def in_ram_window_def is_phys_backed_def demo_fs_def new_with_model_def
        word_less_nat_alt Let_def)
  moreover have "effective_data_priv Machine (mstatus csr_new) = Machine"
    by (simp add: effective_data_priv_def csr_new_def MSTATUS_MPRV_def)
  ultimately show ?thesis
    by (simp add: accessible_def bare_def pmp_grants_def demo_fs_def new_with_model_def Let_def check_access_def
        pmp_new_def set_max_satp_mode_def set_machine_ids_def)
qed

section \<open>Properties\<close>

text \<open>
  C23: An atomic memory operation on RAM, in any translation mode: when the address is aligned and
  translates to a backed RAM location, the helper returns the old value (sign-extended for a
  32-bit operation), leaves at the location the result of the operation on words of that size,
  and changes no other location.
\<close>
theorem amo_read_modify_write:
  assumes "sz = 4 \<or> sz = 8" and "gva AND (ucast sz - 1) = 0" and "op \<le> 8"
    and "translate_for_helper ops fs gva Write sz = Ok (Some pa, fs1)"
    and "ram_ok fs1 pa sz" and "is_phys_backed fs1 pa sz"
  shows "\<exists>fs'. machina_amo_op ops fs gva val (ucast sz) op =
       Ok (Returned (if sz = 4 then sext32 (ram_rd ops fs1 pa sz) else ram_rd ops fs1 pa sz), fs')
     \<and> ram_rd ops fs' pa sz = amo_value op sz (ram_rd ops fs1 pa sz) val
     \<and> (\<forall>b m. ram_ok fs1 b m \<and> disjoint_access pa sz b m \<longrightarrow> ram_rd ops fs' b m = ram_rd ops fs1 b m)"
proof -
  let ?fs' = "ram_wr ops fs1 pa sz (amo_new op sz (ram_rd ops fs1 pa sz) val)"
  have sz: "(ucast (ucast sz :: u64) :: u32) = sz" "sz \<noteq> 4 \<Longrightarrow> sz = 8"
    using assms(1) by auto
  have op: "\<not> 8 < op"
    using assms(3) by simp
  have "machina_amo_op ops fs gva val (ucast sz) op =
      Ok (Returned (if sz = 4 then sext32 (ram_rd ops fs1 pa sz) else ram_rd ops fs1 pa sz), ?fs')"
    unfolding machina_amo_op_def Let_def sz(1)
    using assms op by (auto simp: ram_read ram_write)
  moreover have "ram_rd ops ?fs' pa sz = amo_value op sz (ram_rd ops fs1 pa sz) val"
    using hart_ram.rmw [OF assms(5), of ops "\<lambda>old. amo_new op sz old val"] amo_new_value [OF assms(1)] by simp
  moreover have "ram_rd ops ?fs' b m = ram_rd ops fs1 b m" if "ram_ok fs1 b m \<and> disjoint_access pa sz b m" for b m
    using that assms(5) by (simp add: ram_rd_wr_other)
  ultimately show ?thesis
    by blast
qed

theorem amo_read_modify_write_witness:
  "\<exists>fs'. machina_amo_op no_devices demo_fs 0x80000008 5 (ucast (8 :: u32)) 1 =
       Ok (Returned (ram_rd no_devices demo_fs 0x80000008 8), fs')
     \<and> ram_rd no_devices fs' 0x80000008 8 = ram_rd no_devices demo_fs 0x80000008 8 + 5"
proof -
  have acc: "accessible demo_fs 0x80000008 8"
    by (rule demo_fs_accessible) simp_all
  have tr: "translate_for_helper no_devices demo_fs 0x80000008 Write 8 = Ok (Some 0x80000008, touched 0x80000008 demo_fs)"
    using acc by (simp add: bare_translate accessible_parts)
  show ?thesis
    using amo_read_modify_write [OF _ _ _ tr, where op = "1" and val = "5"] touched_ok [OF acc]
    by (auto simp: amo_value_def amo_spec_def)
qed

text \<open>
  C24: A store-conditional, in any translation mode, always drops the reservation. If its
  translation faults it traps and stores nothing. If its address translates to a backed RAM
  location it succeeds exactly if the reservation is for that location and the location still
  holds the reserved value; it then stores, and otherwise changes no memory.
\<close>
theorem store_conditional:
  assumes "sz = 4 \<or> sz = 8" and "translate_for_helper ops fs gva Write (ucast sz) = Ok (tr, fs1)"
    and "tr = Some pa \<Longrightarrow> ram_ok fs1 pa (ucast sz) \<and> is_phys_backed fs1 pa (ucast sz)"
  shows "case tr of
      None \<Rightarrow> \<exists>r fs'. machina_sc_op ops fs gva val sz = Ok (r, fs') \<and> r \<in> {LoopExit, Panicked}
        \<and> load_res (fs_cpu fs') = - 1 \<and> fs_bk fs' = fs_bk fs1
    | Some a \<Rightarrow> a = pa \<longrightarrow>
        (let old = ram_rd ops fs1 pa (ucast sz);
             success = (load_res (fs_cpu fs1) = pa \<and> load_val (fs_cpu fs1) = (if sz = 4 then sext32 old else old))
         in \<exists>fs'. machina_sc_op ops fs gva val sz = Ok (Returned (if success then 0 else 1), fs')
              \<and> load_res (fs_cpu fs') = - 1
              \<and> ram_rd ops fs' pa (ucast sz) = (if success then take_bit (8 * unat sz) val else old)
              \<and> (\<forall>b m. ram_ok fs1 b m \<and> disjoint_access pa (ucast sz) b m \<longrightarrow>
                    ram_rd ops fs' b m = ram_rd ops fs1 b m))"
proof (cases tr)
  case None
  then show ?thesis
    using assms(2) by (simp add: machina_sc_op_def exit_with_def raise_keeps cpu_loop_exit_def Let_def)
next
  case (Some a)
  have "?thesis" if a: "a = pa"
    unfolding Some option.case Let_def using sc_ram [OF assms(1), of ops fs gva pa fs1 val] assms(2,3) Some a
    by (simp add: Let_def)
  then show ?thesis
    unfolding Some by auto
qed

theorem store_conditional_witness:
  "\<exists>fs'. machina_sc_op no_devices demo_fs 0x80000008 5 8 = Ok (Returned 1, fs')"
proof -
  have acc: "accessible demo_fs 0x80000008 8"
    by (rule demo_fs_accessible) simp_all
  have tr: "translate_for_helper no_devices demo_fs 0x80000008 Write (ucast (8 :: u64)) =
      Ok (Some 0x80000008, touched 0x80000008 demo_fs)"
    using acc by (simp add: bare_translate accessible_parts)
  have res: "load_res (fs_cpu demo_fs) = - 1"
    by (simp add: demo_fs_def new_with_model_def Let_def)
  show ?thesis
    using store_conditional [OF _ tr, where pa = "0x80000008" and val = "5"] touched_ok [OF acc] res
    by (auto simp: Let_def)
qed

text \<open>
  C25: Loads and stores through the helpers, without paging: after any sequence of stores to
  pairwise disjoint RAM locations that the PMP lets the hart read and write, every store has
  succeeded, and a load of each location returns what was stored there, truncated to its size.
\<close>
theorem stores_then_load:
  assumes "\<forall>(a, n, v)\<in>set ws. accessible fs a n"
    and "sorted_wrt (\<lambda>(a, n, _) (b, m, _). disjoint_access a n b m) ws" and "(a, n, v) \<in> set ws"
  shows "\<exists>fs1 fs2. helper_stores ops fs ws = Ok fs1
     \<and> machina_mem_read ops fs1 a n = Ok (take_bit (8 * unat n) v, fs2)"
proof -
  let ?fs1 = "foldl (\<lambda>s (a, n, v). helper_store ops s a n v) fs ws"
  have "accessible fs a n"
    using assms(1,3) by auto
  then have acc: "accessible ?fs1 a n"
    by (rule hart_data.ok_writes [OF assms(1)])
  then have "machina_mem_read ops ?fs1 a n = Ok (take_bit (8 * unat n) v, touched a ?fs1)"
    using mem_read_bare [OF acc] hart_data.rd_writes [OF assms, of ops] by (simp add: helper_bare)
  then show ?thesis
    using helper_stores_fold [OF assms(1), of ops] by blast
qed

theorem stores_then_load_witness:
  "\<exists>fs1 fs2. helper_stores no_devices demo_fs [(0x80000008, 4, 7), (0x80000000, 8, 9), (0x8000000C, 1, 0x101)] = Ok fs1
     \<and> machina_mem_read no_devices fs1 0x8000000C 1 = Ok (take_bit (8 * unat (1 :: u32)) 0x101, fs2)"
  by (rule stores_then_load) (simp_all add: demo_fs_accessible disjoint_access_def)

end
