(* ===== verification/Hart_System.thy ===== *)
theory Hart_System
  imports Hart_Memory
begin

text \<open>
  The hart as a whole: what an execution of helpers, hooks, traps and translated code keeps of
  its state, how faults and interrupts reach the guest, and how LR/SC pairs behave across stores
  (\<open>system/src/cpus.rs\<close> with the components under \<open>guest/riscv/src/riscv/\<close>).
\<close>

section \<open>LR/SC pairs\<close>

lemma accessible_same: "same_access fs fs' \<Longrightarrow> accessible fs a n \<Longrightarrow> accessible fs' a n"
  by (simp add: same_access_iff)

lemma ucast_atomic_size: "sz = 4 \<or> sz = 8 \<Longrightarrow> unat (ucast (sz :: u64) :: u32) = unat sz"
  by auto

lemma lr_bare:
  assumes "sz = 4 \<or> sz = 8" and "accessible fs a (ucast sz)"
  shows "let v = (if sz = 4 then sext32 (ram_rd ops fs a (ucast sz)) else ram_rd ops fs a (ucast sz))
     in machina_lr_op ops fs a sz = Ok (Returned v, fs\<lparr>fs_cpu := (fill_ram a (fs_cpu fs))\<lparr>load_res := a, load_val := v\<rparr>\<rparr>)"
proof -
  note acc = assms(2)
  show ?thesis
    unfolding machina_lr_op_def bare_translate [OF accessible_parts(1-3) [OF acc]] res_bind_simps prod.case option.case
      read_atomic_ram [OF assms(1) touched_ok(1) [OF acc]] touched_ok(3) [OF acc] Let_def
    by (simp add: touched_ok [OF acc])
qed

definition reserve :: "u64 \<Rightarrow> u64 \<Rightarrow> 'd full_system \<Rightarrow> 'd full_system" where
  "reserve a v fs = fs\<lparr>fs_cpu := (fill_ram a (fs_cpu fs))\<lparr>load_res := a, load_val := v\<rparr>\<rparr>"

lemma reserve_keeps:
  "same_access fs (reserve a v fs)" "same_ram fs (reserve a v fs)"
proof -
  have "retag (\<lambda>c. (fill_ram a c)\<lparr>load_res := a, load_val := v\<rparr>)"
    by (simp add: retag_def fill_ram_def fill_identity_def Let_def)
  from retag_same [OF this] show "same_access fs (reserve a v fs)" "same_ram fs (reserve a v fs)"
    by (simp_all add: reserve_def)
qed

text \<open>The value at a location after a helper store to it or to a disjoint one.\<close>

lemma rd_after_store:
  assumes a: "accessible fs a m" and b: "accessible fs b n" and "disjoint_access b n a m \<or> b = a \<and> n = m"
  shows "ram_rd ops (ram_wr ops (touched b fs) b n w) a m =
    (if disjoint_access b n a m then ram_rd ops fs a m else take_bit (8 * unat n) w)"
  using assms(3) ram_rd_wr_other [OF touched_ok(1) [OF b] touched_ok(1) [OF a]]
    ram_rd_wr_same [OF touched_ok(1) [OF b]] touched_ok(3) [OF a]
  by auto

text \<open>
  C17: LR/SC without paging. After a load-reserved, a store through the helpers to a disjoint
  location leaves the reservation good: the store-conditional returns 0 and its value is in
  memory. After a store to the reserved location itself the store-conditional succeeds exactly
  if that store left the old value there, since the value is what the code compares. Either way
  the reservation is gone afterwards.
\<close>
theorem lr_store_sc:
  assumes "sz = 4 \<or> sz = 8" and "accessible fs a (ucast sz)" and "accessible fs b n"
    and "disjoint_access b n a (ucast sz) \<or> b = a \<and> n = ucast sz"
  shows "\<exists>v fs1 fs2 fs3 r. machina_lr_op ops fs a sz = Ok (Returned v, fs1)
     \<and> machina_mem_write ops fs1 b w n = Ok fs2
     \<and> machina_sc_op ops fs2 a x sz = Ok (Returned r, fs3)
     \<and> (r = 0 \<longleftrightarrow> disjoint_access b n a (ucast sz)
          \<or> (if sz = 4 then sext32 (take_bit (8 * unat n) w) else take_bit (8 * unat n) w) = v)
     \<and> (r = 0 \<longrightarrow> ram_rd ops fs3 a (ucast sz) = take_bit (8 * unat sz) x)
     \<and> load_res (fs_cpu fs3) = - 1"
proof -
  define old where "old = ram_rd ops fs a (ucast sz)"
  define v where "v = (if sz = 4 then sext32 old else old)"
  define fs1 where "fs1 = reserve a v fs"
  define fs2 where "fs2 = ram_wr ops (touched b fs1) b n w"
  have lr: "machina_lr_op ops fs a sz = Ok (Returned v, fs1)"
    using lr_bare [OF assms(1,2), of ops] by (simp add: fs1_def reserve_def v_def old_def Let_def)
  have acc1: "accessible fs1 a (ucast sz)" "accessible fs1 b n"
    using assms(2,3) reserve_keeps(1) accessible_same unfolding fs1_def by blast+
  have wr: "machina_mem_write ops fs1 b w n = Ok fs2"
    unfolding fs2_def by (rule mem_write_bare [OF acc1(2)])
  note ok = touched_ok(1) [OF acc1(2), where b = b]
  have acc2: "accessible fs2 a (ucast sz)"
    using acc1(1) touched_keeps(1) same_access_wr [OF ok] accessible_same unfolding fs2_def by blast
  have res: "load_res (fs_cpu fs2) = a" "load_val (fs_cpu fs2) = v"
    unfolding fs2_def wr_keeps_reservation [OF ok] by (simp_all add: fs1_def reserve_def)
  have rd: "ram_rd ops fs2 a (ucast sz) = (if disjoint_access b n a (ucast sz) then old else take_bit (8 * unat n) w)"
    unfolding fs2_def rd_after_store [OF acc1 assms(4)] old_def
    using same_ram_rd [OF reserve_keeps(2) accessible_parts(5) [OF assms(2)]] by (simp add: fs1_def)
  note tr = bare_translate [OF accessible_parts(1,2,4) [OF acc2], of ops]
  have "\<exists>fs3. machina_sc_op ops fs2 a x sz =
      Ok (Returned (if (if sz = 4 then sext32 (ram_rd ops fs2 a (ucast sz)) else ram_rd ops fs2 a (ucast sz)) = v
                    then 0 else 1), fs3)
    \<and> load_res (fs_cpu fs3) = - 1
    \<and> ram_rd ops fs3 a (ucast sz) =
        (if (if sz = 4 then sext32 (ram_rd ops fs2 a (ucast sz)) else ram_rd ops fs2 a (ucast sz)) = v
         then take_bit (8 * unat sz) x else ram_rd ops fs2 a (ucast sz))"
    using sc_ram [OF assms(1) tr touched_ok(1,2) [OF acc2], where val = x] res
    unfolding touched_ok(3) [OF acc2] Let_def by (auto split: if_splits)
  then show ?thesis
    using lr wr unfolding rd v_def old_def by (fastforce split: if_splits)
qed

theorem lr_store_sc_witness:
  "\<exists>v fs1 fs2 fs3. machina_lr_op no_devices demo_fs 0x80000008 8 = Ok (Returned v, fs1)
     \<and> machina_mem_write no_devices fs1 0x80000010 7 4 = Ok fs2
     \<and> machina_sc_op no_devices fs2 0x80000008 5 8 = Ok (Returned 0, fs3)"
proof -
  have "accessible demo_fs 0x80000008 (ucast (8 :: u64))" "accessible demo_fs 0x80000010 4"
    "disjoint_access 0x80000010 4 0x80000008 (ucast (8 :: u64))"
    using demo_fs_accessible by (simp_all add: disjoint_access_def)
  then show ?thesis
    using lr_store_sc [where fs = demo_fs and a = "0x80000008" and sz = "8" and b = "0x80000010" and n = "4"
        and w = "7" and x = "5" and ops = no_devices] by auto
qed

section \<open>Interrupts\<close>

lemma hw_mask_bits: "bit HW_MASK n \<longleftrightarrow> n \<in> {3, 7, 9, 11}"
  unfolding HW_MASK_def bit_or_iff bit_push_bit_1 by auto

text \<open>The pending bits that the hart sees after the device lines are mirrored.\<close>

definition mirrored :: "'d full_system \<Rightarrow> riscv_cpu" where
  "mirrored fs = (fs_cpu fs)\<lparr>cpu_csr := (cpu_csr (fs_cpu fs))\<lparr>mip := mip (cpu_csr (fs_cpu fs)) OR device_mip fs\<rparr>\<rparr>"

lemma device_mip_bits:
  "bit (device_mip fs) n \<longleftrightarrow>
     (if fs_builtin_mode fs \<and> bit (fs_shared_mip fs) 7
      then n \<noteq> 7 \<and> bit (fs_shared_mip fs) n \<or> n = 5 else bit (fs_shared_mip fs) n)"
  unfolding device_mip_def Let_def and_push_bit_1
  by (simp add: bit_or_iff bit_and_iff bit_not_iff mask_simps del: push_bit_of_1)
     (auto simp: bit_push_bit_1 dest: bit_imp_le_length)

lemma fs_handle_interrupt_mirrored:
  assumes "within (fs_shared_mip fs) HW_MASK" and "within (mip (cpu_csr (fs_cpu fs)) AND HW_MASK) (device_mip fs)"
  shows "fs_cpu (fs_handle_interrupt fs) = snd (cpu_handle_interrupt (mirrored fs))"
proof -
  let ?m = "mip (cpu_csr (fs_cpu fs))" and ?s = "fs_shared_mip fs"
  have sh: "bit ?s n \<Longrightarrow> n \<in> {3, 7, 9, 11}" for n
    using assms(1) by (auto simp: within_iff hw_mask_bits)
  have mi: "bit ?m n \<Longrightarrow> n \<in> {3, 7, 9, 11} \<Longrightarrow> bit (device_mip fs) n" for n
    using assms(2) by (auto simp: within_iff hw_mask_bits bit_and_iff)
  define q :: u64 where "q = push_bit 7 1"
  define t :: u64 where "t = push_bit 5 1"
  have qt: "bit q n \<longleftrightarrow> n = 7" "bit t n \<longleftrightarrow> n = 5" for n
    by (auto simp: q_def t_def bit_push_bit_1 simp del: push_bit_of_1)
  have conv: "?s AND q \<noteq> 0 \<longleftrightarrow> bit ?s 7"
    using and_push_bit_1 [of ?s 7] by (simp add: q_def del: push_bit_of_1)
  have "((if fs_builtin_mode fs \<and> ?s AND q \<noteq> 0 then ?m OR t else ?m) AND NOT HW_MASK) OR
      ((if fs_builtin_mode fs \<and> ?s AND q \<noteq> 0 then ?s AND NOT q else ?s) AND HW_MASK) = ?m OR device_mip fs"
    (is "?l = ?r")
  proof (rule bit_eqI)
    fix n
    assume "possible_bit TYPE(u64) n"
    then show "bit ?l n \<longleftrightarrow> bit ?r n"
      unfolding conv using sh [of n] mi [of n]
      by (auto simp: bit_or_iff bit_and_iff bit_not_iff device_mip_bits qt hw_mask_bits)
  qed
  then show ?thesis
    unfolding fs_handle_interrupt_def Let_def mirrored_def q_def [symmetric] t_def [symmetric]
    by (auto simp: conv split: if_splits)
qed

lemma pending_scan_find:
  fixes irqs :: "interrupt list"
  assumes "pending = mip (cpu_csr c) AND mie (cpu_csr c)"
  shows "pending_scan c pending (map interrupt_code irqs) =
    (case find (\<lambda>i. bit pending (interrupt_code i)) irqs of None \<Rightarrow> False | Some i \<Rightarrow> takable c i)"
proof (induction irqs)
  case (Cons i irqs)
  have "pending AND push_bit (interrupt_code i) 1 = 0 \<longleftrightarrow> \<not> bit pending (interrupt_code i)"
    by (rule and_push_bit_1)
  moreover have "takable c i \<longleftrightarrow>
      (if drop_bit (interrupt_code i) (mideleg (cpu_csr c)) AND 1 \<noteq> 0 then
        priv_num (cpu_priv c) < priv_num Supervisor
        \<or> priv_num (cpu_priv c) = priv_num Supervisor \<and> mstatus (cpu_csr c) AND MSTATUS_SIE \<noteq> 0
      else
        priv_num (cpu_priv c) < priv_num Machine
        \<or> priv_num (cpu_priv c) = priv_num Machine \<and> mstatus (cpu_csr c) AND MSTATUS_MIE \<noteq> 0)"
    if "bit pending (interrupt_code i)"
    using that unfolding and_1_iff takable_def Let_def assms bit_and_iff
    by (cases "cpu_priv c") (simp_all add: mask_simps)
  ultimately show ?case
    using Cons by simp
qed simp

lemma pending_scan_cong:
  "cpu_priv c' = cpu_priv c \<Longrightarrow> mideleg (cpu_csr c') = mideleg (cpu_csr c) \<Longrightarrow> mstatus (cpu_csr c') = mstatus (cpu_csr c) \<Longrightarrow>
     pending_scan c' pending irqs = pending_scan c pending irqs"
  by (induction irqs) simp_all

lemma pending_interrupt_find:
  "pending_interrupt fs \<longleftrightarrow>
     (case find (\<lambda>i. bit (mip (cpu_csr (mirrored fs)) AND mie (cpu_csr (mirrored fs))) (interrupt_code i)) INT_PRIORITY of
        None \<Rightarrow> False | Some i \<Rightarrow> takable (mirrored fs) i)"
proof -
  let ?c = "mirrored fs"
  let ?pending = "mip (cpu_csr ?c) AND mie (cpu_csr ?c)"
  have codes: "[11, 3, 7, 9, 1, 5] = map interrupt_code INT_PRIORITY"
    by (simp add: INT_PRIORITY_def)
  have pend: "(mip (cpu_csr (fs_cpu fs)) OR device_mip fs) AND mie (cpu_csr (fs_cpu fs)) = ?pending"
    by (simp add: mirrored_def)
  have scan: "pending_scan (fs_cpu fs) ?pending (map interrupt_code INT_PRIORITY) =
      pending_scan ?c ?pending (map interrupt_code INT_PRIORITY)"
    by (rule pending_scan_cong) (simp_all add: mirrored_def)
  have zero: "?pending = 0 \<Longrightarrow> find (\<lambda>i. bit ?pending (interrupt_code i)) INT_PRIORITY = None"
    by (simp add: find_None_iff)
  show ?thesis
    unfolding pending_interrupt_def Let_def pend codes scan pending_scan_find [OF refl]
    using zero by auto
qed

lemma find_weaken:
  assumes "find P xs = Some x" and "Q x" and "\<And>y. Q y \<Longrightarrow> P y"
  shows "find Q xs = Some x"
  using assms by (induction xs) (auto split: if_splits)



text \<open>
  A pending interrupt that is masked hides one of lower priority that could be taken: in
  machine mode with interrupts off, and a supervisor interrupt delegated, the first pending
  interrupt decides.
\<close>

lemma masked_interrupt_hides_takable:
  "\<exists>fs :: unit full_system. \<not> pending_interrupt fs \<and> (\<exists>irq. takable (mirrored fs) irq)"
proof -
  let ?csr = "csr_new\<lparr>mie := 0x202, mip := 0x202, mideleg := 0x200\<rparr>"
  let ?fs = "demo_fs\<lparr>fs_cpu := (fs_cpu demo_fs)\<lparr>cpu_priv := Supervisor, cpu_csr := ?csr\<rparr>\<rparr>"
  have "\<not> pending_interrupt ?fs"
    by (simp add: pending_interrupt_def device_mip_def demo_fs_def csr_new_def Let_def MSTATUS_SIE_def)
  moreover have "takable (mirrored ?fs) SupervisorSoftware"
    by (simp add: takable_def mirrored_def device_mip_def demo_fs_def csr_new_def Let_def)
  ultimately show ?thesis
    by blast
qed

section \<open>Faults\<close>

lemma check_access_Err: "check_access es a n access p = Inl e \<Longrightarrow> e = access_fault access"
proof -
  have "check_entries es a n access p is = Inl e \<Longrightarrow> e = access_fault access" for "is"
    by (induction "is") (auto simp: check_permission_def Let_def split: if_splits prod.splits)
  then show "check_access es a n access p = Inl e \<Longrightarrow> e = access_fault access"
    by (auto simp: check_access_def split: if_splits)
qed

text \<open>A load or store through the helpers, without its value.\<close>

definition data_access :: "'d mmio_ops \<Rightarrow> 'd full_system \<Rightarrow> bool \<Rightarrow> u64 \<Rightarrow> u64 \<Rightarrow> u32 \<Rightarrow> mem_error + 'd full_system" where
  "data_access ops fs is_store a v n =
     (if is_store then machina_mem_write ops fs a v n
      else res_bind (machina_mem_read ops fs a n) (\<lambda>(_, fs'). Ok fs'))"

definition access_kind :: "bool \<Rightarrow> access_type" where
  "access_kind is_store = (if is_store then Write else Read)"

definition fault_cause :: "bool \<Rightarrow> u64" where
  "fault_cause is_store = (if is_store then 7 else 5)"

text \<open>The state after a refused access: a latched fault, the same memory, the same hart otherwise.\<close>

definition faulted :: "'d full_system \<Rightarrow> u64 \<Rightarrow> u64 \<Rightarrow> 'd full_system \<Rightarrow> bool" where
  "faulted fs cause a fs' \<longleftrightarrow> fs_bk fs' = fs_bk fs \<and> mem_fault_cause (fs_cpu fs') = cause \<and> mem_fault_tval (fs_cpu fs') = a
     \<and> pc (fs_cpu fs') = pc (fs_cpu fs) \<and> fault_pc (fs_cpu fs') = fault_pc (fs_cpu fs)
     \<and> cpu_csr (fs_cpu fs') = cpu_csr (fs_cpu fs) \<and> cpu_priv (fs_cpu fs') = cpu_priv (fs_cpu fs)"

lemma bare_translate_denied:
  assumes "bare (fs_cpu fs)" and "\<not> pmp_grants (fs_cpu fs) a n access"
  shows "translate_for_helper ops fs a access n =
    Ok (None, fs\<lparr>fs_cpu := latch_fault (fs_cpu fs) (bare_fault_code (access_fault access)) a\<rparr>)"
proof (cases "check_access (cpu_pmp (fs_cpu fs)) a (ucast n) access
    (effective_data_priv (cpu_priv (fs_cpu fs)) (mstatus (cpu_csr (fs_cpu fs))))")
  case (Inl e)
  have "(if effective_data_priv (cpu_priv (fs_cpu fs)) (mstatus (cpu_csr (fs_cpu fs))) = Machine then 0
      else satp_mode (cpu_mmu (fs_cpu fs))) = 0"
    using assms(1) by (auto simp: bare_def)
  then show ?thesis
    unfolding translate_for_helper_def Let_def using Inl check_access_Err [OF Inl] by simp
qed (use assms(2) in \<open>simp add: pmp_grants_def\<close>)

lemma bare_translate_granted:
  assumes "bare (fs_cpu fs)" and "pmp_grants (fs_cpu fs) a n access"
  obtains m where "translate_for_helper ops fs a access n = Ok (Some a, fs\<lparr>fs_cpu := (fs_cpu fs)\<lparr>cpu_mmu := m\<rparr>\<rparr>)"
proof -
  have "(if effective_data_priv (cpu_priv (fs_cpu fs)) (mstatus (cpu_csr (fs_cpu fs))) = Machine then 0
      else satp_mode (cpu_mmu (fs_cpu fs))) = 0"
    using assms(1) by (auto simp: bare_def)
  then have "translate_for_helper ops fs a access n = Ok (Some a, fs\<lparr>fs_cpu := (fs_cpu fs)\<lparr>cpu_mmu :=
      fill_identity (cpu_mmu (fs_cpu fs)) a (if in_ram_window (fs_cpu fs) a then guest_base (fs_cpu fs) else TLB_MMIO_ADDEND)\<rparr>\<rparr>)"
    unfolding translate_for_helper_def Let_def using assms(2) by (simp add: pmp_grants_def)
  then show ?thesis
    by (rule that)
qed

lemma backed_mmu [simp]:
  "is_phys_backed (fs\<lparr>fs_cpu := (fs_cpu fs)\<lparr>cpu_mmu := m\<rparr>\<rparr>) a n = is_phys_backed fs a n"
  by (simp add: is_phys_backed_def Let_def)

lemma refused_access_faults:
  assumes "bare (fs_cpu fs)" and "\<not> (pmp_grants (fs_cpu fs) a n (access_kind st) \<and> is_phys_backed fs a n)"
  shows "\<exists>fs'. data_access ops fs st a v n = Ok fs' \<and> faulted fs (fault_cause st) a fs'"
proof (cases "pmp_grants (fs_cpu fs) a n (access_kind st)")
  case True
  then obtain m where tr: "translate_for_helper ops fs a (access_kind st) n =
      Ok (Some a, fs\<lparr>fs_cpu := (fs_cpu fs)\<lparr>cpu_mmu := m\<rparr>\<rparr>)"
    using bare_translate_granted [OF assms(1)] by blast
  have "\<not> is_phys_backed fs a n"
    using assms(2) True by simp
  with tr show ?thesis
    by (cases st) (simp_all add: data_access_def access_kind_def fault_cause_def machina_mem_write_def
        machina_mem_read_def faulted_def latch_fault_def)
next
  case False
  then have "translate_for_helper ops fs a (access_kind st) n =
      Ok (None, fs\<lparr>fs_cpu := latch_fault (fs_cpu fs) (bare_fault_code (access_fault (access_kind st))) a\<rparr>)"
    by (rule bare_translate_denied [OF assms(1)])
  then show ?thesis
    by (cases st) (simp_all add: data_access_def access_kind_def fault_cause_def machina_mem_write_def
        machina_mem_read_def faulted_def latch_fault_def bare_fault_code_def)
qed

lemma check_mem_fault_trap:
  assumes "faulted fs (fault_cause st) a fs'"
  shows "\<exists>c. check_mem_fault (fs_cpu fs') = (True, do_trap c (fault_cause st) a)
    \<and> pc c = (if fault_pc (fs_cpu fs) \<noteq> 0 then fault_pc (fs_cpu fs) else pc (fs_cpu fs))
    \<and> cpu_csr c = cpu_csr (fs_cpu fs) \<and> cpu_priv c = cpu_priv (fs_cpu fs)"
  using assms
  by (cases st)
     (auto simp: check_mem_fault_def faulted_def handle_exception_def exception_of_code_def raise_exception_def
       fault_cause_def clear_fault_def Let_def)



end
