(* ===== verification/Hart_Invariant.thy ===== *)
theory Hart_Invariant
  imports Hart_System
begin

text \<open>
  An invariant of the whole hart and a step relation for everything that can happen to it: the
  helpers that translated code calls, the hooks of the execution loop, traps and trap returns,
  the register updates of translated code, and the activity of the devices. Every step keeps the
  invariant and every locked PMP entry.
\<close>

section \<open>The invariant\<close>

definition hart_ok :: "riscv_cpu \<Rightarrow> bool" where
  "hart_ok c \<longleftrightarrow> cpu_wf c \<and> cpu_pmp c = pmp_of_csr (cpu_csr c) \<and> \<not> bit (fault_pc c) 0"

text \<open>What one step may do, and what it keeps.\<close>

definition hart_rel :: "riscv_cpu \<Rightarrow> riscv_cpu \<Rightarrow> bool" where
  "hart_rel c c' \<longleftrightarrow> (hart_ok c \<longrightarrow> hart_ok c'
     \<and> (\<forall>i<PMP_COUNT. pmp_locked (cpu_csr c) i \<longrightarrow> pmp_entry_kept (cpu_csr c) (cpu_csr c') i))"

lemma pmp_entry_kept_refl [simp]: "pmp_entry_kept c c i"
  by (simp add: pmp_entry_kept_def)

lemma hart_rel_refl [simp]: "hart_rel c c"
  by (simp add: hart_rel_def)

lemma hart_rel_trans [trans]:
  assumes "hart_rel c c'" and "hart_rel c' c''"
  shows "hart_rel c c''"
  unfolding hart_rel_def
proof (intro impI conjI allI)
  assume ok: "hart_ok c"
  then have ok': "hart_ok c'"
    using assms(1) by (simp add: hart_rel_def)
  then show "hart_ok c''"
    using assms(2) by (simp add: hart_rel_def)
  fix i
  assume i: "i < PMP_COUNT" "pmp_locked (cpu_csr c) i"
  then have k: "pmp_entry_kept (cpu_csr c) (cpu_csr c') i"
    using assms(1) ok by (simp add: hart_rel_def)
  then have "pmp_locked (cpu_csr c') i"
    using i(2) pmp_entry_kept_locked(1) by blast
  then have "pmp_entry_kept (cpu_csr c') (cpu_csr c'') i"
    using assms(2) ok' i(1) by (simp add: hart_rel_def)
  with k show "pmp_entry_kept (cpu_csr c) (cpu_csr c'') i"
    by (rule pmp_entry_kept_trans)
qed

section \<open>Steps that only touch the TLB, the memory bookkeeping and latches\<close>

definition quiet :: "riscv_cpu \<Rightarrow> riscv_cpu \<Rightarrow> bool" where
  "quiet c c' \<longleftrightarrow> cpu_csr c' = cpu_csr c \<and> cpu_pmp c' = cpu_pmp c \<and> pc c' = pc c \<and> gpr c' = gpr c \<and> fpr c' = fpr c
     \<and> cpu_priv c' = cpu_priv c \<and> cpu_profile c' = cpu_profile c
     \<and> (fault_pc c' = fault_pc c \<or> fault_pc c' = 0) \<and> (mmu_wf (cpu_mmu c) \<longrightarrow> mmu_wf (cpu_mmu c')) \<and> last_phys_pc c' = last_phys_pc c"

lemma quiet_refl [simp]: "quiet c c"
  by (simp add: quiet_def)

lemma quiet_trans [trans]: "quiet c c' \<Longrightarrow> quiet c' c'' \<Longrightarrow> quiet c c''"
  by (auto simp: quiet_def)

lemma quiet_rel: "quiet c c' \<Longrightarrow> hart_rel c c'"
  by (auto simp: quiet_def hart_rel_def hart_ok_def cpu_wf_def)

lemma quiet_updates [simp]:
  "quiet c (c\<lparr>load_res := a\<rparr>)" "quiet c (c\<lparr>load_res := a, load_val := b\<rparr>)" "quiet c (latch_fault c x y)"
  "quiet c (clear_fault c)" "quiet c ((clear_fault c)\<lparr>load_res := a\<rparr>)" "quiet c (track_dirty bm c pa)"
  "quiet c (c\<lparr>cpu_mmu := fill_identity (cpu_mmu c) g a\<rparr>)" "quiet c (c\<lparr>fault_pc := 0\<rparr>)"
  "quiet c (c\<lparr>cpu_mmu := flush (cpu_mmu c)\<rparr>)" "quiet c (c\<lparr>cpu_mmu := flush_page (cpu_mmu c) v\<rparr>)"
  "quiet c (c\<lparr>tb_flush_pending := t\<rparr>)" "quiet c (c\<lparr>halted := h\<rparr>)" "quiet c (c\<lparr>neg_align := g'\<rparr>)"
  "quiet c (c\<lparr>jmp_env := j\<rparr>)" "quiet c (snd (take_dirty_pages c))"
  by (auto simp: quiet_def latch_fault_def clear_fault_def track_dirty_def take_dirty_pages_def Let_def case_prod_beta)

lemma quiet_drop: "quiet c c' \<Longrightarrow> quiet c (c'\<lparr>load_res := x\<rparr>)"
  by (simp add: quiet_def)

lemma translate_miss_wf:
  assumes "translate_miss m gva access p status sz pu mem = (res, m', ws)" and "mmu_wf m"
  shows "mmu_wf m'"
proof (cases res)
  case (Inr pa)
  from assms(1) [unfolded Inr] show ?thesis
  proof (rule translate_miss_leaf)
    fix ppn pg pte_addr pte level
    assume "m' = (count_miss m)\<lparr>tlb := (tlb m)[tlb_index gva := refill_entry m gva status
        (view_flags m (ad_pte access pte)) pa pg (tlb m ! tlb_index gva)]\<rparr>"
    then show ?thesis
      using mmu_wf_update [OF assms(2), of "refill_entry m gva status (view_flags m (ad_pte access pte)) pa pg
          (tlb m ! tlb_index gva)" m'] by simp
  qed
next
  case (Inl e)
  then show ?thesis
    using assms by (auto simp: translate_miss_def Let_def split: sum.splits prod.splits)
qed

lemma read_phys_quiet: "read_phys_sized ops fs pa sz = Ok (v, fs') \<Longrightarrow> fs_cpu fs' = fs_cpu fs"
  by (auto simp: read_phys_sized_def res_simps split: if_splits option.splits)

lemma write_phys_quiet: "write_phys_sized ops fs pa v sz = Ok fs' \<Longrightarrow> quiet (fs_cpu fs) (fs_cpu fs')"
  by (auto simp: write_phys_sized_def res_simps Let_def split: if_splits option.splits)

lemma walk_writes_quiet: "walk_writes ops fs ws = Ok fs' \<Longrightarrow> quiet (fs_cpu fs) (fs_cpu fs')"
proof (induction ops fs ws rule: walk_writes.induct)
  case (2 ops fs pa v ws)
  then obtain fs1 where w: "write_phys_sized ops fs pa v 8 = Ok fs1" and r: "walk_writes ops fs1 ws = Ok fs'"
    by (auto simp: res_simps)
  show ?case
    using write_phys_quiet [OF w] "2.IH" [OF r] by (rule quiet_trans)
qed simp

lemma walk_writes_mmu: "walk_writes ops fs ws = Ok fs' \<Longrightarrow> cpu_mmu (fs_cpu fs') = cpu_mmu (fs_cpu fs)"
proof (induction ops fs ws rule: walk_writes.induct)
  case (2 ops fs pa v ws)
  then show ?case
    by (auto simp: res_simps write_phys_sized_def Let_def split: if_splits option.splits)
qed simp

lemma paged_translate_quiet:
  assumes "paged_translate ops fs gva access p sz = Ok (res, fs')"
  shows "quiet (fs_cpu fs) (fs_cpu fs')"
proof -
  obtain r m' ws where tm: "translate_miss (cpu_mmu (fs_cpu fs)) gva access p (mstatus (cpu_csr (fs_cpu fs))) sz
      (Some (cpu_pmp (fs_cpu fs))) (walk_read ops fs) = (r, m', ws)"
    by (cases "translate_miss (cpu_mmu (fs_cpu fs)) gva access p (mstatus (cpu_csr (fs_cpu fs))) sz
      (Some (cpu_pmp (fs_cpu fs))) (walk_read ops fs)")
  then obtain fs1 where w: "walk_writes ops fs ws = Ok fs1"
    and fs': "fs_cpu fs' = (fs_cpu fs1)\<lparr>cpu_mmu := m'\<rparr> \<or> (\<exists>a. fs_cpu fs' = (fs_cpu fs1)\<lparr>cpu_mmu := fill_addend m' gva a\<rparr>)"
    using assms by (cases r) (fastforce simp: paged_translate_def Let_def res_simps)+
  show ?thesis
    using walk_writes_quiet [OF w] fs' translate_miss_wf [OF tm] by (auto simp: quiet_def)
qed

lemma translate_miss_satp:
  "translate_miss m gva access p status sz pu mem = (res, m', ws) \<Longrightarrow> mmu_satp m' = mmu_satp m"
  by (auto simp: translate_miss_def Let_def count_miss_def split: sum.splits prod.splits if_splits)

lemma paged_translate_satp:
  assumes "paged_translate ops fs gva access p sz = Ok (res, fs')"
  shows "mmu_satp (cpu_mmu (fs_cpu fs')) = mmu_satp (cpu_mmu (fs_cpu fs))"
proof -
  obtain r m' ws where tm: "translate_miss (cpu_mmu (fs_cpu fs)) gva access p (mstatus (cpu_csr (fs_cpu fs))) sz
      (Some (cpu_pmp (fs_cpu fs))) (walk_read ops fs) = (r, m', ws)"
    by (cases "translate_miss (cpu_mmu (fs_cpu fs)) gva access p (mstatus (cpu_csr (fs_cpu fs))) sz
      (Some (cpu_pmp (fs_cpu fs))) (walk_read ops fs)")
  show ?thesis
    using assms translate_miss_satp [OF tm]
    by (cases r) (auto simp: paged_translate_def tm Let_def res_simps fill_addend_def)
qed

lemma translate_quiet:
  assumes "translate_for_helper ops fs gva access sz = Ok (r, fs')"
  shows "quiet (fs_cpu fs) (fs_cpu fs')"
proof -
  have "quiet (fs_cpu fs) (latch_fault c x y)" if "quiet (fs_cpu fs) c" for c x y
    using that quiet_updates(3) by (rule quiet_trans)
  then show ?thesis
    using assms paged_translate_quiet
    by (fastforce simp: translate_for_helper_def Let_def res_simps split: if_splits sum.splits)
qed

lemma mem_read_quiet:
  assumes "machina_mem_read ops fs gva sz = Ok (v, fs')"
  shows "quiet (fs_cpu fs) (fs_cpu fs')"
proof -
  obtain tr fs1 where tr: "translate_for_helper ops fs gva Read sz = Ok (tr, fs1)"
    using assms by (auto simp: machina_mem_read_def res_simps)
  have "quiet (fs_cpu fs1) (fs_cpu fs')"
    using assms tr read_phys_quiet
    by (cases tr) (fastforce simp: machina_mem_read_def split: if_splits)+
  with translate_quiet [OF tr] show ?thesis
    by (rule quiet_trans)
qed

lemma mem_write_quiet:
  assumes "machina_mem_write ops fs gva v sz = Ok fs'"
  shows "quiet (fs_cpu fs) (fs_cpu fs')"
proof -
  obtain tr fs1 where tr: "translate_for_helper ops fs gva Write sz = Ok (tr, fs1)"
    using assms by (auto simp: machina_mem_write_def res_simps)
  have "quiet (fs_cpu fs1) (fs_cpu fs')"
    using assms tr write_phys_quiet
    by (cases tr) (fastforce simp: machina_mem_write_def split: if_splits)+
  with translate_quiet [OF tr] show ?thesis
    by (rule quiet_trans)
qed

lemma read_atomic_quiet: "read_atomic ops fs pa sz = Ok (v, fs') \<Longrightarrow> fs_cpu fs' = fs_cpu fs"
  by (auto simp: read_atomic_def res_simps dest: read_phys_quiet split: if_splits)

section \<open>Traps\<close>

lemma do_trap_fields: "fault_pc (do_trap c cause tval) = fault_pc c"
  "pmpcfg (cpu_csr (do_trap c cause tval)) = pmpcfg (cpu_csr c)"
  "pmpaddr (cpu_csr (do_trap c cause tval)) = pmpaddr (cpu_csr c)"
  by (simp_all add: do_trap_def Let_def)

lemma same_pmp_regs:
  assumes "pmpcfg c' = pmpcfg c" and "pmpaddr c' = pmpaddr c"
  shows "pmp_of_csr c' = pmp_of_csr c" "pmp_entry_kept c c' i"
  using assms by (simp_all add: pmp_of_csr_def pmp_entry_kept_def pmpcfg_byte_def)

lemma rel_same_pmp:
  assumes "cpu_wf c \<Longrightarrow> \<not> bit (fault_pc c) 0 \<Longrightarrow> cpu_wf c' \<and> \<not> bit (fault_pc c') 0" and "cpu_pmp c' = cpu_pmp c"
    and "pmpcfg (cpu_csr c') = pmpcfg (cpu_csr c)" and "pmpaddr (cpu_csr c') = pmpaddr (cpu_csr c)"
  shows "hart_rel c c'"
  using assms same_pmp_regs [OF assms(3,4)] by (simp add: hart_rel_def hart_ok_def)

lemma rel_trap: "hart_rel c (do_trap c cause tval)"
  by (rule rel_same_pmp) (simp_all add: do_trap_wf do_trap_frame do_trap_fields)

lemma rel_exit: "exit_with fs e tval = (r, fs') \<Longrightarrow> hart_rel (fs_cpu fs) (fs_cpu fs')"
  by (auto simp: exit_with_def Let_def raise_exception_def rel_trap)

lemma rel_mret: "hart_rel c (execute_mret c)"
  by (rule rel_same_pmp) (simp_all add: execute_mret_wf, simp_all add: execute_mret_def Let_def)

lemma rel_sret: "hart_rel c (snd (execute_sret c))"
  by (rule rel_same_pmp) (simp_all add: execute_sret_wf, simp_all add: execute_sret_def Let_def)

lemma rel_mip: "hart_rel c (c\<lparr>cpu_csr := (cpu_csr c)\<lparr>mip := v\<rparr>\<rparr>)"
  by (rule rel_same_pmp) (simp_all add: cpu_wf_def csr_wf_def)

lemma rel_interrupt: "hart_rel (fs_cpu fs) (fs_cpu (fs_handle_interrupt fs))"
proof -
  have take: "hart_rel c (snd (cpu_handle_interrupt c))" for c
    by (simp add: cpu_handle_interrupt_find rel_trap split: option.split)
  have "hart_rel c (c\<lparr>cpu_csr := (if P then (cpu_csr c)\<lparr>mip := a\<rparr> else cpu_csr c)\<lparr>mip := b\<rparr>\<rparr>)" for c P a b
    by (rule rel_same_pmp) (auto simp: cpu_wf_def csr_wf_def)
  then show ?thesis
    using hart_rel_trans [OF _ take] by (simp add: fs_handle_interrupt_def Let_def)
qed

lemma rel_mem_fault: "hart_rel c (snd (check_mem_fault c))"
proof (cases "mem_fault_cause c = 0")
  case False
  let ?c = "clear_fault c"
  let ?c' = "if fault_pc ?c \<noteq> 0 then ?c\<lparr>pc := fault_pc ?c, fault_pc := 0\<rparr> else ?c"
  have "hart_rel ?c ?c'"
    by (auto simp: hart_rel_def hart_ok_def cpu_wf_def)
  then have "hart_rel c ?c'"
    using quiet_rel [OF quiet_updates(4)] hart_rel_trans by blast
  then show ?thesis
    using False rel_trap hart_rel_trans
    by (auto simp: check_mem_fault_def handle_exception_def raise_exception_def Let_def)
qed (simp add: check_mem_fault_def)

lemma rel_executed: "hart_rel c (on_tb_executed c sz n)"
  by (rule rel_same_pmp) (simp_all add: on_tb_executed_def cpu_wf_def csr_wf_def)

section \<open>The atomic helpers\<close>

lemma rel_lr:
  assumes "machina_lr_op ops fs gva sz = Ok (r, fs')"
  shows "hart_rel (fs_cpu fs) (fs_cpu fs')"
proof -
  obtain tr fs1 where tr: "translate_for_helper ops fs gva Read (ucast sz) = Ok (tr, fs1)"
    using assms by (auto simp: machina_lr_op_def res_simps)
  have "hart_rel (fs_cpu fs1) (fs_cpu fs')"
  proof (cases tr)
    case None
    let ?fs2 = "fs1\<lparr>fs_cpu := (clear_fault (fs_cpu fs1))\<lparr>load_res := - 1\<rparr>\<rparr>"
    have "exit_with ?fs2 (load_fault (mem_fault_cause (fs_cpu fs1))) (mem_fault_tval (fs_cpu fs1)) = (r, fs')"
      using assms tr None by (simp add: machina_lr_op_def Let_def)
    from rel_exit [OF this] show ?thesis
      using hart_rel_trans [OF quiet_rel [OF quiet_updates(5)]] by simp
  next
    case (Some pa)
    show ?thesis
    proof (cases "is_phys_backed fs1 pa (ucast sz)")
      case True
      then show ?thesis
        using assms tr Some quiet_rel [OF quiet_updates(2)]
        by (auto simp: machina_lr_op_def res_simps dest: read_atomic_quiet)
    next
      case False
      then have "exit_with (fs1\<lparr>fs_cpu := (fs_cpu fs1)\<lparr>load_res := - 1\<rparr>\<rparr>) LoadAccessFault gva = (r, fs')"
        using assms tr Some by (simp add: machina_lr_op_def)
      from rel_exit [OF this] show ?thesis
        using hart_rel_trans [OF quiet_rel [OF quiet_updates(1)]] by simp
    qed
  qed
  then show ?thesis
    using quiet_rel [OF translate_quiet [OF tr]] hart_rel_trans by blast
qed

lemma rel_sc:
  assumes "machina_sc_op ops fs gva val sz = Ok (r, fs')"
  shows "hart_rel (fs_cpu fs) (fs_cpu fs')"
proof -
  obtain tr fs1 where tr: "translate_for_helper ops fs gva Write (ucast sz) = Ok (tr, fs1)"
    using assms by (auto simp: machina_sc_op_def res_simps)
  have "hart_rel (fs_cpu fs1) (fs_cpu fs')"
  proof (cases tr)
    case None
    let ?fs2 = "fs1\<lparr>fs_cpu := (clear_fault (fs_cpu fs1))\<lparr>load_res := - 1\<rparr>\<rparr>"
    have "exit_with ?fs2 (store_fault (mem_fault_cause (fs_cpu fs1))) (mem_fault_tval (fs_cpu fs1)) = (r, fs')"
      using assms tr None by (simp add: machina_sc_op_def Let_def)
    from rel_exit [OF this] show ?thesis
      using hart_rel_trans [OF quiet_rel [OF quiet_updates(5)]] by simp
  next
    case (Some pa)
    show ?thesis
    proof (cases "load_res (fs_cpu fs1) = pa \<and> \<not> is_phys_backed fs1 pa (ucast sz)")
      case True
      then have "exit_with (fs1\<lparr>fs_cpu := (fs_cpu fs1)\<lparr>load_res := - 1\<rparr>\<rparr>) StoreAccessFault gva = (r, fs')"
        using assms tr Some by (simp add: machina_sc_op_def)
      from rel_exit [OF this] show ?thesis
        using hart_rel_trans [OF quiet_rel [OF quiet_updates(1)]] by simp
    next
      case False
      then have "quiet (fs_cpu fs1) (fs_cpu fs')"
        using assms tr Some
        by (auto simp: machina_sc_op_def res_simps Let_def quiet_drop
            dest!: read_atomic_quiet write_phys_quiet split: if_splits)
      then show ?thesis
        by (rule quiet_rel)
    qed
  qed
  then show ?thesis
    using quiet_rel [OF translate_quiet [OF tr]] hart_rel_trans by blast
qed

lemma rel_amo:
  assumes "machina_amo_op ops fs gva val size64 op = Ok (r, fs')"
  shows "hart_rel (fs_cpu fs) (fs_cpu fs')"
proof (cases "ucast size64 \<noteq> (4 :: u32) \<and> ucast size64 \<noteq> (8 :: u32) \<or> gva AND (ucast (ucast size64 :: u32) - 1) \<noteq> 0")
  case True
  then obtain e where "exit_with fs e gva = (r, fs')"
    using assms by (auto simp: machina_amo_op_def Let_def split: if_split_asm)
  then show ?thesis by (rule rel_exit)
next
  case False
  let ?sz = "ucast size64 :: u32"
  note amo = assms [unfolded machina_amo_op_def Let_def]
  obtain tr fs1 where tr: "translate_for_helper ops fs gva Write ?sz = Ok (tr, fs1)"
    using amo False by (auto simp: res_simps split: if_split_asm)
  have "hart_rel (fs_cpu fs1) (fs_cpu fs')"
  proof (cases tr)
    case None
    have "exit_with (fs1\<lparr>fs_cpu := clear_fault (fs_cpu fs1)\<rparr>)
        (store_fault (mem_fault_cause (fs_cpu fs1))) (mem_fault_tval (fs_cpu fs1)) = (r, fs')"
      using amo tr None False by (auto split: if_split_asm)
    from rel_exit [OF this] show ?thesis
      using hart_rel_trans [OF quiet_rel [OF quiet_updates(4)]] by simp
  next
    case (Some pa)
    then have "(\<exists>e t. exit_with fs1 e t = (r, fs')) \<or> quiet (fs_cpu fs1) (fs_cpu fs')"
      using amo tr False by (auto simp: res_simps dest!: read_phys_quiet write_phys_quiet split: if_split_asm)
    then show ?thesis
      using rel_exit quiet_rel by blast
  qed
  then show ?thesis
    using quiet_rel [OF translate_quiet [OF tr]] hart_rel_trans by blast
qed

section \<open>CSR instructions\<close>

lemma csr_write_pmp_regs:
  assumes "csr_write c addr val p = Ok c'" and "\<not> is_pmp_csr addr"
  shows "pmpcfg c' = pmpcfg c" "pmpaddr c' = pmpaddr c"
  using assms unfolding csr_write_def Let_def is_pmp_csr_def
  by (auto split: if_split_asm)

lemma rel_csr_write:
  assumes "try_csr_write c addr val = Ok c1" and "hart_ok c"
  shows "csr_effect (cpu_csr c) (cpu_priv c) (cpu_csr c1)" "c1 = c\<lparr>cpu_csr := cpu_csr c1\<rparr>"
    "cpu_wf c1" "\<not> is_pmp_csr addr \<Longrightarrow> cpu_pmp c1 = pmp_of_csr (cpu_csr c1)"
    "i < PMP_COUNT \<Longrightarrow> pmp_locked (cpu_csr c) i \<Longrightarrow> pmp_entry_kept (cpu_csr c) (cpu_csr c1) i"
proof -
  obtain f where w: "write_for_profile (cpu_csr c) addr val (cpu_priv c) (cpu_profile c) = Ok f"
    and c1: "c1 = c\<lparr>cpu_csr := f\<rparr>"
    using assms(1) by (auto simp: try_csr_write_def res_simps)
  have wf: "csr_wf (cpu_csr c)"
    using assms(2) by (simp add: hart_ok_def cpu_wf_def)
  show eff: "csr_effect (cpu_csr c) (cpu_priv c) (cpu_csr c1)"
    using write_for_profile_effect [OF w] by (simp add: c1)
  show "c1 = c\<lparr>cpu_csr := cpu_csr c1\<rparr>"
    by (simp add: c1)
  have "cpu_wf c"
    using assms(2) by (simp add: hart_ok_def)
  then show "cpu_wf c1"
    using csr_effect_wf [OF eff wf] by (simp add: c1 cpu_wf_def)
  show "i < PMP_COUNT \<Longrightarrow> pmp_locked (cpu_csr c) i \<Longrightarrow> pmp_entry_kept (cpu_csr c) (cpu_csr c1) i"
    by (rule csr_effect_pmp_kept [OF eff wf])
  assume "\<not> is_pmp_csr addr"
  then have "pmpcfg f = pmpcfg (cpu_csr c)" "pmpaddr f = pmpaddr (cpu_csr c)"
    using w csr_write_pmp_regs by (auto simp: write_for_profile_def res_simps split: sum.splits)
  from same_pmp_regs(1) [OF this] show "cpu_pmp c1 = pmp_of_csr (cpu_csr c1)"
    using assms(2) by (simp add: c1 hart_ok_def)
qed

text \<open>A CSR write followed by the copy of the PMP registers and changes of the TLB.\<close>

lemma rel_csr_sync:
  assumes "try_csr_write c addr val = Ok c1" and "c2 = (if is_pmp_csr addr then sync_pmp c1 else c1)"
    and "quiet c2 c'"
  shows "hart_rel c c'"
  unfolding hart_rel_def
proof (intro impI)
  assume ok: "hart_ok c"
  note w = rel_csr_write [OF assms(1) ok]
  have wf1: "csr_wf (cpu_csr c1)" "length (cpu_pmp c1) = PMP_COUNT"
    using w(3) by (simp_all add: cpu_wf_def)
  have "cpu_csr c2 = cpu_csr c1" "fault_pc c2 = fault_pc c"
    using assms(2) w(2) by (auto simp: sync_pmp_def) (metis riscv_cpu.ext_inject riscv_cpu.surjective riscv_cpu.update_convs(20))
  moreover have "cpu_pmp c2 = pmp_of_csr (cpu_csr c1)" "cpu_wf c2"
    using assms(2) w(3,4) sync_from_csr_indep [OF wf1(2,1)] sync_from_csr_length [OF wf1(2,1)]
    by (auto simp: sync_pmp_def cpu_wf_def)
  ultimately have "hart_ok c2"
    using ok by (simp add: hart_ok_def)
  then have "hart_ok c'"
    using quiet_rel [OF assms(3)] by (simp add: hart_rel_def)
  moreover have "cpu_csr c' = cpu_csr c1"
    using assms(3) \<open>cpu_csr c2 = cpu_csr c1\<close> by (simp add: quiet_def)
  ultimately show "hart_ok c' \<and> (\<forall>i<PMP_COUNT. pmp_locked (cpu_csr c) i \<longrightarrow> pmp_entry_kept (cpu_csr c) (cpu_csr c') i)"
    using w(5) by simp
qed

lemma csr_old_quiet: "csr_old ops fs addr = Ok (r, fs') \<Longrightarrow> fs_cpu fs' = fs_cpu fs"
  by (auto simp: csr_old_def time_read_def res_simps split: if_splits)

lemma quiet_sync:
  "quiet c (if P then c\<lparr>cpu_mmu := flush (set_satp (cpu_mmu c) v), tb_flush_pending := True\<rparr>
     else if Q then c\<lparr>cpu_mmu := flush (cpu_mmu c)\<rparr> else c)"
  "quiet c (if P then c\<lparr>cpu_mmu := flush (set_satp (cpu_mmu c) v)\<rparr>
     else if Q then c\<lparr>cpu_mmu := flush (cpu_mmu c)\<rparr> else c)"
  by (simp_all add: quiet_def)

lemma rel_csr_op:
  assumes "machina_csr_op ops fs csr rs1_val rs1_idx funct3 = Ok (r, fs')"
  shows "hart_rel (fs_cpu fs) (fs_cpu fs')"
proof -
  let ?addr = "ucast csr :: u16"
  obtain q fs1 where old: "csr_old ops fs ?addr = Ok (q, fs1)"
    using assms by (auto simp: machina_csr_op_def Let_def res_simps)
  have "hart_rel (fs_cpu fs1) (fs_cpu fs')"
  proof (cases "fs' = fs1 \<or> exit_with fs1 IllegalInstruction 0 = (r, fs')")
    case True
    then show ?thesis
      using rel_exit by auto
  next
    case False
    then obtain v c where "try_csr_write (fs_cpu fs1) ?addr v = Ok c"
      and "fs' = fs1\<lparr>fs_cpu := sync_after_write ?addr v c\<rparr>"
      using assms old
      by (auto simp: machina_csr_op_def Let_def split: sum.splits option.splits if_split_asm)
    then show ?thesis
      using rel_csr_sync [OF _ refl quiet_sync(1)] by (simp add: sync_after_write_def Let_def)
  qed
  then show ?thesis
    using csr_old_quiet [OF old] by simp
qed

lemma translate_pc_quiet:
  assumes "translate_pc ops fs vpc = Ok (v, fs')"
  shows "quiet (fs_cpu fs) (fs_cpu fs')"
proof -
  have "quiet (fs_cpu fs) (latch_fault c x y)" if "quiet (fs_cpu fs) c" for c x y
    using that quiet_updates(3) by (rule quiet_trans)
  then show ?thesis
    using assms paged_translate_quiet
    by (fastforce simp: translate_pc_def Let_def res_simps split: if_splits sum.splits)
qed

lemma fetch_insn_quiet:
  assumes "fetch_insn_at_pc ops fs = Ok (v, fs')"
  shows "quiet (fs_cpu fs) (fs_cpu fs')"
proof -
  obtain p fs1 where tr: "translate_pc ops fs (pc (fs_cpu fs)) = Ok (p, fs1)"
    using assms by (auto simp: fetch_insn_at_pc_def Let_def res_simps)
  have "fs' = fs1\<lparr>fs_cpu := (fs_cpu fs1)\<lparr>mem_fault_cause := mem_fault_cause (fs_cpu fs),
      mem_fault_tval := mem_fault_tval (fs_cpu fs), fault_pc := fault_pc (fs_cpu fs)\<rparr>\<rparr>"
    using assms tr
    by (auto simp: fetch_insn_at_pc_def Let_def res_simps split: if_split_asm option.split_asm)
  then show ?thesis
    using translate_pc_quiet [OF tr] by (simp add: quiet_def)
qed

lemma rel_finish: "hart_rel (fs_cpu fs) (fs_cpu (csr_finish rd v fs))"
  by (rule rel_same_pmp) (simp_all add: csr_finish_def cpu_wf_def bit_0 Let_def)

lemma rel_commit:
  assumes "csr_commit addr funct3 rs1 rd old v fs = (b, fs')"
  shows "hart_rel (fs_cpu fs) (fs_cpu fs')"
proof (cases "try_csr_write (fs_cpu fs) addr v")
  case (Inl e)
  then show ?thesis
    using assms rel_finish by (auto simp: csr_commit_def split: if_splits)
next
  case (Inr c1)
  have "hart_rel (fs_cpu fs) (sync_priv_csr addr c1)"
    using rel_csr_sync [OF Inr refl quiet_sync(2)] by (simp add: sync_priv_csr_def Let_def)
  then have "hart_rel (fs_cpu fs) (fs_cpu (csr_finish rd old (fs1\<lparr>fs_cpu := sync_priv_csr addr c1\<rparr>)))" for fs1
    using hart_rel_trans rel_finish [of "fs1\<lparr>fs_cpu := sync_priv_csr addr c1\<rparr>"] by simp
  then show ?thesis
    using assms Inr rel_finish by (auto simp: csr_commit_def Let_def split: if_splits)
qed

lemma rel_csr_insn:
  assumes "csr_insn ops fs insn = Ok (b, fs')"
  shows "hart_rel (fs_cpu fs) (fs_cpu fs')"
proof (cases "insn AND 0x7F \<noteq> 0x73 \<or> drop_bit 12 insn AND 0x7 = 0")
  case True
  then show ?thesis
    using assms by (auto simp: csr_insn_def Let_def split: if_split_asm)
next
  case False
  note def = assms [unfolded csr_insn_def Let_def]
  obtain r fs1 where old: "csr_old ops fs (ucast (drop_bit 20 insn)) = Ok (r, fs1)"
    using def False by (auto simp: res_simps)
  have "fs' = fs1 \<or> (\<exists>a f x d o' n. csr_commit a f x d o' n fs1 = (b, fs'))"
    using def False unfolding old by (auto split: sum.split_asm option.split_asm)
  then show ?thesis
    using rel_commit csr_old_quiet [OF old] by fastforce
qed

lemma rel_priv_csr:
  assumes "handle_priv_csr ops fs = Ok (b, fs')"
  shows "hart_rel (fs_cpu fs) (fs_cpu fs')"
proof -
  let ?fs1 = "fs\<lparr>fs_instret_write_suppression := False, fs_cpu := (fs_cpu fs)\<lparr>fault_pc := 0\<rparr>\<rparr>"
  note def = assms [unfolded handle_priv_csr_def Let_def]
  obtain p fs2 where tr: "translate_pc ops ?fs1 (pc (fs_cpu fs)) = Ok (p, fs2)"
    using def by (auto simp: res_simps)
  have q: "hart_rel (fs_cpu fs) (fs_cpu fs2)"
    using quiet_rel [OF quiet_trans [OF quiet_updates(8)]] translate_pc_quiet [OF tr] by simp
  have l: "hart_rel (fs_cpu fs2) (latch_fault (fs_cpu fs2) x y)" for x y
    by (rule quiet_rel [OF quiet_updates(3)])
  have "hart_rel (fs_cpu fs2) (fs_cpu fs')"
    using def l unfolding tr
    by (auto simp: res_simps dest: rel_csr_insn split: if_split_asm option.split_asm)
  with q show ?thesis
    by (rule hart_rel_trans)
qed

section \<open>Executions\<close>

text \<open>
  Everything that happens to the hart. The first group are the helpers called from translated
  code and the hooks called by the execution loop. Translated code itself writes the integer and
  floating-point registers and stores even instruction addresses to the pc and the fault pc;
  devices change the interrupt lines and the memory behind the hart.
\<close>

inductive hart_step :: "'d mmio_ops \<Rightarrow> 'd full_system \<Rightarrow> 'd full_system \<Rightarrow> bool" for ops where
  step_load: "machina_mem_read ops fs a n = Ok (v, fs') \<Longrightarrow> hart_step ops fs fs'"
| step_store: "machina_mem_write ops fs a v n = Ok fs' \<Longrightarrow> hart_step ops fs fs'"
| step_lr: "machina_lr_op ops fs a sz = Ok (r, fs') \<Longrightarrow> hart_step ops fs fs'"
| step_sc: "machina_sc_op ops fs a v sz = Ok (r, fs') \<Longrightarrow> hart_step ops fs fs'"
| step_amo: "machina_amo_op ops fs a v sz op = Ok (r, fs') \<Longrightarrow> hart_step ops fs fs'"
| step_csr: "machina_csr_op ops fs csr v i f3 = Ok (r, fs') \<Longrightarrow> hart_step ops fs fs'"
| step_priv_csr: "handle_priv_csr ops fs = Ok (b, fs') \<Longrightarrow> hart_step ops fs fs'"
| step_fetch: "fetch_insn_at_pc ops fs = Ok (w, fs') \<Longrightarrow> hart_step ops fs fs'"
| step_interrupt: "hart_step ops fs (fs_handle_interrupt fs)"
| step_exception: "hart_step ops fs (fs\<lparr>fs_cpu := handle_exception (fs_cpu fs) e tval\<rparr>)"
| step_fault: "hart_step ops fs (fs\<lparr>fs_cpu := snd (check_mem_fault (fs_cpu fs))\<rparr>)"
| step_mret: "hart_step ops fs (fs\<lparr>fs_cpu := execute_mret (fs_cpu fs)\<rparr>)"
| step_sret: "hart_step ops fs (fs\<lparr>fs_cpu := snd (execute_sret (fs_cpu fs))\<rparr>)"
| step_flush: "hart_step ops fs (tlb_flush fs)"
| step_flush_page: "hart_step ops fs (tlb_flush_page fs vpn)"
| step_executed: "hart_step ops fs (fs\<lparr>fs_cpu := on_tb_executed (fs_cpu fs) sz' k\<rparr>)"
| step_dirty: "hart_step ops fs (fs\<lparr>fs_cpu := snd (take_dirty_pages (fs_cpu fs))\<rparr>)"
| step_requests: "fs' \<in> {set_exit_request fs, reset_exit_request fs, set_halted fs b, snd (take_tb_flush_pending fs),
    snd (take_instret_write_suppression fs), set_jmp_env fs j, clear_jmp_env fs} \<Longrightarrow> hart_step ops fs fs'"
| step_code: "length xs = 32 \<Longrightarrow> length ys = 32 \<Longrightarrow> \<not> bit p 0 \<Longrightarrow> \<not> bit f 0 \<Longrightarrow>
    hart_step ops fs (fs\<lparr>fs_cpu := (fs_cpu fs)\<lparr>gpr := xs, fpr := ys, pc := p, fault_pc := f\<rparr>\<rparr>)"
| step_devices: "hart_step ops fs (fs\<lparr>fs_shared_mip := m, fs_bk := bk, fs_wfi := w'\<rparr>)"

lemma rel_code:
  assumes "length xs = 32" and "length ys = 32" and "\<not> bit p 0" and "\<not> bit f 0"
  shows "hart_rel c (c\<lparr>gpr := xs, fpr := ys, pc := p, fault_pc := f\<rparr>)"
  by (rule rel_same_pmp) (use assms in \<open>simp_all add: cpu_wf_def\<close>)

lemma rel_requests:
  assumes "fs' \<in> {set_exit_request fs, reset_exit_request fs, set_halted fs b, snd (take_tb_flush_pending fs),
    snd (take_instret_write_suppression fs), set_jmp_env fs j, clear_jmp_env fs}"
  shows "hart_rel (fs_cpu fs) (fs_cpu fs')"
proof -
  have "quiet (fs_cpu fs) (fs_cpu fs')"
    using assms
    by (auto simp: set_exit_request_def reset_exit_request_def set_halted_def take_tb_flush_pending_def
        take_instret_write_suppression_def set_jmp_env_def clear_jmp_env_def)
  then show ?thesis
    by (rule quiet_rel)
qed

lemma step_rel:
  assumes "hart_step ops fs fs'"
  shows "hart_rel (fs_cpu fs) (fs_cpu fs')"
  using assms
proof cases
  case step_flush
  then show ?thesis
    using quiet_rel [OF quiet_updates(9)] by (simp add: tlb_flush_def)
next
  case step_flush_page
  then show ?thesis
    using quiet_rel [OF quiet_updates(10)] by (simp add: tlb_flush_page_def)
next
  case step_exception
  then show ?thesis
    by (simp add: handle_exception_def raise_exception_def rel_trap)
qed (auto intro: quiet_rel mem_read_quiet mem_write_quiet fetch_insn_quiet rel_lr rel_sc rel_amo rel_csr_op
      rel_priv_csr rel_interrupt rel_mem_fault rel_mret rel_sret rel_executed rel_requests rel_code)

lemma steps_rel: "(hart_step ops)\<^sup>*\<^sup>* fs fs' \<Longrightarrow> hart_rel (fs_cpu fs) (fs_cpu fs')"
  by (induction rule: rtranclp_induct) (auto intro: hart_rel_trans step_rel)

lemma pmp_of_new: "pmp_of_csr (set_max_satp_mode (set_machine_ids csr_new x y) z) = pmp_new"
proof (rule nth_equalityI)
  let ?c = "set_max_satp_mode (set_machine_ids csr_new x y) z"
  have wf: "csr_wf ?c"
    using csr_wf_new by (simp add: csr_wf_def set_max_satp_mode_def set_machine_ids_def csr_new_def)
  have new: "length pmp_new = PMP_COUNT"
    by (simp add: pmp_new_def)
  show len: "length (pmp_of_csr ?c) = length pmp_new"
    using sync_from_csr_length [OF new wf] new by (simp add: pmp_of_csr_def)
  fix i
  assume "i < length (pmp_of_csr ?c)"
  then have "i < PMP_COUNT"
    using len new by simp
  moreover from this have "i div 8 < 4"
    by (simp add: PMP_COUNT_def)
  ultimately show "pmp_of_csr ?c ! i = pmp_new ! i"
    using sync_from_csr_nth [OF new wf]
    by (simp add: pmp_of_csr_def pmp_new_def pmpcfg_byte_def set_max_satp_mode_def set_machine_ids_def csr_new_def
        nth_Cons' Let_def)
qed

lemma new_hart_ok:
  "hart_ok (fs_cpu (fs_new (new_with_model model) ram host base sz asp_ptr asp bk shared wfi running))"
proof -
  have "cpu_wf (new_with_model model)" by (rule new_with_model_wf)
  then show ?thesis
    by (simp add: hart_ok_def fs_new_def cpu_wf_def)
       (simp add: new_with_model_def pmp_of_new Let_def)
qed

lemma hart_ok_csr_wf: "hart_ok c \<Longrightarrow> csr_wf (cpu_csr c)"
  by (simp add: hart_ok_def cpu_wf_def)

lemma kept_decision:
  assumes ok: "hart_ok c" "hart_ok c'"
    and kept: "\<And>j. j \<le> k \<Longrightarrow> pmp_entry_kept (cpu_csr c) (cpu_csr c') j"
    and k: "k < PMP_COUNT" "pmp_locked (cpu_csr c) k"
    and m: "i \<le> k" "pmp_matches (cpu_pmp c) addr n i"
  shows "check_access (cpu_pmp c') addr n access p = check_access (cpu_pmp c) addr n access p"
proof -
  note wf = ok [THEN hart_ok_csr_wf]
  have pmp: "cpu_pmp c = pmp_of_csr (cpu_csr c)" "cpu_pmp c' = pmp_of_csr (cpu_csr c')"
    using ok by (simp_all add: hart_ok_def)
  have new: "length pmp_new = PMP_COUNT"
    by (simp add: pmp_new_def)
  have len: "length (cpu_pmp c) = PMP_COUNT" "length (cpu_pmp c') = PMP_COUNT"
    unfolding pmp pmp_of_csr_def using sync_from_csr_length [OF new] wf by auto
  have "pe_cfg (cpu_pmp c ! k) AND PMP_L \<noteq> 0"
    using pmp_of_csr_locked [OF wf(1) k(1)] k(2) pmp by simp
  then show ?thesis
    using k(1) kept pmp_of_csr_kept [OF wf] m
    by (intro check_access_locked_prefix [OF len k(1)]) (simp_all add: pmp)
qed

section \<open>Property\<close>


definition demo_locked_fs :: "unit full_system" where
  "demo_locked_fs = demo_fs\<lparr>fs_cpu := (fs_cpu demo_fs)\<lparr>cpu_csr := demo_locked_csr, cpu_pmp := pmp_of_csr demo_locked_csr\<rparr>\<rparr>"

lemma demo_locked_fs_ok: "hart_ok (fs_cpu demo_locked_fs)"
  using new_with_model_wf [of GenericRv64] demo_locked_csr_wf new_with_model_def
  by (simp add: hart_ok_def cpu_wf_def demo_locked_fs_def demo_fs_def pmp_of_csr_def)
     (simp add: new_with_model_def Let_def sync_from_csr_length pmp_new_def)

lemma csr_op_returns:
  assumes "ucast csr \<notin> {CSR_TIME, CSR_CYCLE :: u16}"
  obtains r fs' where "machina_csr_op ops fs csr v i f3 = Ok (r, fs')"
proof -
  obtain q fs1 where "csr_old ops fs (ucast csr) = Ok (q, fs1)"
    using assms by (cases "ucast csr = (CSR_INSTRET :: u16)") (auto simp: csr_old_def)
  then have "\<exists>x. machina_csr_op ops fs csr v i f3 = Ok x"
    by (auto simp: machina_csr_op_def Let_def split: sum.split option.split)
  then show thesis
    using that by auto
qed


end
