(* ===== verification/Riscv_Front.thy ===== *)
theory Riscv_Front
  imports Full_System
begin

text \<open>
  Fetching and splitting guest code into instructions: the fetch window of \<open>gen_code\<close> in
  \<open>system/src/cpus.rs\<close> and the translation loop of the RISC-V front end
  (\<open>guest/riscv/src/riscv/mod.rs\<close>). What the decoders emit for an instruction is not modelled: the
  IR of a block is the sequence of its instruction starts, decoded instructions and its end. The
  generated decoders are parameters that say whether they accept an instruction and how it ends
  the block.
\<close>

section \<open>The fetch window\<close>

text \<open>
  The region of the code, the largest number of instructions, and the instruction on the page
  boundary that was fetched in advance.
\<close>

record window =
  w_phys :: u64
  w_block :: nat
  w_base :: u64
  w_size :: u64
  w_limit :: u32
  w_cross :: u32
  w_cross_pc :: u64

definition page_remain :: "u64 \<Rightarrow> u64" where
  "page_remain phys = 4096 - (phys AND 0xFFF)"

definition fetch_u16 :: "'d full_system \<Rightarrow> nat \<Rightarrow> u64 \<Rightarrow> mem_error + u16" where
  "fetch_u16 fs block off =
     (case load_bytes (bk_block (fs_bk fs) block) (unat off) 2 of
        None \<Rightarrow> Err OutOfBounds
      | Some bs \<Rightarrow> Ok (ucast (from_le_bytes bs :: u64)))"

text \<open>The second half of an instruction on the boundary, from the page of its own address.\<close>

definition fetch_cross :: "'d mmio_ops \<Rightarrow> 'd full_system \<Rightarrow> u64 \<Rightarrow> u16 \<Rightarrow> mem_error + (u32 \<times> 'd full_system)" where
  "fetch_cross ops fs next_vpc lo =
     (let c = fs_cpu fs
      in res_bind (translate_pc ops fs next_vpc) (\<lambda>(next_phys, fs1).
           if next_phys = - 1 then Ok (0, fs1)
           else
             let fs2 = fs1\<lparr>fs_cpu := (fs_cpu fs1)\<lparr>mem_fault_cause := mem_fault_cause c, mem_fault_tval := mem_fault_tval c,
                   fault_pc := fault_pc c\<rparr>\<rparr>;
                 failed = fs2\<lparr>fs_cpu := latch_fault (fs_cpu fs2) 1 next_vpc\<rparr>
             in case resolve_fetch_region fs2 next_phys of
                  None \<Rightarrow> Ok (0, failed)
                | Some (nb, nbase, ns) \<Rightarrow>
                    if next_phys - nbase \<ge> ns then Ok (0, failed)
                    else res_bind (fetch_u16 fs2 nb (next_phys - nbase)) (\<lambda>hi.
                           Ok (ucast lo OR push_bit 16 (ucast hi), fs2))))"

definition cross_page :: "'d mmio_ops \<Rightarrow> 'd full_system \<Rightarrow> u64 \<Rightarrow> u64 \<Rightarrow> nat \<Rightarrow> u64 \<Rightarrow> u64 \<Rightarrow> mem_error + (u32 \<times> 'd full_system)" where
  "cross_page ops fs p phys block rb rs =
     (if page_remain phys mod 4 = 2 then
        let boundary_off = phys + page_remain phys - 2 - rb
        in if boundary_off < rs then
             res_bind (fetch_u16 fs block boundary_off) (\<lambda>lo.
               if lo AND 3 = 3 \<and> drop_bit 2 lo AND 7 \<noteq> 7
               then fetch_cross ops fs (p + page_remain phys) lo
               else Ok (0, fs))
           else Ok (0, fs)
      else Ok (0, fs))"

definition fetch_window :: "'d mmio_ops \<Rightarrow> 'd full_system \<Rightarrow> u64 \<Rightarrow> u32 \<Rightarrow> mem_error + (window option \<times> 'd full_system)" where
  "fetch_window ops fs p max_insns =
     res_bind (translate_pc ops (fs\<lparr>fs_cpu := (fs_cpu fs)\<lparr>fault_pc := 0\<rparr>\<rparr>) p) (\<lambda>(phys, fs1).
       if phys = - 1 then Ok (None, fs1)
       else
         let fs2 = fs1\<lparr>fs_cpu := (fs_cpu fs1)\<lparr>last_phys_pc := phys\<rparr>\<rparr>
         in case resolve_fetch_region fs2 phys of
              None \<Rightarrow> Ok (None, fs2\<lparr>fs_cpu := latch_fault (fs_cpu fs2) 1 p\<rparr>)
            | Some (block, rb, rs) \<Rightarrow>
                let avail = min (page_remain phys) (rs - (phys - rb)) div 2;
                    limit = min max_insns (ucast avail)
                in if limit = 0 then Ok (None, fs2)
                   else res_bind (cross_page ops fs2 p phys block rb rs) (\<lambda>(cross, fs3).
                          if mem_fault_cause (fs_cpu fs3) \<noteq> 0 then Ok (None, fs3)
                          else Ok (Some \<lparr>w_phys = phys, w_block = block, w_base = rb, w_size = rs, w_limit = limit, w_cross = cross,
                                 w_cross_pc = (if cross \<noteq> 0 then p + page_remain phys - 2 else 0)\<rparr>, fs3)))"

section \<open>The translation loop\<close>

datatype disas_jump_type = NextInsn | TooMany | NoReturn

datatype front_op = InsnStart u64 | Insn u64 u32 u32 | UndefExit u64 | FallThrough u64

record disas_context =
  dc_pc_first :: u64
  dc_pc_next :: u64
  dc_is_jmp :: disas_jump_type
  dc_num_insns :: nat
  dc_max_insns :: u32
  dc_has_c :: bool
  dc_cross_page_insn :: u32
  dc_cross_page_pc :: u64
  dc_page_byte_limit :: u64
  dc_opcode :: u32
  dc_cur_insn_len :: u32
  dc_ir :: "front_op list"

definition dc_new :: "u64 \<Rightarrow> riscv_cfg \<Rightarrow> window \<Rightarrow> disas_context" where
  "dc_new p cf w =
     \<lparr>dc_pc_first = p, dc_pc_next = p, dc_is_jmp = NextInsn, dc_num_insns = 0, dc_max_insns = w_limit w,
      dc_has_c = misa_contains (cfg_misa cf) MisaExt_C, dc_cross_page_insn = w_cross w, dc_cross_page_pc = w_cross_pc w,
      dc_page_byte_limit = (p AND NOT 0xFFF) + 0x1000, dc_opcode = 0, dc_cur_insn_len = 4, dc_ir = []\<rparr>"

text \<open>The host memory behind the window, by guest address.\<close>

definition window_bytes :: "'d full_system \<Rightarrow> window \<Rightarrow> u64 \<Rightarrow> u64 \<Rightarrow> nat \<Rightarrow> u8 list option" where
  "window_bytes fs w p a n = load_bytes (bk_block (fs_bk fs) (w_block w)) (unat (w_phys w - w_base w + (a - p))) n"

definition fetch_insn16 :: "(u64 \<Rightarrow> nat \<Rightarrow> u8 list option) \<Rightarrow> disas_context \<Rightarrow> mem_error + u16" where
  "fetch_insn16 rd d =
     (case rd (dc_pc_next d) 2 of None \<Rightarrow> Err OutOfBounds | Some bs \<Rightarrow> Ok (ucast (from_le_bytes bs :: u64)))"

definition fetch_insn32 :: "(u64 \<Rightarrow> nat \<Rightarrow> u8 list option) \<Rightarrow> disas_context \<Rightarrow> mem_error + u32" where
  "fetch_insn32 rd d =
     (if dc_cross_page_insn d \<noteq> 0 \<and> dc_pc_next d = dc_cross_page_pc d then Ok (dc_cross_page_insn d)
      else case rd (dc_pc_next d) 4 of None \<Rightarrow> Err OutOfBounds | Some bs \<Rightarrow> Ok (ucast (from_le_bytes bs :: u64)))"

text \<open>The generated decoders: \<open>None\<close> refuses an instruction.\<close>

record decoder =
  decode16 :: "u64 \<Rightarrow> u16 \<Rightarrow> disas_jump_type option"
  decode32 :: "u64 \<Rightarrow> u32 \<Rightarrow> disas_jump_type option"
  decode_vendor_thead :: "u64 \<Rightarrow> u32 \<Rightarrow> disas_jump_type option"

definition insn_start :: "disas_context \<Rightarrow> disas_context" where
  "insn_start d = d\<lparr>dc_ir := dc_ir d @ [InsnStart (dc_pc_next d)], dc_num_insns := dc_num_insns d + 1\<rparr>"

definition fetch_decode :: "decoder \<Rightarrow> (u64 \<Rightarrow> nat \<Rightarrow> u8 list option) \<Rightarrow> disas_context \<Rightarrow>
    mem_error + (disas_jump_type option \<times> disas_context)" where
  "fetch_decode dec rd d =
     res_bind (fetch_insn16 rd d) (\<lambda>half.
       if half AND 3 \<noteq> 3 then
         if \<not> dc_has_c d then Ok (None, d)
         else Ok (decode16 dec (dc_pc_next d) half, d\<lparr>dc_opcode := ucast half, dc_cur_insn_len := 2\<rparr>)
       else res_bind (fetch_insn32 rd d) (\<lambda>insn.
              Ok (decode32 dec (dc_pc_next d) insn, d\<lparr>dc_opcode := insn, dc_cur_insn_len := 4\<rparr>)))"

definition translate_insn :: "decoder \<Rightarrow> (u64 \<Rightarrow> nat \<Rightarrow> u8 list option) \<Rightarrow> disas_context \<Rightarrow> mem_error + disas_context" where
  "translate_insn dec rd d =
     res_bind (fetch_decode dec rd d) (\<lambda>(decoded, d1).
       let decoded = (case decoded of None \<Rightarrow> decode_vendor_thead dec (dc_pc_next d1) (dc_opcode d1) | Some j \<Rightarrow> Some j);
           d2 = (case decoded of
                   None \<Rightarrow> d1\<lparr>dc_ir := dc_ir d1 @ [UndefExit (dc_pc_next d1)], dc_is_jmp := NoReturn\<rparr>
                 | Some j \<Rightarrow> d1\<lparr>dc_ir := dc_ir d1 @ [Insn (dc_pc_next d1) (dc_cur_insn_len d1) (dc_opcode d1)], dc_is_jmp := j\<rparr>);
           d3 = d2\<lparr>dc_pc_next := dc_pc_next d2 + ucast (dc_cur_insn_len d2)\<rparr>
       in Ok (if dc_is_jmp d3 = NextInsn \<and> dc_pc_next d3 \<ge> dc_page_byte_limit d3 then d3\<lparr>dc_is_jmp := TooMany\<rparr> else d3))"

lemma fetch_decode_cases:
  assumes "fetch_decode dec rd d = Ok (r, d1)"
  obtains (none) half where "fetch_insn16 rd d = Ok half" "half AND 3 \<noteq> 3" "\<not> dc_has_c d" "r = None" "d1 = d"
    | (short) half where "fetch_insn16 rd d = Ok half" "half AND 3 \<noteq> 3" "dc_has_c d" "d1 = d\<lparr>dc_opcode := ucast half, dc_cur_insn_len := 2\<rparr>"
    | (long) half insn where "fetch_insn16 rd d = Ok half" "half AND 3 = 3" "fetch_insn32 rd d = Ok insn"
        "d1 = d\<lparr>dc_opcode := insn, dc_cur_insn_len := 4\<rparr>"
proof -
  obtain half where h: "fetch_insn16 rd d = Ok half"
    using assms by (cases "fetch_insn16 rd d") (simp_all add: fetch_decode_def)
  show ?thesis
  proof (cases "half AND 3 = 3")
    case True
    then obtain insn where "fetch_insn32 rd d = Ok insn"
      using assms h by (cases "fetch_insn32 rd d") (simp_all add: fetch_decode_def)
    then show ?thesis
      using long h True assms by (simp add: fetch_decode_def)
  next
    case False
    then show ?thesis
      using none short h assms by (cases "dc_has_c d") (simp_all add: fetch_decode_def)
  qed
qed

lemma fetch_decode_frame:
  assumes "fetch_decode dec rd d = Ok (r, d1)"
  shows "dc_pc_first d1 = dc_pc_first d" "dc_pc_next d1 = dc_pc_next d" "dc_is_jmp d1 = dc_is_jmp d"
    "dc_num_insns d1 = dc_num_insns d" "dc_max_insns d1 = dc_max_insns d" "dc_has_c d1 = dc_has_c d"
    "dc_cross_page_insn d1 = dc_cross_page_insn d" "dc_cross_page_pc d1 = dc_cross_page_pc d"
    "dc_page_byte_limit d1 = dc_page_byte_limit d" "dc_ir d1 = dc_ir d"
  by (rule fetch_decode_cases [OF assms]; simp)+

lemma translate_insn_step:
  assumes "translate_insn dec rd d = Ok d'"
  obtains r d1 x where "fetch_decode dec rd d = Ok (r, d1)"
    "x = UndefExit (dc_pc_next d) \<or> x = Insn (dc_pc_next d) (dc_cur_insn_len d1) (dc_opcode d1)"
    "dc_ir d' = dc_ir d @ [x]" "dc_pc_next d' = dc_pc_next d + ucast (dc_cur_insn_len d1)"
    "dc_pc_first d' = dc_pc_first d" "dc_num_insns d' = dc_num_insns d" "dc_max_insns d' = dc_max_insns d" "dc_has_c d' = dc_has_c d"
    "dc_cross_page_insn d' = dc_cross_page_insn d" "dc_cross_page_pc d' = dc_cross_page_pc d"
    "dc_page_byte_limit d' = dc_page_byte_limit d" "dc_cur_insn_len d' = dc_cur_insn_len d1"
    "x = UndefExit (dc_pc_next d) \<Longrightarrow> dc_is_jmp d' = NoReturn"
    "dc_is_jmp d' = NextInsn \<Longrightarrow> dc_pc_next d' < dc_page_byte_limit d"
proof -
  obtain r d1 where 1: "fetch_decode dec rd d = Ok (r, d1)"
    using assms by (auto simp: translate_insn_def res_bind_Ok)
  note fr = fetch_decode_frame [OF 1]
  let ?j = "case r of None \<Rightarrow> decode_vendor_thead dec (dc_pc_next d1) (dc_opcode d1) | Some j \<Rightarrow> Some j"
  show ?thesis
  proof (cases ?j)
    case None
    then show ?thesis
      using assms 1 fr by (intro that [OF 1, of "UndefExit (dc_pc_next d)"]) (auto simp: translate_insn_def Let_def)
  next
    case (Some j)
    then show ?thesis
      using assms 1 fr
      by (intro that [OF 1, of "Insn (dc_pc_next d) (dc_cur_insn_len d1) (dc_opcode d1)"])
         (auto simp: translate_insn_def Let_def not_le split: if_splits)
  qed
qed

lemma translate_insn_counts:
  assumes "translate_insn dec rd (insn_start d) = Ok d'"
  shows "dc_num_insns d' = dc_num_insns d + 1" "dc_max_insns d' = dc_max_insns d"
  using translate_insn_step [OF assms] by (simp_all add: insn_start_def)

function tb_loop :: "decoder \<Rightarrow> (u64 \<Rightarrow> nat \<Rightarrow> u8 list option) \<Rightarrow> disas_context \<Rightarrow> mem_error + disas_context" where
  "tb_loop dec rd d =
     (case translate_insn dec rd (insn_start d) of
        Inl e \<Rightarrow> Inl e
      | Inr d1 \<Rightarrow>
          if dc_is_jmp d1 \<noteq> NextInsn then Ok d1
          else if dc_num_insns d1 \<ge> unat (dc_max_insns d1) then Ok (d1\<lparr>dc_is_jmp := TooMany\<rparr>)
          else tb_loop dec rd d1)"
  by pat_completeness auto
termination
  by (relation "measure (\<lambda>(_, _, d). unat (dc_max_insns d) - dc_num_insns d)")
     (auto simp: translate_insn_counts)

declare tb_loop.simps [simp del]

definition tb_stop :: "disas_context \<Rightarrow> disas_context" where
  "tb_stop d = (if dc_is_jmp d = NoReturn then d else d\<lparr>dc_ir := dc_ir d @ [FallThrough (dc_pc_next d)]\<rparr>)"

definition gen_code :: "'d mmio_ops \<Rightarrow> decoder \<Rightarrow> 'd full_system \<Rightarrow> u64 \<Rightarrow> u32 \<Rightarrow>
    mem_error + (u32 \<times> front_op list \<times> 'd full_system)" where
  "gen_code ops dec fs p max_insns =
     res_bind (fetch_window ops fs p max_insns) (\<lambda>(w, fs1).
       case w of
         None \<Rightarrow> Ok (0, [], fs1)
       | Some w \<Rightarrow>
           res_bind (tb_loop dec (window_bytes fs1 w p) (dc_new p (cfg (cpu_profile (fs_cpu fs1))) w)) (\<lambda>d.
             Ok (ucast (dc_pc_next d - dc_pc_first d), dc_ir (tb_stop d), fs1)))"

section \<open>The instructions of a block\<close>

text \<open>
  The bits of an instruction as it is fetched: a compressed one from its two bytes, a long one from
  four bytes or, on the page boundary, the word that was fetched in advance.
\<close>

definition fetched :: "(u64 \<Rightarrow> nat \<Rightarrow> u8 list option) \<Rightarrow> window \<Rightarrow> u64 \<Rightarrow> u32 \<Rightarrow> u32 \<Rightarrow> bool" where
  "fetched rd w a len opc \<longleftrightarrow>
     (len = 2 \<and> (\<exists>bs. rd a 2 = Some bs \<and> opc = ucast (ucast (from_le_bytes bs :: u64) :: u16)))
     \<or> (len = 4 \<and> (if w_cross w \<noteq> 0 \<and> a = w_cross_pc w then opc = w_cross w
                   else \<exists>bs. rd a 4 = Some bs \<and> opc = ucast (from_le_bytes bs :: u64)))"

text \<open>
  A block from an address: instructions one after the other that start in one page, up to an
  instruction that leaves the block, an instruction that is refused, or the fall-through.
\<close>

fun split_ok :: "(u64 \<Rightarrow> nat \<Rightarrow> u8 list option) \<Rightarrow> window \<Rightarrow> u64 \<Rightarrow> u64 \<Rightarrow> front_op list \<Rightarrow> bool" where
  "split_ok rd w page p [InsnStart a, UndefExit b] \<longleftrightarrow> a = p \<and> b = p \<and> drop_bit 12 p = page"
| "split_ok rd w page p (InsnStart a # Insn b len opc # irs) \<longleftrightarrow>
     a = p \<and> b = p \<and> drop_bit 12 p = page \<and> (len = 2 \<or> len = 4)
     \<and> fetched rd w p len opc
     \<and> (irs = [] \<or> irs = [FallThrough (p + ucast len)] \<or> split_ok rd w page (p + ucast len) irs)"
| "split_ok rd w page p _ \<longleftrightarrow> False"

lemma page_and_not: "unat (p AND NOT 0xFFF) = unat p div 4096 * 4096" for p :: u64
proof -
  have m: "(0xFFF :: u64) = mask 12"
    by (simp add: mask_eq_exp_minus_1)
  have "p AND NOT (mask 12) = push_bit 12 (drop_bit 12 p)"
    by (auto intro!: bit_eqI simp: bit_simps)
  then have e: "p AND NOT 0xFFF = p div 4096 * 4096"
    unfolding m by (simp add: drop_bit_eq_div push_bit_eq_mult)
  have "unat p < 2 ^ LENGTH(64)"
    by (rule unsigned_less)
  then have "unat (p div 4096) * unat (4096 :: u64) < 2 ^ LENGTH(64)"
    by (simp add: unat_div less_mult_imp_div_less)
  then have "unat (p div 4096 * 4096) = unat (p div 4096) * unat (4096 :: u64)"
    by (simp only: unat_mult_lem)
  then show ?thesis
    unfolding e by (simp add: unat_div)
qed

lemma within_page:
  fixes a p :: u64
  assumes "a < (p AND NOT 0xFFF) + 0x1000" and "unat a = unat p + n"
  shows "drop_bit 12 a = drop_bit 12 p"
proof -
  let ?k = "unat p div 4096"
  have "unat ((p AND NOT 0xFFF) + 0x1000) \<le> unat (p AND NOT 0xFFF) + unat (0x1000 :: u64)"
    by (simp only: unat_word_ariths(1) mod_less_eq_dividend)
  then have "unat a < ?k * 4096 + 4096"
    using assms(1) by (simp add: word_less_nat_alt page_and_not [simplified])
  moreover have "?k * 4096 \<le> unat a"
    using assms(2) by (simp add: div_times_less_eq_dividend trans_le_add1)
  ultimately have "unat a div 4096 = ?k"
    by (intro div_nat_eqI) simp_all
  then have "unat (drop_bit 12 a) = unat (drop_bit 12 p)"
    by (simp add: drop_bit_eq_div unat_div)
  then show ?thesis
    by (rule unsigned_word_eqI)
qed

text \<open>The page of a limit that an address is below is not the last one, so small steps do not wrap.\<close>

lemma no_wrap_in_page:
  fixes a p :: u64
  assumes "a + n < (p AND NOT 0xFFF) + 0x1000" and "drop_bit 12 a = drop_bit 12 p" and "unat n \<le> 4"
  shows "unat (a + n) = unat a + unat n"
proof (rule ccontr)
  assume "\<not> ?thesis"
  then have big: "2 ^ 64 \<le> unat a + unat n"
    using unat_plus_if_size [of a n] by (simp add: word_size split: if_splits)
  have "unat a div 4096 = unat p div 4096"
    using arg_cong [OF assms(2), of unat] by (simp add: drop_bit_eq_div unat_div)
  then have "unat a < unat p div 4096 * 4096 + 4096"
    by (metis add.commute dividend_less_div_times zero_less_numeral)
  then have "2 ^ 52 \<le> unat p div 4096 + 1"
    using big assms(3) by simp
  moreover have "unat p < 2 ^ LENGTH(64)"
    by (rule unsigned_less)
  then have "unat p div 4096 < 2 ^ 52"
    by (simp add: less_mult_imp_div_less)
  ultimately have "unat p div 4096 * 4096 + 4096 = 2 ^ 64"
    by simp
  then have "unat ((p AND NOT 0xFFF) + 0x1000) = 0"
    using page_and_not [of p] by (simp add: unat_word_ariths)
  then have "(p AND NOT 0xFFF) + 0x1000 = 0"
    by (simp only: unsigned_eq_0_iff)
  then show False
    using assms(1) by simp
qed

text \<open>The state of the loop while it is in the page of the block.\<close>

definition in_page :: "window \<Rightarrow> u64 \<Rightarrow> disas_context \<Rightarrow> bool" where
  "in_page w p d \<longleftrightarrow> dc_has_c d \<and> dc_cross_page_insn d = w_cross w \<and> dc_cross_page_pc d = w_cross_pc w
     \<and> dc_page_byte_limit d = (p AND NOT 0xFFF) + 0x1000 \<and> drop_bit 12 (dc_pc_next d) = drop_bit 12 p
     \<and> unat p \<le> unat (dc_pc_next d)"

lemma fetched_insn:
  assumes "fetch_decode dec rd d = Ok (r, d1)" and "in_page w p d"
  shows "fetched rd w (dc_pc_next d) (dc_cur_insn_len d1) (dc_opcode d1)" "dc_cur_insn_len d1 \<in> {2, 4}"
  by (rule fetch_decode_cases [OF assms(1)];
      use assms(2) in \<open>auto simp: in_page_def fetched_def fetch_insn16_def fetch_insn32_def split: option.splits if_splits\<close>)+

lemma insn_step:
  assumes t: "translate_insn dec rd (insn_start d) = Ok d'" and pg: "in_page w p d"
  obtains (undef) "dc_is_jmp d' = NoReturn" "dc_ir d' = dc_ir d @ [InsnStart (dc_pc_next d), UndefExit (dc_pc_next d)]"
    | (insn) len opc where "dc_ir d' = dc_ir d @ [InsnStart (dc_pc_next d), Insn (dc_pc_next d) len opc]"
      "fetched rd w (dc_pc_next d) len opc" "len \<in> {2, 4}" "dc_pc_next d' = dc_pc_next d + ucast len"
      "dc_is_jmp d' = NextInsn \<Longrightarrow> in_page w p d'"
proof -
  have pg': "in_page w p (insn_start d)"
    using pg by (simp add: in_page_def insn_start_def)
  obtain r d1 x where x: "fetch_decode dec rd (insn_start d) = Ok (r, d1)"
      "x = UndefExit (dc_pc_next d) \<or> x = Insn (dc_pc_next d) (dc_cur_insn_len d1) (dc_opcode d1)"
      "dc_ir d' = dc_ir d @ [InsnStart (dc_pc_next d), x]" "dc_pc_next d' = dc_pc_next d + ucast (dc_cur_insn_len d1)"
      "dc_has_c d' = dc_has_c d" "dc_cross_page_insn d' = dc_cross_page_insn d" "dc_cross_page_pc d' = dc_cross_page_pc d"
      "dc_page_byte_limit d' = dc_page_byte_limit d" "x = UndefExit (dc_pc_next d) \<Longrightarrow> dc_is_jmp d' = NoReturn"
      "dc_is_jmp d' = NextInsn \<Longrightarrow> dc_pc_next d' < dc_page_byte_limit d"
    by (rule translate_insn_step [OF t]) (simp add: insn_start_def)
  note f = fetched_insn [OF x(1) pg', unfolded insn_start_def, simplified]
  have "in_page w p d'" if "dc_is_jmp d' = NextInsn"
  proof -
    have lim: "dc_pc_next d + ucast (dc_cur_insn_len d1) < (p AND NOT 0xFFF) + 0x1000"
      using x(4) x(10) [OF that] pg by (simp add: in_page_def)
    have "unat (ucast (dc_cur_insn_len d1) :: u64) \<le> 4"
      using f(2) by auto
    then have u: "unat (dc_pc_next d') = unat (dc_pc_next d) + unat (ucast (dc_cur_insn_len d1) :: u64)"
      unfolding x(4) using lim pg by (intro no_wrap_in_page) (simp_all add: in_page_def)
    then obtain n where "unat (dc_pc_next d') = unat p + n"
      using pg by (auto simp: in_page_def dest: le_Suc_ex)
    then show ?thesis
      using within_page [OF lim] pg u by (auto simp: in_page_def x(4-8))
  qed
  then show ?thesis
    using x(2) undef insn f x(3,4,9) by blast
qed

lemma tb_loop_split:
  assumes "tb_loop dec rd d = Ok d'" and "in_page w p d"
  shows "\<exists>irs. dc_ir (tb_stop d') = dc_ir d @ irs \<and> split_ok rd w (drop_bit 12 p) (dc_pc_next d) irs"
  using assms
proof (induction dec rd d rule: tb_loop.induct)
  case (1 dec rd d)
  obtain d1 where t: "translate_insn dec rd (insn_start d) = Ok d1"
    using 1(2) by (cases "translate_insn dec rd (insn_start d)") (simp_all add: tb_loop.simps)
  have pg: "drop_bit 12 (dc_pc_next d) = drop_bit 12 p"
    using 1(3) by (simp add: in_page_def)
  show ?case
  proof (rule insn_step [OF t 1(3)])
    assume "dc_is_jmp d1 = NoReturn" "dc_ir d1 = dc_ir d @ [InsnStart (dc_pc_next d), UndefExit (dc_pc_next d)]"
    then show ?thesis
      using 1(2) pg t by (simp add: tb_loop.simps [of dec rd d] tb_stop_def)
  next
    fix len opc
    assume s: "dc_ir d1 = dc_ir d @ [InsnStart (dc_pc_next d), Insn (dc_pc_next d) len opc]"
      "fetched rd w (dc_pc_next d) len opc" "len \<in> {2, 4}" "dc_pc_next d1 = dc_pc_next d + ucast len"
      "dc_is_jmp d1 = NextInsn \<Longrightarrow> in_page w p d1"
    consider (leave) "dc_is_jmp d1 \<noteq> NextInsn" "d' = d1"
      | (full) "dc_is_jmp d1 = NextInsn" "d' = d1\<lparr>dc_is_jmp := TooMany\<rparr>"
      | (more) "dc_is_jmp d1 = NextInsn" "\<not> unat (dc_max_insns d1) \<le> dc_num_insns d1" "tb_loop dec rd d1 = Ok d'"
      using 1(2) t by (auto simp: tb_loop.simps [of dec rd d] split: if_splits)
    then show ?thesis
    proof cases
      case more
      then obtain irs where i: "dc_ir (tb_stop d') = dc_ir d1 @ irs" "split_ok rd w (drop_bit 12 p) (dc_pc_next d1) irs"
        using 1(1) [OF t] s(5) by auto
      then show ?thesis
        using s(1-4) pg by (intro exI [of _ "[InsnStart (dc_pc_next d), Insn (dc_pc_next d) len opc] @ irs"]) auto
    qed (use s pg in \<open>auto simp: tb_stop_def\<close>)
  qed
qed

text \<open>The number of instructions of a block.\<close>

definition num_starts :: "front_op list \<Rightarrow> nat" where
  "num_starts irs = length (filter (\<lambda>x. \<exists>a. x = InsnStart a) irs)"

lemma num_starts_simps [simp]:
  "num_starts [] = 0" "num_starts (xs @ ys) = num_starts xs + num_starts ys" "num_starts (InsnStart a # xs) = Suc (num_starts xs)"
  "num_starts (Insn a l c # xs) = num_starts xs" "num_starts (UndefExit a # xs) = num_starts xs"
  "num_starts (FallThrough a # xs) = num_starts xs"
  by (simp_all add: num_starts_def)

lemma translate_insn_starts:
  assumes "translate_insn dec rd (insn_start d) = Ok d'"
  shows "num_starts (dc_ir d') = num_starts (dc_ir d) + 1"
  by (rule translate_insn_step [OF assms]) (auto simp: insn_start_def)

lemma tb_loop_starts:
  assumes "tb_loop dec rd d = Ok d'" and "num_starts (dc_ir d) = dc_num_insns d" and "dc_num_insns d < unat (dc_max_insns d)"
  shows "num_starts (dc_ir (tb_stop d')) \<le> unat (dc_max_insns d)"
  using assms
proof (induction dec rd d rule: tb_loop.induct)
  case (1 dec rd d)
  obtain d1 where t: "translate_insn dec rd (insn_start d) = Ok d1"
    using 1(2) by (cases "translate_insn dec rd (insn_start d)") (simp_all add: tb_loop.simps)
  note s = translate_insn_starts [OF t] translate_insn_counts [OF t]
  show ?case
    using 1(1) [OF t] 1(2-4) s t by (auto simp: tb_loop.simps [of dec rd d] tb_stop_def split: if_splits)
qed

end
