(* ===== verification/Translation_Block.thy ===== *)
theory Translation_Block
  imports Machina_Prelude
begin

text \<open>
  Translation blocks, the encoding of block exits and the jump cache of a virtual CPU
  (\<open>accel/src/ir/tb.rs\<close>). Indices of the host (\<open>usize\<close>) are natural numbers; the generation
  counters, which are compared and wrap around, are words. The two-element arrays of a block are
  lists of length two.
\<close>

section \<open>Blocks\<close>

definition TB_HASH_SIZE :: nat where "TB_HASH_SIZE = 2 ^ 15"
definition TB_JMP_CACHE_SIZE :: nat where "TB_JMP_CACHE_SIZE = 2 ^ 12"
definition EXIT_TARGET_NONE :: nat where "EXIT_TARGET_NONE = 2 ^ 64 - 1"

definition CF_COUNT_MASK :: u32 where "CF_COUNT_MASK = 0x0000FFFF"
definition CF_SINGLE_STEP :: u32 where "CF_SINGLE_STEP = 0x00020000"

record translation_block =
  tb_pc :: u64
  tb_cs_base :: u64
  tb_flags :: u32
  tb_cflags :: u32
  tb_size :: u32
  tb_icount :: u16
  tb_instret_discarded :: u16
  tb_host_offset :: nat
  tb_host_size :: nat
  tb_jmp_insn_offset :: "u32 option list"
  tb_jmp_reset_offset :: "u32 option list"
  tb_phys_pc :: u64
  tb_hash_next :: "nat option"
  tb_page_next :: "nat option"
  tb_jmp_dest :: "nat option list"
  tb_jmp_list :: "(nat \<times> nat) list"
  tb_contains_atomic :: bool
  tb_invalid :: bool
  tb_gen :: u64
  tb_exit_target :: nat

definition tb_new :: "u64 \<Rightarrow> u32 \<Rightarrow> u32 \<Rightarrow> translation_block" where
  "tb_new p f cf =
     \<lparr>tb_pc = p, tb_cs_base = 0, tb_flags = f, tb_cflags = cf, tb_size = 0, tb_icount = 0,
      tb_instret_discarded = 0, tb_host_offset = 0, tb_host_size = 0,
      tb_jmp_insn_offset = [None, None], tb_jmp_reset_offset = [None, None], tb_phys_pc = 0,
      tb_hash_next = None, tb_page_next = None, tb_jmp_dest = [None, None], tb_jmp_list = [],
      tb_contains_atomic = False, tb_invalid = False, tb_gen = 0, tb_exit_target = EXIT_TARGET_NONE\<rparr>"

definition tb_hash :: "u64 \<Rightarrow> u32 \<Rightarrow> nat" where
  "tb_hash p f = (let h = (p * 0x9e3779b97f4a7c15) XOR ucast f in unat (h AND (2 ^ 15 - 1)))"

text \<open>The assertion on the slot fails with \<open>None\<close>.\<close>

definition set_jmp_insn_offset :: "translation_block \<Rightarrow> nat \<Rightarrow> u32 \<Rightarrow> translation_block option" where
  "set_jmp_insn_offset tb n off =
     (if n < 2 then Some (tb\<lparr>tb_jmp_insn_offset := (tb_jmp_insn_offset tb)[n := Some off]\<rparr>) else None)"

definition set_jmp_reset_offset :: "translation_block \<Rightarrow> nat \<Rightarrow> u32 \<Rightarrow> translation_block option" where
  "set_jmp_reset_offset tb n off =
     (if n < 2 then Some (tb\<lparr>tb_jmp_reset_offset := (tb_jmp_reset_offset tb)[n := Some off]\<rparr>) else None)"

definition max_insns :: "u32 \<Rightarrow> u32" where
  "max_insns cf = (let count = cf AND CF_COUNT_MASK in if count = 0 then 512 else count)"

lemma tb_hash_bound: "tb_hash p f < TB_HASH_SIZE"
proof -
  have m: "(2 ^ 15 - 1 :: u64) = mask 15"
    by (simp add: mask_eq_exp_minus_1)
  have "x AND (2 ^ 15 - 1) = take_bit 15 x" for x :: u64
    unfolding m by (simp add: take_bit_eq_mask)
  then have "tb_hash p f = take_bit 15 (unat ((p * 0x9e3779b97f4a7c15) XOR ucast f))"
    by (simp only: tb_hash_def Let_def unsigned_take_bit_eq)
  then show ?thesis
    by (simp only: take_bit_nat_less_exp TB_HASH_SIZE_def)
qed

section \<open>Exit values\<close>

definition TB_EXIT_IDX0 :: u64 where "TB_EXIT_IDX0 = 0"
definition TB_EXIT_IDX1 :: u64 where "TB_EXIT_IDX1 = 1"
definition TB_EXIT_NOCHAIN :: u64 where "TB_EXIT_NOCHAIN = 2"
definition TB_EXIT_MAX :: u64 where "TB_EXIT_MAX = 3"
definition EXCP_UNDEF :: u64 where "EXCP_UNDEF = TB_EXIT_MAX + 2"
definition EXCP_ARCH_BASE :: u64 where "EXCP_ARCH_BASE = 16"
definition EXCP_RISCV_BASE :: u64 where "EXCP_RISCV_BASE = EXCP_ARCH_BASE"
definition EXCP_RISCV_ECALL :: u64 where "EXCP_RISCV_ECALL = EXCP_RISCV_BASE"
definition EXCP_RISCV_EBREAK :: u64 where "EXCP_RISCV_EBREAK = EXCP_RISCV_BASE + 1"
definition EXCP_RISCV_MRET :: u64 where "EXCP_RISCV_MRET = EXCP_RISCV_BASE + 2"
definition EXCP_RISCV_SRET :: u64 where "EXCP_RISCV_SRET = EXCP_RISCV_BASE + 3"
definition EXCP_RISCV_WFI :: u64 where "EXCP_RISCV_WFI = EXCP_RISCV_BASE + 4"
definition EXCP_RISCV_SFENCE_VMA :: u64 where "EXCP_RISCV_SFENCE_VMA = EXCP_RISCV_BASE + 5"
definition EXCP_RISCV_PRIV_CSR :: u64 where "EXCP_RISCV_PRIV_CSR = EXCP_RISCV_BASE + 6"
definition EXCP_RISCV_FENCE_I :: u64 where "EXCP_RISCV_FENCE_I = EXCP_RISCV_BASE + 7"

lemmas excp_simps = EXCP_UNDEF_def TB_EXIT_MAX_def TB_EXIT_NOCHAIN_def TB_EXIT_IDX0_def TB_EXIT_IDX1_def
  EXCP_ARCH_BASE_def EXCP_RISCV_BASE_def EXCP_RISCV_ECALL_def EXCP_RISCV_EBREAK_def EXCP_RISCV_MRET_def
  EXCP_RISCV_SRET_def EXCP_RISCV_WFI_def EXCP_RISCV_SFENCE_VMA_def EXCP_RISCV_PRIV_CSR_def EXCP_RISCV_FENCE_I_def

definition encode_tb_exit :: "u32 \<Rightarrow> u64 \<Rightarrow> u64" where
  "encode_tb_exit tb_idx val =
     (if val < TB_EXIT_MAX then push_bit 32 (ucast tb_idx + 1) OR val else val)"

definition decode_tb_exit :: "u64 \<Rightarrow> nat option \<times> u64" where
  "decode_tb_exit raw =
     (let marker = drop_bit 32 raw
      in if marker \<noteq> 0 then (Some (unat (marker - 1)), raw AND 3) else (None, raw))"

section \<open>The jump cache\<close>

record jump_cache_entry =
  jce_tb_idx :: "nat option"
  jce_gen :: u64

record jump_cache =
  jc_entries :: "jump_cache_entry list"
  jc_generation :: u64

definition jc_new :: jump_cache where
  "jc_new = \<lparr>jc_entries = replicate TB_JMP_CACHE_SIZE \<lparr>jce_tb_idx = None, jce_gen = 0\<rparr>, jc_generation = 1\<rparr>"

definition jc_index :: "u64 \<Rightarrow> nat" where
  "jc_index p = unat (drop_bit 2 p AND (2 ^ 12 - 1))"

definition jc_lookup :: "jump_cache \<Rightarrow> u64 \<Rightarrow> nat option" where
  "jc_lookup jc p =
     (let e = jc_entries jc ! jc_index p
      in if jce_gen e = jc_generation jc then jce_tb_idx e else None)"

definition jc_insert :: "jump_cache \<Rightarrow> u64 \<Rightarrow> nat \<Rightarrow> jump_cache" where
  "jc_insert jc p tb_idx =
     jc\<lparr>jc_entries := (jc_entries jc)[jc_index p := \<lparr>jce_tb_idx = Some tb_idx, jce_gen = jc_generation jc\<rparr>]\<rparr>"

definition jc_remove :: "jump_cache \<Rightarrow> u64 \<Rightarrow> jump_cache" where
  "jc_remove jc p =
     (let e = jc_entries jc ! jc_index p
      in if jce_gen e = jc_generation jc
         then jc\<lparr>jc_entries := (jc_entries jc)[jc_index p := e\<lparr>jce_tb_idx := None\<rparr>]\<rparr> else jc)"

definition jc_invalidate :: "jump_cache \<Rightarrow> jump_cache" where
  "jc_invalidate jc =
     (let g = jc_generation jc + 1 in jc\<lparr>jc_generation := if g = 0 then 1 else g\<rparr>)"

text \<open>
  The entries never carry a generation the cache has not reached. The counter starts at one and
  each flush adds one, so it wraps only after \<open>2 ^ 64 - 1\<close> flushes.
\<close>

definition jc_ok :: "jump_cache \<Rightarrow> bool" where
  "jc_ok jc \<longleftrightarrow> length (jc_entries jc) = TB_JMP_CACHE_SIZE \<and> jc_generation jc \<noteq> 0
     \<and> (\<forall>e\<in>set (jc_entries jc). jce_gen e \<le> jc_generation jc)"

lemma jc_index_bound: "jc_index p < TB_JMP_CACHE_SIZE"
proof -
  have m: "(2 ^ 12 - 1 :: u64) = mask 12"
    by (simp add: mask_eq_exp_minus_1)
  have "x AND (2 ^ 12 - 1) = take_bit 12 x" for x :: u64
    unfolding m by (simp add: take_bit_eq_mask)
  then have "jc_index p = take_bit 12 (unat (drop_bit 2 p))"
    by (simp only: jc_index_def unsigned_take_bit_eq)
  then show ?thesis
    by (simp only: take_bit_nat_less_exp TB_JMP_CACHE_SIZE_def)
qed

lemma gen_succ:
  fixes g :: u64
  assumes "g \<noteq> - 1"
  shows "g + 1 \<noteq> 0" "g < g + 1" "x \<le> g \<Longrightarrow> x < g + 1"
proof -
  show nz: "g + 1 \<noteq> 0"
    using assms by (metis add_right_imp_eq add.left_inverse)
  then show lt: "g < g + 1"
    by (simp add: word_less_nat_alt unatSuc add.commute)
  then show "x \<le> g \<Longrightarrow> x < g + 1"
    by (rule order.strict_trans1 [rotated])
qed

lemma jc_ok_new: "jc_ok jc_new"
  by (simp add: jc_ok_def jc_new_def)

lemma jc_ok_insert: "jc_ok jc \<Longrightarrow> jc_ok (jc_insert jc p i)"
  by (auto simp: jc_ok_def jc_insert_def dest!: subsetD [OF set_update_subset_insert])

lemma jc_ok_remove: "jc_ok jc \<Longrightarrow> jc_ok (jc_remove jc p)"
  by (auto simp: jc_ok_def jc_remove_def Let_def dest!: subsetD [OF set_update_subset_insert])

lemma jc_ok_invalidate: "jc_ok jc \<Longrightarrow> jc_generation jc \<noteq> - 1 \<Longrightarrow> jc_ok (jc_invalidate jc)"
  using gen_succ [of "jc_generation jc"] by (auto simp: jc_ok_def jc_invalidate_def Let_def intro: less_imp_le)

lemma jc_lookup_insert_same: "jc_ok jc \<Longrightarrow> jc_lookup (jc_insert jc p i) p = Some i"
  using jc_index_bound [of p] by (simp add: jc_ok_def jc_lookup_def jc_insert_def)

lemma jc_lookup_insert_other:
  "jc_index q \<noteq> jc_index p \<Longrightarrow> jc_lookup (jc_insert jc p i) q = jc_lookup jc q"
  by (simp add: jc_lookup_def jc_insert_def)

lemma jc_lookup_invalidate:
  assumes "jc_ok jc" and "jc_generation jc \<noteq> - 1"
  shows "jc_lookup (jc_invalidate jc) p = None"
proof -
  have "jc_entries jc ! jc_index p \<in> set (jc_entries jc)"
    using assms(1) jc_index_bound [of p] by (simp add: jc_ok_def)
  then have "jce_gen (jc_entries jc ! jc_index p) \<le> jc_generation jc"
    using assms(1) by (simp add: jc_ok_def)
  then show ?thesis
    using gen_succ [OF assms(2)] by (fastforce simp: jc_lookup_def jc_invalidate_def Let_def)
qed

lemma bit_3: "bit (3 :: u64) n \<longleftrightarrow> n < 2"
proof -
  have m: "(3 :: u64) = mask 2"
    by (simp add: mask_eq_exp_minus_1)
  show ?thesis
    unfolding m bit_mask_iff by auto
qed

section \<open>Property\<close>

text \<open>
  C40: Exit values round-trip: the exit slot of a chainable exit and the index of the block that took
  it are recovered from the encoded value, for every index below the largest 32-bit number; a real
  exit passes through unchanged and names no block, for every code below \<open>2 ^ 32\<close>.
\<close>
theorem tb_exit_roundtrip:
  assumes "i < 2 ^ 32 - 1" and "val < 2 ^ 32"
  shows "decode_tb_exit (encode_tb_exit (of_nat i) val) =
    (if val < TB_EXIT_MAX then Some i else None, val)"
proof (cases "val < TB_EXIT_MAX")
  case True
  define m :: u64 where "m = of_nat (Suc i)"
  have "(ucast (of_nat i :: u32) :: u64) = of_nat i"
    using assms(1) by (simp add: word_eq_iff_unsigned unsigned_ucast_eq unsigned_of_nat take_bit_nat_eq_self)
  then have m: "ucast (of_nat i :: u32) + 1 = m"
    by (simp add: m_def)
  have "unat m = Suc i"
    unfolding m_def using assms(1) by (simp only: unsigned_of_nat) (simp add: take_bit_nat_eq_self)
  note m = m this
  then have "m \<noteq> 0"
    by auto
  have "unat (take_bit 32 m) = unat m"
    using m(2) assms(1) by (simp add: unsigned_take_bit_eq take_bit_nat_eq_self)
  then have "take_bit 32 m = m"
    by (rule unsigned_word_eqI)
  then have bit_m: "bit m k \<Longrightarrow> k < 32" for k
    by (metis bit_take_bit_iff)
  have "unat val \<in> {unat (0 :: u64), unat (1 :: u64), unat (2 :: u64)}"
    using True by (auto simp: TB_EXIT_MAX_def word_less_nat_alt)
  then have v: "val \<in> {0, 1, 2}"
    unfolding insert_iff by (blast intro: unsigned_word_eqI)
  have "drop_bit 32 (push_bit 32 m OR val) = m"
    by (rule bit_eqI) (use v in \<open>auto simp: bit_simps dest: bit_m\<close>)
  moreover have "(push_bit 32 m OR val) AND 3 = val"
  proof -
    have "push_bit 32 m AND 3 = 0"
      by (rule bit_eqI) (auto simp only: bit_and_iff bit_push_bit_iff bit_3 bit_0_eq bot_apply bot_bool_def)
    then show ?thesis
      using v by (auto simp: bit.conj_disj_distrib2)
  qed
  moreover have "unat (m - 1) = i"
    using m(2) by (simp add: unat_sub_if_size)
  ultimately show ?thesis
    using True \<open>m \<noteq> 0\<close> m(1) by (simp add: encode_tb_exit_def decode_tb_exit_def Let_def)
next
  case False
  have "drop_bit 32 val = 0"
    using assms(2) by (simp add: drop_bit_eq_div div_word_less)
  with False show ?thesis
    by (simp add: encode_tb_exit_def decode_tb_exit_def)
qed

theorem tb_exit_roundtrip_witness:
  "decode_tb_exit (encode_tb_exit 65535 1) = (Some 65535, 1)
   \<and> decode_tb_exit (encode_tb_exit 65535 EXCP_RISCV_WFI) = (None, EXCP_RISCV_WFI)"
  using tb_exit_roundtrip [of 65535 1] tb_exit_roundtrip [of 65535 EXCP_RISCV_WFI]
  by (simp add: excp_simps)

text \<open>The bound is needed: the encoding of the largest index is that of no block.\<close>

lemma tb_exit_largest_index: "decode_tb_exit (encode_tb_exit (- 1) 1) = (None, 1)"
  unfolding encode_tb_exit_def decode_tb_exit_def TB_EXIT_MAX_def by code_simp

end
