(* ===== verification/Code_Buffer.thy ===== *)
theory Code_Buffer
  imports Machina_Prelude
begin

text \<open>
  The buffer of generated host code (\<open>accel/src/code_buffer.rs\<close>) and the patching of the direct
  jumps that chain translated blocks (\<open>patch_jump\<close> of \<open>accel/src/x86_64/codegen.rs\<close>). The memory
  is a list of bytes whose length is the size of the buffer. \<open>None\<close> stands for a failed assertion
  or a write outside the buffer. The target of the jump at an offset is what the processor
  computes from the displacement in the buffer; the lemmas say what patching does to it.
\<close>

section \<open>The buffer\<close>

definition HIGHWATER_MARGIN :: nat where "HIGHWATER_MARGIN = 1024"

record code_buffer =
  cb_mem :: "u8 list"
  cb_offset :: nat
  cb_jmp_trans :: bool

definition cb_new :: "u64 \<Rightarrow> u64 \<Rightarrow> code_buffer option" where
  "cb_new page size' =
     (let sz = (size' + page - 1) AND NOT (page - 1)
      in if sz = 0 then None
         else Some \<lparr>cb_mem = replicate (unat sz) 0, cb_offset = 0, cb_jmp_trans = False\<rparr>)"

definition capacity :: "code_buffer \<Rightarrow> nat" where
  "capacity cb = length (cb_mem cb)"

definition remaining :: "code_buffer \<Rightarrow> nat" where
  "remaining cb = capacity cb - cb_offset cb"

definition set_offset :: "code_buffer \<Rightarrow> nat \<Rightarrow> code_buffer option" where
  "set_offset cb off = (if off \<le> capacity cb then Some (cb\<lparr>cb_offset := off\<rparr>) else None)"

text \<open>\<open>True\<close>: the translation is aborted by a long jump and retried with fewer instructions.\<close>

definition check_highwater :: "code_buffer \<Rightarrow> bool" where
  "check_highwater cb \<longleftrightarrow> cb_offset cb + HIGHWATER_MARGIN > capacity cb \<and> cb_jmp_trans cb"

definition emit_bytes :: "code_buffer \<Rightarrow> u8 list \<Rightarrow> code_buffer option" where
  "emit_bytes cb bs =
     map_option (\<lambda>m. cb\<lparr>cb_mem := m, cb_offset := cb_offset cb + length bs\<rparr>)
       (store_bytes (cb_mem cb) (cb_offset cb) bs)"

definition emit_u8 :: "code_buffer \<Rightarrow> u8 \<Rightarrow> code_buffer option" where
  "emit_u8 cb v = emit_bytes cb [v]"

definition emit_u16 :: "code_buffer \<Rightarrow> u16 \<Rightarrow> code_buffer option" where
  "emit_u16 cb v = emit_bytes cb (to_le_bytes 2 (ucast v))"

definition emit_u32 :: "code_buffer \<Rightarrow> u32 \<Rightarrow> code_buffer option" where
  "emit_u32 cb v = emit_bytes cb (to_le_bytes 4 (ucast v))"

definition emit_u64 :: "code_buffer \<Rightarrow> u64 \<Rightarrow> code_buffer option" where
  "emit_u64 cb v = emit_bytes cb (to_le_bytes 8 v)"

definition patch_u8 :: "code_buffer \<Rightarrow> nat \<Rightarrow> u8 \<Rightarrow> code_buffer option" where
  "patch_u8 cb off v = map_option (\<lambda>m. cb\<lparr>cb_mem := m\<rparr>) (store_bytes (cb_mem cb) off [v])"

definition patch_u32 :: "code_buffer \<Rightarrow> nat \<Rightarrow> u32 \<Rightarrow> code_buffer option" where
  "patch_u32 cb off v =
     map_option (\<lambda>m. cb\<lparr>cb_mem := m\<rparr>) (store_bytes (cb_mem cb) off (to_le_bytes 4 (ucast v)))"

definition cb_read_u32 :: "code_buffer \<Rightarrow> nat \<Rightarrow> u32 option" where
  "cb_read_u32 cb off = map_option (\<lambda>bs. ucast (from_le_bytes bs)) (load_bytes (cb_mem cb) off 4)"

definition as_slice :: "code_buffer \<Rightarrow> u8 list" where
  "as_slice cb = take (cb_offset cb) (cb_mem cb)"

section \<open>Direct jumps\<close>

text \<open>\<open>E9 rel32\<close>: the displacement is relative to the end of the five-byte instruction.\<close>

definition patch_jump :: "code_buffer \<Rightarrow> nat \<Rightarrow> nat \<Rightarrow> code_buffer option" where
  "patch_jump cb jump_offset target_offset =
     (let disp = int target_offset - (int jump_offset + 5)
      in if - (2 ^ 31) \<le> disp \<and> disp < 2 ^ 31
         then patch_u32 cb (jump_offset + 1) (word_of_int disp) else None)"

definition jump_target :: "code_buffer \<Rightarrow> nat \<Rightarrow> int option" where
  "jump_target cb off = map_option (\<lambda>d. int off + 5 + sint d) (cb_read_u32 cb (off + 1))"

section \<open>Lemmas\<close>

lemma emit_appends:
  assumes "emit_bytes cb bs = Some cb'"
  shows "as_slice cb' = as_slice cb @ bs" "cb_offset cb' = cb_offset cb + length bs" "capacity cb' = capacity cb"
  using assms by (auto simp: emit_bytes_def as_slice_def capacity_def store_bytes_def split: if_splits)

lemma read_patch_u32: "patch_u32 cb off v = Some cb' \<Longrightarrow> cb_read_u32 cb' off = Some v"
proof -
  assume "patch_u32 cb off v = Some cb'"
  then obtain m where m: "store_bytes (cb_mem cb) off (to_le_bytes 4 (ucast v)) = Some m" "cb_mem cb' = m"
    by (auto simp: patch_u32_def)
  have "(ucast (take_bit 32 (ucast v :: u64)) :: u32) = v"
    by (rule bit_eqI) (auto simp: bit_simps dest: bit_imp_le_length)
  then show "cb_read_u32 cb' off = Some v"
    using load_store_same [OF m(1)] m(2) by (simp add: cb_read_u32_def from_to_le_bytes)
qed

lemma read_patch_u32_other:
  assumes "patch_u32 cb off v = Some cb'" and "off' + 4 \<le> off \<or> off + 4 \<le> off'"
  shows "cb_read_u32 cb' off' = cb_read_u32 cb off'"
proof -
  obtain m where m: "store_bytes (cb_mem cb) off (to_le_bytes 4 (ucast v)) = Some m" "cb_mem cb' = m"
    using assms(1) by (auto simp: patch_u32_def)
  then show ?thesis
    using load_store_other [OF m(1)] assms(2) by (simp add: cb_read_u32_def)
qed

lemma patch_u32_frame:
  assumes "patch_u32 cb off v = Some cb'"
  shows "cb_offset cb' = cb_offset cb" "capacity cb' = capacity cb" "cb_jmp_trans cb' = cb_jmp_trans cb"
  using assms store_bytes_length by (auto simp: patch_u32_def capacity_def)

lemma sint_u32: "- (2 ^ 31) \<le> d \<Longrightarrow> d < 2 ^ 31 \<Longrightarrow> sint (word_of_int d :: u32) = d"
  by (simp add: signed_of_int signed_take_bit_int_eq_self)

lemma patch_jump_target:
  assumes "patch_jump cb jo tgt = Some cb'"
  shows "jump_target cb' jo = Some (int tgt)"
proof -
  let ?d = "int tgt - (int jo + 5)"
  have d: "- (2 ^ 31) \<le> ?d" "?d < 2 ^ 31" and p: "patch_u32 cb (jo + 1) (word_of_int ?d) = Some cb'"
    using assms by (auto simp: patch_jump_def Let_def split: if_splits)
  have "sint (word_of_int ?d :: u32) = ?d"
    using d by (rule sint_u32)
  then show ?thesis
    using read_patch_u32 [OF p] by (simp add: jump_target_def)
qed

lemma patch_jump_other:
  assumes "patch_jump cb jo tgt = Some cb'" and "jo' + 4 \<le> jo \<or> jo + 4 \<le> jo'"
  shows "jump_target cb' jo' = jump_target cb jo'"
  using assms read_patch_u32_other
  by (fastforce simp: patch_jump_def jump_target_def Let_def split: if_splits)

lemma patch_jump_frame:
  assumes "patch_jump cb jo tgt = Some cb'"
  shows "cb_offset cb' = cb_offset cb" "capacity cb' = capacity cb" "cb_jmp_trans cb' = cb_jmp_trans cb"
  using assms patch_u32_frame by (auto simp: patch_jump_def Let_def split: if_splits)

lemma patch_jump_defined:
  assumes "jo + 5 \<le> capacity cb" and "tgt \<le> capacity cb" and "capacity cb < 2 ^ 31"
  obtains cb' where "patch_jump cb jo tgt = Some cb'"
  using assms by (auto simp: patch_jump_def patch_u32_def store_bytes_def capacity_def Let_def)

end
