(* ===== verification/Tb_Store.thy ===== *)
theory Tb_Store
  imports Translation_Block Code_Buffer "HOL-Library.Monad_Syntax"
begin

text \<open>
  The store of translated blocks (\<open>accel/src/exec/tb_store.rs\<close>): the blocks, the hash table and the
  lists of blocks per physical page that are threaded through them, the reference count of every
  code page and the global generation. The arrays indexed by bucket and by page are functions;
  every access of the code is in their range (a bucket by its mask, a page by the guards).
  \<open>None\<close> stands for an access outside the store, a failed assertion, or a list walk that does not
  end; the walks are partial functions. Operations are atomic: in the code each runs under the
  lock of the table it changes.
\<close>

section \<open>State\<close>

definition MAX_TBS :: nat where "MAX_TBS = 65536"
definition CODE_REFCOUNT_PAGES :: nat where "CODE_REFCOUNT_PAGES = 2 ^ 20"

record tb_store =
  ts_tbs :: "translation_block list"
  ts_hash :: "nat \<Rightarrow> nat option"
  ts_code_pages :: "nat \<Rightarrow> u8"
  ts_page_heads :: "nat \<Rightarrow> nat option"
  ts_global_gen :: u64

definition ts_new :: tb_store where
  "ts_new = \<lparr>ts_tbs = [], ts_hash = (\<lambda>_. None), ts_code_pages = (\<lambda>_. 0), ts_page_heads = (\<lambda>_. None),
     ts_global_gen = 1\<rparr>"

definition ts_alloc :: "tb_store \<Rightarrow> u64 \<Rightarrow> u32 \<Rightarrow> u32 \<Rightarrow> (nat \<times> tb_store) option" where
  "ts_alloc s p f cf =
     (let idx = length (ts_tbs s)
      in if idx \<ge> MAX_TBS then None else Some (idx, s\<lparr>ts_tbs := ts_tbs s @ [tb_new p f cf]\<rparr>))"

definition ts_get :: "tb_store \<Rightarrow> nat \<Rightarrow> translation_block option" where
  "ts_get s idx = (if idx < length (ts_tbs s) then Some (ts_tbs s ! idx) else None)"

text \<open>An update of one block through \<open>get_mut\<close> or a lock of the block.\<close>

definition upd_tb :: "(translation_block \<Rightarrow> translation_block) \<Rightarrow> nat \<Rightarrow> translation_block list \<Rightarrow>
    translation_block list" where
  "upd_tb f i tbs = tbs[i := f (tbs ! i)]"

definition get_mut :: "(translation_block \<Rightarrow> translation_block) \<Rightarrow> nat \<Rightarrow> tb_store \<Rightarrow> tb_store option" where
  "get_mut f i s = (if i < length (ts_tbs s) then Some (s\<lparr>ts_tbs := upd_tb f i (ts_tbs s)\<rparr>) else None)"

section \<open>Hash table\<close>

definition tb_valid :: "u64 \<Rightarrow> translation_block \<Rightarrow> bool" where
  "tb_valid gen tb \<longleftrightarrow> \<not> tb_invalid tb \<and> tb_gen tb = gen"

partial_function (option) lookup_walk :: "translation_block list \<Rightarrow> u64 \<Rightarrow> u64 \<Rightarrow> u32 \<Rightarrow> nat option \<Rightarrow>
    nat option option" where
  "lookup_walk tbs gen p f cur =
     (case cur of
        None \<Rightarrow> Some None
      | Some idx \<Rightarrow>
          if idx < length tbs then
            if tb_valid gen (tbs ! idx) \<and> tb_pc (tbs ! idx) = p \<and> tb_flags (tbs ! idx) = f then Some (Some idx)
            else lookup_walk tbs gen p f (tb_hash_next (tbs ! idx))
          else None)"

definition ts_lookup :: "tb_store \<Rightarrow> u64 \<Rightarrow> u32 \<Rightarrow> nat option option" where
  "ts_lookup s p f = lookup_walk (ts_tbs s) (ts_global_gen s) p f (ts_hash s (tb_hash p f))"

definition ts_insert :: "tb_store \<Rightarrow> nat \<Rightarrow> tb_store option" where
  "ts_insert s tb_idx = do {
     tb \<leftarrow> ts_get s tb_idx;
     let bucket = tb_hash (tb_pc tb) (tb_flags tb);
     s' \<leftarrow> get_mut (\<lambda>t. t\<lparr>tb_hash_next := ts_hash s bucket\<rparr>) tb_idx s;
     Some (s'\<lparr>ts_hash := (ts_hash s')(bucket := Some tb_idx)\<rparr>)
   }"

text \<open>Removal from a bucket: the blocks and the head of the bucket afterwards.\<close>

partial_function (option) hash_remove :: "translation_block list \<Rightarrow> nat option \<Rightarrow> nat \<Rightarrow> nat option \<Rightarrow> nat option \<Rightarrow>
    (translation_block list \<times> nat option) option" where
  "hash_remove tbs head tb_idx prev cur =
     (case cur of
        None \<Rightarrow> Some (tbs, head)
      | Some idx \<Rightarrow>
          if idx < length tbs then
            if idx = tb_idx then
              let nxt = tb_hash_next (tbs ! idx);
                  (tbs1, head1) =
                    (case prev of
                       Some q \<Rightarrow> (upd_tb (\<lambda>t. t\<lparr>tb_hash_next := nxt\<rparr>) q tbs, head)
                     | None \<Rightarrow> (tbs, nxt))
              in Some (upd_tb (\<lambda>t. t\<lparr>tb_hash_next := None\<rparr>) idx tbs1, head1)
            else hash_remove tbs head tb_idx cur (tb_hash_next (tbs ! idx))
          else None)"

section \<open>Code pages\<close>

definition saturating_add1 :: "u8 \<Rightarrow> u8" where "saturating_add1 v = (if v = 255 then v else v + 1)"
definition saturating_sub1 :: "u8 \<Rightarrow> u8" where "saturating_sub1 v = (if v = 0 then v else v - 1)"

definition mark_code_page :: "tb_store \<Rightarrow> u64 \<Rightarrow> nat \<Rightarrow> tb_store option" where
  "mark_code_page s phys_page tb_idx =
     (let idx = unat phys_page
      in if idx \<ge> CODE_REFCOUNT_PAGES then Some s
         else do {
           let s1 = s\<lparr>ts_code_pages := (ts_code_pages s)(idx := saturating_add1 (ts_code_pages s idx))\<rparr>;
           let old_head = ts_page_heads s1 idx;
           s2 \<leftarrow> get_mut (\<lambda>t. t\<lparr>tb_page_next := old_head\<rparr>) tb_idx s1;
           Some (s2\<lparr>ts_page_heads := (ts_page_heads s2)(idx := Some tb_idx)\<rparr>)
         })"

definition dec_code_page :: "tb_store \<Rightarrow> u64 \<Rightarrow> tb_store" where
  "dec_code_page s phys_page =
     (let idx = unat phys_page
      in if idx < CODE_REFCOUNT_PAGES
         then s\<lparr>ts_code_pages := (ts_code_pages s)(idx := saturating_sub1 (ts_code_pages s idx))\<rparr> else s)"

definition is_code_page :: "tb_store \<Rightarrow> u64 \<Rightarrow> bool" where
  "is_code_page s phys_page \<longleftrightarrow>
     (let idx = unat phys_page in if idx < CODE_REFCOUNT_PAGES then ts_code_pages s idx > 0 else False)"

partial_function (option) page_remove :: "translation_block list \<Rightarrow> nat option \<Rightarrow> nat \<Rightarrow> nat option \<Rightarrow> nat option \<Rightarrow>
    (translation_block list \<times> nat option) option" where
  "page_remove tbs head tb_idx prev cur =
     (case cur of
        None \<Rightarrow> Some (tbs, head)
      | Some i \<Rightarrow>
          if i \<ge> length tbs then Some (tbs, head)
          else if i = tb_idx then
            let nxt = tb_page_next (tbs ! i);
                (tbs1, head1) =
                  (case prev of
                     Some q \<Rightarrow> (upd_tb (\<lambda>t. t\<lparr>tb_page_next := nxt\<rparr>) q tbs, head)
                   | None \<Rightarrow> (tbs, nxt))
            in Some (upd_tb (\<lambda>t. t\<lparr>tb_page_next := None\<rparr>) tb_idx tbs1, head1)
          else page_remove tbs head tb_idx cur
                 (case tb_page_next (tbs ! i) of Some n \<Rightarrow> if n < length tbs then Some n else None | None \<Rightarrow> None))"

definition unlink_page :: "tb_store \<Rightarrow> u64 \<Rightarrow> nat \<Rightarrow> tb_store option" where
  "unlink_page s phys_page tb_idx =
     (let idx = unat phys_page
      in if idx \<ge> CODE_REFCOUNT_PAGES then Some s
         else do {
           (tbs, head) \<leftarrow> page_remove (ts_tbs s) (ts_page_heads s idx) tb_idx None (ts_page_heads s idx);
           Some (s\<lparr>ts_tbs := tbs, ts_page_heads := (ts_page_heads s)(idx := head)\<rparr>)
         })"

section \<open>Invalidation\<close>

text \<open>Restore the jump of an exit slot to its original target.\<close>

definition reset_jump :: "translation_block \<Rightarrow> code_buffer \<Rightarrow> nat \<Rightarrow> code_buffer option" where
  "reset_jump tb cb slot =
     (case (tb_jmp_insn_offset tb ! slot, tb_jmp_reset_offset tb ! slot) of
        (Some jmp_off, Some reset_off) \<Rightarrow> patch_jump cb (unat jmp_off) (unat reset_off)
      | _ \<Rightarrow> Some cb)"

text \<open>Step 1: the incoming edges, each reset in the code and cleared in its source.\<close>

fun unlink_incoming :: "translation_block list \<Rightarrow> code_buffer \<Rightarrow> (nat \<times> nat) list \<Rightarrow>
    (translation_block list \<times> code_buffer) option" where
  "unlink_incoming tbs cb [] = Some (tbs, cb)"
| "unlink_incoming tbs cb ((src, slot) # es) =
     (if src < length tbs \<and> slot < 2 then do {
        cb' \<leftarrow> reset_jump (tbs ! src) cb slot;
        unlink_incoming (upd_tb (\<lambda>t. t\<lparr>tb_jmp_dest := (tb_jmp_dest t)[slot := None]\<rparr>) src tbs) cb' es
      } else None)"

text \<open>Step 2: the outgoing edges, each removed from the list of its destination.\<close>

definition take_outgoing :: "translation_block \<Rightarrow> (nat \<times> nat) list" where
  "take_outgoing tb = List.map_filter (\<lambda>slot. map_option (Pair slot) (tb_jmp_dest tb ! slot)) [0, 1]"

fun unlink_outgoing :: "nat \<Rightarrow> translation_block list \<Rightarrow> (nat \<times> nat) list \<Rightarrow> translation_block list option" where
  "unlink_outgoing tb_idx tbs [] = Some tbs"
| "unlink_outgoing tb_idx tbs ((slot, dst) # es) =
     (if dst < length tbs
      then unlink_outgoing tb_idx
             (upd_tb (\<lambda>t. t\<lparr>tb_jmp_list := filter (\<lambda>(s, n). \<not> (s = tb_idx \<and> n = slot)) (tb_jmp_list t)\<rparr>) dst tbs) es
      else None)"

definition unlink_jumps :: "translation_block list \<Rightarrow> code_buffer \<Rightarrow> nat \<Rightarrow>
    (translation_block list \<times> code_buffer) option" where
  "unlink_jumps tbs cb tb_idx = do {
     let jmp_list = tb_jmp_list (tbs ! tb_idx);
     (tbs1, cb1) \<leftarrow> unlink_incoming (upd_tb (\<lambda>t. t\<lparr>tb_jmp_list := []\<rparr>) tb_idx tbs) cb jmp_list;
     let out = take_outgoing (tbs1 ! tb_idx);
     tbs2 \<leftarrow> unlink_outgoing tb_idx (upd_tb (\<lambda>t. t\<lparr>tb_jmp_dest := [None, None]\<rparr>) tb_idx tbs1) out;
     Some (tbs2, cb1)
   }"

definition ts_invalidate :: "tb_store \<Rightarrow> code_buffer \<Rightarrow> nat \<Rightarrow> (tb_store \<times> code_buffer) option" where
  "ts_invalidate s cb tb_idx = do {
     tb \<leftarrow> ts_get s tb_idx;
     let s1 = s\<lparr>ts_tbs := upd_tb (\<lambda>t. t\<lparr>tb_invalid := True\<rparr>) tb_idx (ts_tbs s)\<rparr>;
     let s2 = dec_code_page s1 (drop_bit 12 (tb_phys_pc tb));
     s3 \<leftarrow> unlink_page s2 (drop_bit 12 (tb_phys_pc tb)) tb_idx;
     (tbs4, cb4) \<leftarrow> unlink_jumps (ts_tbs s3) cb tb_idx;
     let bucket = tb_hash (tb_pc tb) (tb_flags tb);
     (tbs5, head) \<leftarrow> hash_remove tbs4 (ts_hash s3 bucket) tb_idx None (ts_hash s3 bucket);
     Some (s3\<lparr>ts_tbs := tbs5, ts_hash := (ts_hash s3)(bucket := head)\<rparr>, cb4)
   }"

definition invalidate_all :: "tb_store \<Rightarrow> tb_store" where
  "invalidate_all s =
     (let gen = ts_global_gen s + 1
      in s\<lparr>ts_global_gen := if gen = 0 then 1 else gen, ts_code_pages := (\<lambda>_. 0)\<rparr>)"

text \<open>The valid blocks on the list of a page.\<close>

partial_function (option) page_walk :: "translation_block list \<Rightarrow> u64 \<Rightarrow> nat option \<Rightarrow> nat list option" where
  "page_walk tbs gen cur =
     (case cur of
        None \<Rightarrow> Some []
      | Some idx \<Rightarrow>
          if idx \<ge> length tbs then Some []
          else do {
            rest \<leftarrow> page_walk tbs gen (tb_page_next (tbs ! idx));
            Some (if tb_valid gen (tbs ! idx) then idx # rest else rest)
          })"

fun invalidate_each :: "tb_store \<Rightarrow> code_buffer \<Rightarrow> nat list \<Rightarrow> (tb_store \<times> code_buffer) option" where
  "invalidate_each s cb [] = Some (s, cb)"
| "invalidate_each s cb (i # is) = do { (s', cb') \<leftarrow> ts_invalidate s cb i; invalidate_each s' cb' is }"

fun invalidate_scan :: "u64 \<Rightarrow> u64 \<Rightarrow> tb_store \<Rightarrow> code_buffer \<Rightarrow> nat list \<Rightarrow> (tb_store \<times> code_buffer) option" where
  "invalidate_scan gen phys_page s cb [] = Some (s, cb)"
| "invalidate_scan gen phys_page s cb (i # is) = do {
     tb \<leftarrow> ts_get s i;
     (s', cb') \<leftarrow> (if tb_valid gen tb \<and> drop_bit 12 (tb_phys_pc tb) = phys_page then ts_invalidate s cb i else Some (s, cb));
     invalidate_scan gen phys_page s' cb' is
   }"

definition invalidate_phys_page :: "tb_store \<Rightarrow> code_buffer \<Rightarrow> u64 \<Rightarrow> (tb_store \<times> code_buffer) option" where
  "invalidate_phys_page s cb phys_page =
     (if unat phys_page \<ge> CODE_REFCOUNT_PAGES then Some (s, cb)
      else do {
        tb_list \<leftarrow> page_walk (ts_tbs s) (ts_global_gen s) (ts_page_heads s (unat phys_page));
        if tb_list \<noteq> [] then invalidate_each s cb tb_list
        else if is_code_page s phys_page
        then invalidate_scan (ts_global_gen s) phys_page s cb [0..<length (ts_tbs s)]
        else Some (s, cb)
      })"

definition ts_flush :: "tb_store \<Rightarrow> tb_store" where
  "ts_flush s = s\<lparr>ts_tbs := [], ts_hash := (\<lambda>_. None), ts_page_heads := (\<lambda>_. None), ts_code_pages := (\<lambda>_. 0)\<rparr>"

end
