(* ===== verification/Tb_Links.thy ===== *)
theory Tb_Links
  imports Tb_Store
begin

text \<open>
  The singly linked lists threaded through the store. A list is described by the sequence of its
  elements; the interface of a link field gives the effect of pushing and unlinking on that
  sequence, once for the two fields the store uses: \<open>hash_next\<close> and \<open>page_next\<close>. The walks of the
  code are then functions of the sequence.
\<close>

section \<open>Sequences of linked elements\<close>

fun chain :: "(nat \<Rightarrow> nat option) \<Rightarrow> nat option \<Rightarrow> nat list \<Rightarrow> bool" where
  "chain nx h [] \<longleftrightarrow> h = None"
| "chain nx h (i # is) \<longleftrightarrow> h = Some i \<and> chain nx (nx i) is"

lemma chain_unique: "chain nx h xs \<Longrightarrow> chain nx h ys \<Longrightarrow> xs = ys"
proof (induction xs arbitrary: h ys)
  case (Cons x xs)
  then show ?case by (cases ys) auto
qed (auto elim: chain.elims)

lemma chain_cong: "(\<And>j. j \<in> set xs \<Longrightarrow> nx j = nx' j) \<Longrightarrow> chain nx h xs = chain nx' h xs"
  by (induction xs arbitrary: h) auto

lemma chain_split: "chain nx h (ys @ i # zs) \<Longrightarrow> chain nx (nx i) zs"
  by (induction ys arbitrary: h) auto

lemma chain_upd [simp]: "i \<notin> set xs \<Longrightarrow> chain (nx(i := v)) h xs = chain nx h xs"
  by (rule chain_cong) auto

lemma chain_replace:
  assumes "chain nx h (ys @ q # i # zs)" and "distinct (ys @ q # i # zs)"
  shows "chain (nx(q := nx i, i := None)) h (ys @ q # zs)"
  using assms
proof (induction ys arbitrary: h)
  case Nil
  then show ?case by (simp del: fun_upd_apply add: fun_upd_same fun_upd_other)
qed auto

lemma filter_neq: "i \<notin> set xs \<Longrightarrow> filter (\<lambda>j. j \<noteq> i) xs = xs"
  by (induction xs) auto

lemma upd_tb_nth: "i < length tbs \<Longrightarrow> upd_tb f i tbs ! j = (if j = i then f (tbs ! i) else tbs ! j)"
  by (simp add: upd_tb_def nth_list_update)

lemma upd_tb_length [simp]: "length (upd_tb f i tbs) = length tbs"
  by (simp add: upd_tb_def)

definition relinked :: "(nat option \<Rightarrow> translation_block \<Rightarrow> translation_block) \<Rightarrow> nat set \<Rightarrow>
    translation_block list \<Rightarrow> translation_block list \<Rightarrow> bool" where
  "relinked setn X tbs tbs' \<longleftrightarrow> length tbs' = length tbs
     \<and> (\<forall>j. (\<exists>v. tbs' ! j = setn v (tbs ! j)) \<and> (j \<notin> X \<longrightarrow> tbs' ! j = tbs ! j))"

section \<open>The interface of a link field\<close>

locale link_field =
  fixes nxt :: "translation_block \<Rightarrow> nat option"
    and setn :: "nat option \<Rightarrow> translation_block \<Rightarrow> translation_block"
  assumes nxt_setn: "nxt (setn v t) = v"
    and setn_nxt: "setn (nxt t) t = t"
begin

lemma links_upd: "i < length tbs \<Longrightarrow> (\<lambda>j. nxt (upd_tb (setn v) i tbs ! j)) = (\<lambda>j. nxt (tbs ! j))(i := v)"
  by (auto simp: upd_tb_nth nxt_setn fun_eq_iff)

lemma relinked_refl: "relinked setn X tbs tbs"
  using setn_nxt by (auto simp: relinked_def intro: exI [of _ "nxt _"] sym)

lemma push:
  assumes "chain (\<lambda>j. nxt (tbs ! j)) h xs" and "i \<notin> set xs" and "i < length tbs"
  shows "chain (\<lambda>j. nxt (upd_tb (setn h) i tbs ! j)) (Some i) (i # xs)"
  using assms by (simp add: links_upd)

lemma unlink:
  assumes ch: "chain (\<lambda>j. nxt (tbs ! j)) h (ys @ i # zs)" and d: "distinct (ys @ i # zs)"
    and r: "set (ys @ i # zs) \<subseteq> {..<length tbs}"
    and prev: "prev = (if ys = [] then None else Some (last ys))"
    and tbs': "tbs' = upd_tb (setn None) i (case prev of Some q \<Rightarrow> upd_tb (setn (nxt (tbs ! i))) q tbs | None \<Rightarrow> tbs)"
    and h': "h' = (case prev of Some q \<Rightarrow> h | None \<Rightarrow> nxt (tbs ! i))"
  shows "chain (\<lambda>j. nxt (tbs' ! j)) h' (ys @ zs)" "relinked setn (set (ys @ i # zs)) tbs tbs'"
proof -
  have "chain (\<lambda>j. nxt (tbs' ! j)) h' (ys @ zs) \<and> relinked setn (set (ys @ i # zs)) tbs tbs'"
  proof (cases ys rule: rev_cases)
    case Nil
    then have "tbs' = upd_tb (setn None) i tbs" "h' = nxt (tbs ! i)"
      by (simp_all add: prev tbs' h')
    moreover have "chain (\<lambda>j. nxt (upd_tb (setn None) i tbs ! j)) (nxt (tbs ! i)) zs"
      using ch d r Nil by (simp add: links_upd)
    ultimately show ?thesis
      using Nil r relinked_refl [of "{}" tbs] by (auto simp: relinked_def upd_tb_nth)
  next
    case (snoc ys' q)
    have qi: "q \<noteq> i" "q < length tbs" "i < length tbs"
      using d r snoc by auto
    have t: "tbs' = upd_tb (setn None) i (upd_tb (setn (nxt (tbs ! i))) q tbs)" and "h' = h"
      using snoc by (simp_all add: prev tbs' h')
    have len: "i < length (upd_tb (setn (nxt (tbs ! i))) q tbs)"
      using qi by simp
    have "chain ((\<lambda>j. nxt (tbs ! j))(q := nxt (tbs ! i), i := None)) h (ys' @ q # zs)"
      using chain_replace [of "\<lambda>j. nxt (tbs ! j)" h ys' q i zs] ch d snoc by auto
    then have "chain (\<lambda>j. nxt (tbs' ! j)) h (ys @ zs)"
      unfolding t links_upd [OF len] links_upd [OF qi(2)] using snoc by simp
    moreover have "relinked setn (set (ys @ i # zs)) tbs tbs'"
      using relinked_refl [of "{}" tbs] qi snoc
      by (auto simp: relinked_def t upd_tb_nth)
    ultimately show ?thesis
      using \<open>h' = h\<close> by simp
  qed
  then show "chain (\<lambda>j. nxt (tbs' ! j)) h' (ys @ zs)" "relinked setn (set (ys @ i # zs)) tbs tbs'"
    by simp_all
qed

end

interpretation hash_link: link_field tb_hash_next "\<lambda>v t. t\<lparr>tb_hash_next := v\<rparr>"
  by unfold_locales simp_all

interpretation page_link: link_field tb_page_next "\<lambda>v t. t\<lparr>tb_page_next := v\<rparr>"
  by unfold_locales simp_all

abbreviation hash_links :: "translation_block list \<Rightarrow> nat \<Rightarrow> nat option" where
  "hash_links tbs \<equiv> \<lambda>j. tb_hash_next (tbs ! j)"

abbreviation page_links :: "translation_block list \<Rightarrow> nat \<Rightarrow> nat option" where
  "page_links tbs \<equiv> \<lambda>j. tb_page_next (tbs ! j)"

section \<open>The walks\<close>

lemma lookup_walk_chain:
  assumes "chain (hash_links tbs) cur xs" and "set xs \<subseteq> {..<length tbs}"
  shows "lookup_walk tbs gen p f cur =
    Some (find (\<lambda>i. tb_valid gen (tbs ! i) \<and> tb_pc (tbs ! i) = p \<and> tb_flags (tbs ! i) = f) xs)"
  using assms
proof (induction xs arbitrary: cur)
  case Nil
  then show ?case by (subst lookup_walk.simps) simp
next
  case (Cons x xs)
  then show ?case by (subst lookup_walk.simps) simp
qed

lemma page_walk_chain:
  assumes "chain (page_links tbs) cur xs" and "set xs \<subseteq> {..<length tbs}"
  shows "page_walk tbs gen cur = Some (filter (\<lambda>i. tb_valid gen (tbs ! i)) xs)"
  using assms
proof (induction xs arbitrary: cur)
  case Nil
  then show ?case by (subst page_walk.simps) simp
next
  case (Cons x xs)
  then show ?case by (subst page_walk.simps) simp
qed

lemma hash_remove_chain:
  assumes "chain (hash_links tbs) head (ys @ xs)" and "chain (hash_links tbs) cur xs" and "distinct (ys @ xs)"
    and "set (ys @ xs) \<subseteq> {..<length tbs}" and "prev = (if ys = [] then None else Some (last ys))" and "i \<notin> set ys"
  shows "\<exists>tbs' head'. hash_remove tbs head i prev cur = Some (tbs', head')
    \<and> chain (hash_links tbs') head' (filter (\<lambda>j. j \<noteq> i) (ys @ xs))
    \<and> relinked (\<lambda>v t. t\<lparr>tb_hash_next := v\<rparr>) (set (ys @ xs)) tbs tbs'"
  using assms
proof (induction xs arbitrary: ys prev cur)
  case Nil
  moreover have "filter (\<lambda>j. j \<noteq> i) ys = ys"
    using Nil by (simp add: filter_neq)
  ultimately show ?case
    using hash_link.relinked_refl by (subst hash_remove.simps) simp
next
  case (Cons x xs)
  then have cur: "cur = Some x" "x < length tbs" "chain (hash_links tbs) (tb_hash_next (tbs ! x)) xs"
    by auto
  show ?case
  proof (cases "x = i")
    case True
    moreover have "filter (\<lambda>j. j \<noteq> i) (ys @ x # xs) = ys @ xs"
      using Cons.prems True by (simp add: filter_neq)
    ultimately show ?thesis
      using cur hash_link.unlink [OF Cons.prems(1,3,4,5) refl refl]
      by (subst hash_remove.simps) (auto simp: Let_def split: option.split)
  next
    case False
    have "\<exists>tbs' head'. hash_remove tbs head i (Some x) (tb_hash_next (tbs ! x)) = Some (tbs', head')
      \<and> chain (hash_links tbs') head' (filter (\<lambda>j. j \<noteq> i) ((ys @ [x]) @ xs))
      \<and> relinked (\<lambda>v t. t\<lparr>tb_hash_next := v\<rparr>) (set ((ys @ [x]) @ xs)) tbs tbs'"
      by (rule Cons.IH) (use Cons.prems cur False in auto)
    with False cur show ?thesis
      by (subst hash_remove.simps) simp
  qed
qed

lemma page_remove_chain:
  assumes "chain (page_links tbs) head (ys @ xs)" and "chain (page_links tbs) cur xs" and "distinct (ys @ xs)"
    and "set (ys @ xs) \<subseteq> {..<length tbs}" and "prev = (if ys = [] then None else Some (last ys))" and "i \<notin> set ys"
  shows "\<exists>tbs' head'. page_remove tbs head i prev cur = Some (tbs', head')
    \<and> chain (page_links tbs') head' (filter (\<lambda>j. j \<noteq> i) (ys @ xs))
    \<and> relinked (\<lambda>v t. t\<lparr>tb_page_next := v\<rparr>) (set (ys @ xs)) tbs tbs'"
  using assms
proof (induction xs arbitrary: ys prev cur)
  case Nil
  moreover have "filter (\<lambda>j. j \<noteq> i) ys = ys"
    using Nil by (simp add: filter_neq)
  ultimately show ?case
    using page_link.relinked_refl by (subst page_remove.simps) simp
next
  case (Cons x xs)
  then have cur: "cur = Some x" "x < length tbs" "chain (page_links tbs) (tb_page_next (tbs ! x)) xs"
    by auto
  show ?case
  proof (cases "x = i")
    case True
    moreover have "filter (\<lambda>j. j \<noteq> i) (ys @ x # xs) = ys @ xs"
      using Cons.prems True by (simp add: filter_neq)
    ultimately show ?thesis
      using cur page_link.unlink [OF Cons.prems(1,3,4,5) refl refl]
      by (subst page_remove.simps) (auto simp: Let_def split: option.split)
  next
    case False
    have g: "(case tb_page_next (tbs ! x) of Some n \<Rightarrow> if n < length tbs then Some n else None | None \<Rightarrow> None)
        = tb_page_next (tbs ! x)"
      using cur(3) Cons.prems(4) by (cases xs) auto
    have "\<exists>tbs' head'. page_remove tbs head i (Some x) (tb_page_next (tbs ! x)) = Some (tbs', head')
      \<and> chain (page_links tbs') head' (filter (\<lambda>j. j \<noteq> i) ((ys @ [x]) @ xs))
      \<and> relinked (\<lambda>v t. t\<lparr>tb_page_next := v\<rparr>) (set ((ys @ [x]) @ xs)) tbs tbs'"
      by (rule Cons.IH) (use Cons.prems cur False in auto)
    with False cur g show ?thesis
      by (subst page_remove.simps) simp
  qed
qed

end
