(* ===== verification/Tb_Invariant.thy ===== *)
theory Tb_Invariant
  imports Tb_Links
begin

text \<open>
  The invariant of the block store and its code buffer, and that invalidating a block keeps it.
  The invariant says that the buckets and the page lists are strictly decreasing sequences of
  blocks that belong there, that the list of a page has all its live blocks, that every patched
  jump is recorded at its destination, that a live block is chained to live blocks only, and that
  the jump instructions in the code buffer lead where the records say.
\<close>

section \<open>The invariant\<close>

definition page_of :: "translation_block \<Rightarrow> nat" where
  "page_of tb = unat (drop_bit 12 (tb_phys_pc tb))"

definition live :: "tb_store \<Rightarrow> nat \<Rightarrow> bool" where
  "live s i \<longleftrightarrow> i < length (ts_tbs s) \<and> tb_valid (ts_global_gen s) (ts_tbs s ! i)"

definition on_page :: "tb_store \<Rightarrow> nat \<Rightarrow> nat set" where
  "on_page s p = {i. live s i \<and> page_of (ts_tbs s ! i) = p}"

definition hash_list :: "tb_store \<Rightarrow> nat \<Rightarrow> nat list \<Rightarrow> bool" where
  "hash_list s b xs \<longleftrightarrow> chain (hash_links (ts_tbs s)) (ts_hash s b) xs \<and> sorted_wrt (>) xs
     \<and> (\<forall>i\<in>set xs. i < length (ts_tbs s) \<and> tb_hash (tb_pc (ts_tbs s ! i)) (tb_flags (ts_tbs s ! i)) = b)"

definition page_list :: "tb_store \<Rightarrow> nat \<Rightarrow> nat list \<Rightarrow> bool" where
  "page_list s p xs \<longleftrightarrow> chain (page_links (ts_tbs s)) (ts_page_heads s p) xs \<and> sorted_wrt (>) xs
     \<and> (\<forall>i\<in>set xs. i < length (ts_tbs s) \<and> page_of (ts_tbs s ! i) = p)"

definition gens_ok :: "tb_store \<Rightarrow> bool" where
  "gens_ok s \<longleftrightarrow> ts_global_gen s \<noteq> 0 \<and> (\<forall>tb\<in>set (ts_tbs s). tb_gen tb \<le> ts_global_gen s)"

definition lists_ok :: "tb_store \<Rightarrow> bool" where
  "lists_ok s \<longleftrightarrow> (\<forall>b. \<exists>xs. hash_list s b xs)
     \<and> (\<forall>p<CODE_REFCOUNT_PAGES. \<exists>xs. page_list s p xs \<and> on_page s p \<subseteq> set xs)"

definition counts_ok :: "tb_store \<Rightarrow> bool" where
  "counts_ok s \<longleftrightarrow> (\<forall>p<CODE_REFCOUNT_PAGES. unat (ts_code_pages s p) = min 255 (card (on_page s p)))"

text \<open>The destination of an exit slot of a block.\<close>

abbreviation dest :: "translation_block list \<Rightarrow> nat \<Rightarrow> nat \<Rightarrow> nat option" where
  "dest tbs i slot \<equiv> tb_jmp_dest (tbs ! i) ! slot"

definition edges_ok :: "translation_block list \<Rightarrow> bool" where
  "edges_ok tbs \<longleftrightarrow> (\<forall>i<length tbs. length (tb_jmp_dest (tbs ! i)) = 2
     \<and> (\<forall>(src, slot)\<in>set (tb_jmp_list (tbs ! i)). src < length tbs \<and> slot < 2)
     \<and> (\<forall>slot<2. \<forall>dst. dest tbs i slot = Some dst \<longrightarrow> dst < length tbs \<and> (i, slot) \<in> set (tb_jmp_list (tbs ! dst))))"

definition chained_ok :: "tb_store \<Rightarrow> bool" where
  "chained_ok s \<longleftrightarrow> (\<forall>i slot dst. live s i \<and> slot < 2 \<and> dest (ts_tbs s) i slot = Some dst \<longrightarrow> live s dst)"

text \<open>The jump instruction of an exit slot and its original target.\<close>

abbreviation site :: "translation_block list \<Rightarrow> nat \<Rightarrow> nat \<Rightarrow> u32 option" where
  "site tbs i slot \<equiv> tb_jmp_insn_offset (tbs ! i) ! slot"

abbreviation stub :: "translation_block list \<Rightarrow> nat \<Rightarrow> nat \<Rightarrow> u32 option" where
  "stub tbs i slot \<equiv> tb_jmp_reset_offset (tbs ! i) ! slot"

definition sites_apart :: "translation_block list \<Rightarrow> bool" where
  "sites_apart tbs \<longleftrightarrow> (\<forall>i j slot slot' off off'. i < length tbs \<and> j < length tbs \<and> slot < 2 \<and> slot' < 2
     \<and> site tbs i slot = Some off \<and> site tbs j slot' = Some off' \<and> (i, slot) \<noteq> (j, slot')
     \<longrightarrow> unat off + 5 \<le> unat off' \<or> unat off' + 5 \<le> unat off)"

definition site_ok :: "nat \<Rightarrow> translation_block \<Rightarrow> bool" where
  "site_ok n tb \<longleftrightarrow> tb_host_offset tb \<le> n
     \<and> (\<forall>slot<2. \<forall>off. tb_jmp_insn_offset tb ! slot = Some off \<longrightarrow>
          unat off + 5 \<le> n \<and> (\<exists>r. tb_jmp_reset_offset tb ! slot = Some r \<and> unat r \<le> n))"

definition sites_ok :: "translation_block list \<Rightarrow> code_buffer \<Rightarrow> bool" where
  "sites_ok tbs cb \<longleftrightarrow> capacity cb < 2 ^ 31 \<and> cb_offset cb \<le> capacity cb
     \<and> (\<forall>i<length tbs. site_ok (cb_offset cb) (tbs ! i)) \<and> sites_apart tbs"

definition jumps_ok :: "translation_block list \<Rightarrow> code_buffer \<Rightarrow> bool" where
  "jumps_ok tbs cb \<longleftrightarrow> (\<forall>i<length tbs. \<not> tb_invalid (tbs ! i) \<longrightarrow> (\<forall>slot<2. \<forall>off. site tbs i slot = Some off \<longrightarrow>
     jump_target cb (unat off) = Some (case dest tbs i slot of
        None \<Rightarrow> uint (the (stub tbs i slot)) | Some dst \<Rightarrow> int (tb_host_offset (tbs ! dst)))))"

definition store_ok :: "tb_store \<Rightarrow> code_buffer \<Rightarrow> bool" where
  "store_ok s cb \<longleftrightarrow> gens_ok s \<and> lists_ok s \<and> edges_ok (ts_tbs s) \<and> chained_ok s \<and> sites_ok (ts_tbs s) cb
     \<and> jumps_ok (ts_tbs s) cb"

lemma on_page_finite [simp]: "finite (on_page s p)"
  by (rule finite_subset [of _ "{..<length (ts_tbs s)}"]) (auto simp: on_page_def live_def)

section \<open>What the link operations leave alone\<close>

text \<open>A block without its links.\<close>

definition erase :: "translation_block \<Rightarrow> translation_block" where
  "erase t = t\<lparr>tb_hash_next := None, tb_page_next := None, tb_jmp_dest := [], tb_jmp_list := []\<rparr>"

lemma erase_upd [simp]:
  "erase (t\<lparr>tb_hash_next := v\<rparr>) = erase t" "erase (t\<lparr>tb_page_next := v\<rparr>) = erase t"
  "erase (t\<lparr>tb_jmp_dest := d\<rparr>) = erase t" "erase (t\<lparr>tb_jmp_list := l\<rparr>) = erase t"
  by (simp_all add: erase_def)

lemma erase_fields:
  assumes "erase t = erase t'"
  shows "tb_pc t = tb_pc t'" "tb_flags t = tb_flags t'" "tb_phys_pc t = tb_phys_pc t'" "tb_gen t = tb_gen t'"
    "tb_invalid t = tb_invalid t'" "tb_host_offset t = tb_host_offset t'"
    "tb_jmp_insn_offset t = tb_jmp_insn_offset t'" "tb_jmp_reset_offset t = tb_jmp_reset_offset t'"
    "tb_exit_target t = tb_exit_target t'"
  using assms
  by (auto simp: erase_def dest: arg_cong [of _ _ tb_pc] arg_cong [of _ _ tb_flags] arg_cong [of _ _ tb_phys_pc]
      arg_cong [of _ _ tb_gen] arg_cong [of _ _ tb_invalid] arg_cong [of _ _ tb_host_offset]
      arg_cong [of _ _ tb_jmp_insn_offset] arg_cong [of _ _ tb_jmp_reset_offset] arg_cong [of _ _ tb_exit_target])

definition same_blocks :: "translation_block list \<Rightarrow> translation_block list \<Rightarrow> bool" where
  "same_blocks tbs tbs' \<longleftrightarrow> length tbs' = length tbs \<and> (\<forall>j<length tbs. erase (tbs' ! j) = erase (tbs ! j))"

lemma same_blocks_refl [simp]: "same_blocks tbs tbs"
  by (simp add: same_blocks_def)

lemma same_blocks_trans [trans]: "same_blocks t1 t2 \<Longrightarrow> same_blocks t2 t3 \<Longrightarrow> same_blocks t1 t3"
  by (simp add: same_blocks_def)

lemma same_blocks_upd:
  assumes "\<And>t. erase (f t) = erase t"
  shows "same_blocks tbs (upd_tb f i tbs)"
  using assms by (cases "i < length tbs") (simp_all add: same_blocks_def upd_tb_nth, simp add: upd_tb_def)

lemma relinked_same_blocks:
  assumes "relinked setn X tbs tbs'" and "\<And>v t. erase (setn v t) = erase t"
  shows "same_blocks tbs tbs'"
  using assms unfolding relinked_def same_blocks_def by metis

lemma same_blocks_fields:
  assumes "same_blocks tbs tbs'" and "j < length tbs"
  shows "tb_pc (tbs' ! j) = tb_pc (tbs ! j)" "tb_flags (tbs' ! j) = tb_flags (tbs ! j)"
    "tb_phys_pc (tbs' ! j) = tb_phys_pc (tbs ! j)" "tb_gen (tbs' ! j) = tb_gen (tbs ! j)"
    "tb_invalid (tbs' ! j) = tb_invalid (tbs ! j)" "tb_host_offset (tbs' ! j) = tb_host_offset (tbs ! j)"
    "tb_jmp_insn_offset (tbs' ! j) = tb_jmp_insn_offset (tbs ! j)"
    "tb_jmp_reset_offset (tbs' ! j) = tb_jmp_reset_offset (tbs ! j)" "tb_exit_target (tbs' ! j) = tb_exit_target (tbs ! j)"
  using erase_fields [of "tbs' ! j" "tbs ! j"] assms by (simp_all add: same_blocks_def)

text \<open>The same host code and jump instructions.\<close>

definition same_code :: "translation_block list \<Rightarrow> translation_block list \<Rightarrow> bool" where
  "same_code tbs tbs' \<longleftrightarrow> length tbs' = length tbs \<and> (\<forall>j<length tbs. tb_host_offset (tbs' ! j) = tb_host_offset (tbs ! j)
     \<and> tb_jmp_insn_offset (tbs' ! j) = tb_jmp_insn_offset (tbs ! j)
     \<and> tb_jmp_reset_offset (tbs' ! j) = tb_jmp_reset_offset (tbs ! j))"

lemma same_blocks_code: "same_blocks tbs tbs' \<Longrightarrow> same_code tbs tbs'"
  using same_blocks_fields by (simp add: same_code_def same_blocks_def)

lemma sites_ok_same_code:
  assumes "sites_ok tbs cb" and "same_code tbs tbs'" and "capacity cb' = capacity cb" and "cb_offset cb' = cb_offset cb"
  shows "sites_ok tbs' cb'"
proof -
  have len: "length tbs' = length tbs"
    using assms(2) by (simp add: same_code_def)
  have "sites_apart tbs'"
    using assms(1,2) unfolding sites_ok_def sites_apart_def same_code_def by metis
  then show ?thesis
    using assms unfolding sites_ok_def same_code_def by (simp add: site_ok_def)
qed

lemmas sites_ok_same_blocks = sites_ok_same_code [OF _ same_blocks_code]

section \<open>Unlinking the jumps\<close>

text \<open>The destinations of a block once a set of edges has been cut.\<close>

definition cut_edges :: "(nat \<times> nat) set \<Rightarrow> nat \<Rightarrow> nat option list \<Rightarrow> nat option list" where
  "cut_edges E j d = map (\<lambda>slot. if (j, slot) \<in> E then None else d ! slot) [0..<length d]"

lemma cut_length [simp]: "length (cut_edges E j d) = length d"
  by (simp add: cut_edges_def)

lemma cut_nth: "slot < length d \<Longrightarrow> cut_edges E j d ! slot = (if (j, slot) \<in> E then None else d ! slot)"
  by (simp add: cut_edges_def)

lemma cut_empty [simp]: "cut_edges {} j d = d"
  by (rule nth_equalityI) (simp_all add: cut_nth)

lemma cut_insert:
  "cut_edges (insert (i, slot) E) j d = cut_edges E j (if j = i then d[slot := None] else d)"
  by (rule nth_equalityI) (auto simp: cut_nth nth_list_update)

text \<open>A buffer in which the jumps of a set of exit slots lead to their original targets again.\<close>

definition retargeted :: "(nat \<times> nat) set \<Rightarrow> translation_block list \<Rightarrow> code_buffer \<Rightarrow> code_buffer \<Rightarrow> bool" where
  "retargeted E tbs cb cb' \<longleftrightarrow> capacity cb' = capacity cb \<and> cb_offset cb' = cb_offset cb
     \<and> (\<forall>j slot off. j < length tbs \<and> slot < 2 \<and> site tbs j slot = Some off \<longrightarrow>
          jump_target cb' (unat off) =
            (if (j, slot) \<in> E then Some (uint (the (stub tbs j slot))) else jump_target cb (unat off)))"

lemma retargeted_empty [simp]: "retargeted {} tbs cb cb"
  by (simp add: retargeted_def)

lemma retargeted_union:
  assumes "retargeted E tbs cb cb1" and "retargeted F tbs cb1 cb'"
  shows "retargeted (E \<union> F) tbs cb cb'"
  using assms unfolding retargeted_def by auto

lemma retargetedD:
  assumes "retargeted E tbs cb cb'" and "j < length tbs" and "slot < 2" and "site tbs j slot = Some off"
  shows "jump_target cb' (unat off) =
    (if (j, slot) \<in> E then Some (uint (the (stub tbs j slot))) else jump_target cb (unat off))"
  using assms by (simp add: retargeted_def)

lemma retargeted_same_code:
  assumes "same_code tbs tbs'" and "retargeted E tbs' cb cb'"
  shows "retargeted E tbs cb cb'"
proof -
  have "jump_target cb' (unat off) =
      (if (j, slot) \<in> E then Some (uint (the (stub tbs j slot))) else jump_target cb (unat off))"
    if "j < length tbs" "slot < 2" "site tbs j slot = Some off" for j slot off
    using retargetedD [OF assms(2), of j slot off] that assms(1) by (simp add: same_code_def)
  then show ?thesis
    using assms(2) unfolding retargeted_def by simp
qed

lemmas retargeted_same_blocks = retargeted_same_code [OF same_blocks_code]

lemma reset_jump_site:
  assumes ok: "sites_ok tbs cb" and i: "i < length tbs" "slot < 2"
  obtains cb' where "reset_jump (tbs ! i) cb slot = Some cb'" "retargeted {(i, slot)} tbs cb cb'"
proof (cases "site tbs i slot")
  case None
  then have "reset_jump (tbs ! i) cb slot = Some cb"
    by (simp add: reset_jump_def)
  with None show ?thesis
    by (intro that [of cb]) (auto simp: retargeted_def)
next
  case (Some off)
  have "site_ok (cb_offset cb) (tbs ! i)" and cap: "cb_offset cb \<le> capacity cb" "capacity cb < 2 ^ 31"
    using ok i by (simp_all add: sites_ok_def)
  with Some i obtain r where r: "stub tbs i slot = Some r" "unat r \<le> cb_offset cb" "unat off + 5 \<le> cb_offset cb"
    unfolding site_ok_def by blast
  with cap obtain cb' where cb': "patch_jump cb (unat off) (unat r) = Some cb'"
    by (meson order_trans patch_jump_defined)
  have far: "unat off' + 4 \<le> unat off \<or> unat off + 4 \<le> unat off'"
    if "j < length tbs" "slot' < 2" "site tbs j slot' = Some off'" "(j, slot') \<noteq> (i, slot)" for j slot' off'
  proof -
    have "unat off + 5 \<le> unat off' \<or> unat off' + 5 \<le> unat off"
      using ok that i Some unfolding sites_ok_def sites_apart_def by metis
    then show ?thesis
      by linarith
  qed
  have "retargeted {(i, slot)} tbs cb cb'"
    using Some r patch_jump_frame [OF cb'] patch_jump_target [OF cb'] patch_jump_other [OF cb' far]
    unfolding retargeted_def by auto
  then show ?thesis
    using Some r cb' by (intro that [of cb']) (simp_all add: reset_jump_def)
qed

lemma unlink_incoming_spec:
  assumes "sites_ok tbs cb" and "\<forall>(src, slot)\<in>set es. src < length tbs \<and> slot < 2"
  shows "\<exists>tbs' cb'. unlink_incoming tbs cb es = Some (tbs', cb') \<and> length tbs' = length tbs
    \<and> (\<forall>j. tbs' ! j = (tbs ! j)\<lparr>tb_jmp_dest := cut_edges (set es) j (tb_jmp_dest (tbs ! j))\<rparr>)
    \<and> retargeted (set es) tbs cb cb'"
  using assms
proof (induction es arbitrary: tbs cb)
  case (Cons e es)
  obtain i slot where e: "e = (i, slot)" and i: "i < length tbs" "slot < 2"
    using Cons.prems(2) by (cases e) auto
  let ?f = "\<lambda>t. t\<lparr>tb_jmp_dest := (tb_jmp_dest t)[slot := None]\<rparr>"
  let ?tbs = "upd_tb ?f i tbs"
  obtain cb1 where cb1: "reset_jump (tbs ! i) cb slot = Some cb1" "retargeted {(i, slot)} tbs cb cb1"
    using reset_jump_site [OF Cons.prems(1) i] by blast
  have sb: "same_blocks tbs ?tbs"
    by (rule same_blocks_upd) simp
  have "sites_ok ?tbs cb1"
    using cb1(2) by (intro sites_ok_same_blocks [OF Cons.prems(1) sb]) (simp_all add: retargeted_def)
  moreover have "\<forall>(src, slot)\<in>set es. src < length ?tbs \<and> slot < 2"
    using Cons.prems(2) by simp
  ultimately obtain tbs' cb' where IH: "unlink_incoming ?tbs cb1 es = Some (tbs', cb')" "length tbs' = length tbs"
    "\<And>j. tbs' ! j = (?tbs ! j)\<lparr>tb_jmp_dest := cut_edges (set es) j (tb_jmp_dest (?tbs ! j))\<rparr>"
    "retargeted (set es) ?tbs cb1 cb'"
    using Cons.IH [of ?tbs cb1] by fastforce
  have "tbs' ! j = (tbs ! j)\<lparr>tb_jmp_dest := cut_edges (set (e # es)) j (tb_jmp_dest (tbs ! j))\<rparr>" for j
    unfolding IH(3) upd_tb_nth [OF i(1)] by (simp add: e cut_insert)
  moreover have "retargeted (set (e # es)) tbs cb cb'"
    using retargeted_union [OF cb1(2) retargeted_same_blocks [OF sb IH(4)]] by (simp add: e)
  ultimately show ?case
    using e i IH(1,2) cb1(1) by auto
qed simp

lemma unlink_outgoing_spec:
  assumes "\<forall>(slot, dst)\<in>set out. dst < length tbs"
  shows "\<exists>tbs'. unlink_outgoing i tbs out = Some tbs' \<and> length tbs' = length tbs
    \<and> (\<forall>j. \<exists>l. tbs' ! j = (tbs ! j)\<lparr>tb_jmp_list := l\<rparr> \<and> set l \<subseteq> set (tb_jmp_list (tbs ! j))
         \<and> {e \<in> set (tb_jmp_list (tbs ! j)). fst e \<noteq> i} \<subseteq> set l)"
  using assms
proof (induction out arbitrary: tbs)
  case Nil
  have "\<exists>l. tbs ! j = (tbs ! j)\<lparr>tb_jmp_list := l\<rparr> \<and> set l \<subseteq> set (tb_jmp_list (tbs ! j))
         \<and> {e \<in> set (tb_jmp_list (tbs ! j)). fst e \<noteq> i} \<subseteq> set l" for j
    by (rule exI [of _ "tb_jmp_list (tbs ! j)"]) auto
  then show ?case
    by simp
next
  case (Cons e out)
  obtain slot dst where e: "e = (slot, dst)" and d: "dst < length tbs"
    using Cons.prems by (cases e) auto
  let ?f = "\<lambda>t. t\<lparr>tb_jmp_list := filter (\<lambda>(s, n). \<not> (s = i \<and> n = slot)) (tb_jmp_list t)\<rparr>"
  obtain tbs' where IH: "unlink_outgoing i (upd_tb ?f dst tbs) out = Some tbs'" "length tbs' = length tbs"
    "\<And>j. \<exists>l. tbs' ! j = (upd_tb ?f dst tbs ! j)\<lparr>tb_jmp_list := l\<rparr> \<and> set l \<subseteq> set (tb_jmp_list (upd_tb ?f dst tbs ! j))
         \<and> {e \<in> set (tb_jmp_list (upd_tb ?f dst tbs ! j)). fst e \<noteq> i} \<subseteq> set l"
    using Cons.IH [of "upd_tb ?f dst tbs"] Cons.prems by auto
  have "\<exists>l. tbs' ! j = (tbs ! j)\<lparr>tb_jmp_list := l\<rparr> \<and> set l \<subseteq> set (tb_jmp_list (tbs ! j))
         \<and> {e \<in> set (tb_jmp_list (tbs ! j)). fst e \<noteq> i} \<subseteq> set l" for j
  proof -
    obtain l where l: "tbs' ! j = (upd_tb ?f dst tbs ! j)\<lparr>tb_jmp_list := l\<rparr>"
      "set l \<subseteq> set (tb_jmp_list (upd_tb ?f dst tbs ! j))"
      "{e \<in> set (tb_jmp_list (upd_tb ?f dst tbs ! j)). fst e \<noteq> i} \<subseteq> set l"
      using IH(3) [of j] by blast
    then show ?thesis
      by (intro exI [of _ l]) (cases "j = dst"; auto simp: upd_tb_nth [OF d])
  qed
  then show ?case
    using e d IH(1,2) by simp
qed

lemma take_outgoing_dest:
  "(slot, dst) \<in> set (take_outgoing tb) \<Longrightarrow> slot < 2 \<and> tb_jmp_dest tb ! slot = Some dst"
  by (auto simp: take_outgoing_def List.map_filter_def split: if_splits)

text \<open>
  The blocks once all jumps into and out of a block are unlinked: the recorded jumps into it are cut
  at their source, it has no destinations itself, and the lists of the other blocks lose at most
  its own jumps.
\<close>

definition cut_off :: "nat \<Rightarrow> translation_block list \<Rightarrow> translation_block list \<Rightarrow> bool" where
  "cut_off i tbs tbs' \<longleftrightarrow> length tbs' = length tbs \<and> (\<forall>j. \<exists>l. tbs' ! j = (tbs ! j)
     \<lparr>tb_jmp_dest := if j = i then [None, None] else cut_edges (set (tb_jmp_list (tbs ! i))) j (tb_jmp_dest (tbs ! j)),
      tb_jmp_list := l\<rparr> \<and> set l \<subseteq> set (tb_jmp_list (tbs ! j))
         \<and> (j \<noteq> i \<longrightarrow> {e \<in> set (tb_jmp_list (tbs ! j)). fst e \<noteq> i} \<subseteq> set l))"

lemma unlink_jumps_cut_off:
  assumes sites: "sites_ok tbs cb" and edges: "edges_ok tbs" and i: "i < length tbs"
  obtains tbs' cb' where "unlink_jumps tbs cb i = Some (tbs', cb')" "cut_off i tbs tbs'"
    "retargeted (set (tb_jmp_list (tbs ! i))) tbs cb cb'"
proof -
  let ?E = "tb_jmp_list (tbs ! i)" and ?tbs0 = "upd_tb (\<lambda>t. t\<lparr>tb_jmp_list := []\<rparr>) i tbs"
  have sb0: "same_blocks tbs ?tbs0"
    by (rule same_blocks_upd) simp
  have "\<forall>(src, slot)\<in>set ?E. src < length ?tbs0 \<and> slot < 2"
    using edges i by (simp add: edges_ok_def)
  then obtain tbs1 cb1 where 1: "unlink_incoming ?tbs0 cb ?E = Some (tbs1, cb1)" "length tbs1 = length tbs"
    "\<And>j. tbs1 ! j = (?tbs0 ! j)\<lparr>tb_jmp_dest := cut_edges (set ?E) j (tb_jmp_dest (?tbs0 ! j))\<rparr>"
    "retargeted (set ?E) ?tbs0 cb cb1"
    using unlink_incoming_spec [OF sites_ok_same_blocks [OF sites sb0 refl refl], of ?E] by auto
  have nth1: "tbs1 ! j = (tbs ! j)\<lparr>tb_jmp_dest := cut_edges (set ?E) j (tb_jmp_dest (tbs ! j)),
      tb_jmp_list := if j = i then [] else tb_jmp_list (tbs ! j)\<rparr>" for j
    unfolding 1(3) upd_tb_nth [OF i] by simp
  let ?tbs2 = "upd_tb (\<lambda>t. t\<lparr>tb_jmp_dest := [None, None]\<rparr>) i tbs1" and ?out = "take_outgoing (tbs1 ! i)"
  have "dst < length ?tbs2" if "(slot, dst) \<in> set ?out" for slot dst
    using take_outgoing_dest [OF that] edges i 1(2) by (auto simp: nth1 cut_nth edges_ok_def split: if_splits)
  then obtain tbs3 where 3: "unlink_outgoing i ?tbs2 ?out = Some tbs3" "length tbs3 = length tbs"
    "\<And>j. \<exists>l. tbs3 ! j = (?tbs2 ! j)\<lparr>tb_jmp_list := l\<rparr> \<and> set l \<subseteq> set (tb_jmp_list (?tbs2 ! j))
         \<and> {e \<in> set (tb_jmp_list (?tbs2 ! j)). fst e \<noteq> i} \<subseteq> set l"
    using unlink_outgoing_spec [of ?out ?tbs2 i] 1(2) by auto
  have nth2: "?tbs2 ! j = (tbs ! j)\<lparr>tb_jmp_dest := if j = i then [None, None] else cut_edges (set ?E) j (tb_jmp_dest (tbs ! j)),
      tb_jmp_list := if j = i then [] else tb_jmp_list (tbs ! j)\<rparr>" for j
    using i 1(2) by (simp add: upd_tb_nth nth1)
  have "cut_off i tbs tbs3"
    unfolding cut_off_def
  proof (intro conjI allI)
    fix j
    obtain l where "tbs3 ! j = (?tbs2 ! j)\<lparr>tb_jmp_list := l\<rparr>" "set l \<subseteq> set (tb_jmp_list (?tbs2 ! j))"
      "{e \<in> set (tb_jmp_list (?tbs2 ! j)). fst e \<noteq> i} \<subseteq> set l"
      using 3(3) [of j] by blast
    then show "\<exists>l. tbs3 ! j = (tbs ! j)\<lparr>tb_jmp_dest := if j = i then [None, None] else cut_edges (set ?E) j (tb_jmp_dest (tbs ! j)),
        tb_jmp_list := l\<rparr> \<and> set l \<subseteq> set (tb_jmp_list (tbs ! j))
         \<and> (j \<noteq> i \<longrightarrow> {e \<in> set (tb_jmp_list (tbs ! j)). fst e \<noteq> i} \<subseteq> set l)"
      by (intro exI [of _ l]) (cases "j = i"; simp add: nth2)
  qed (rule 3(2))
  then show ?thesis
    using that [of tbs3 cb1] 1(1) 3(1) retargeted_same_blocks [OF sb0 1(4)] by (simp add: unlink_jumps_def)
qed

lemma cut_offE:
  assumes "cut_off i tbs tbs'"
  obtains l where "tbs' ! j = (tbs ! j)\<lparr>tb_jmp_dest := if j = i then [None, None]
      else cut_edges (set (tb_jmp_list (tbs ! i))) j (tb_jmp_dest (tbs ! j)), tb_jmp_list := l\<rparr>"
    "set l \<subseteq> set (tb_jmp_list (tbs ! j))" "j \<noteq> i \<Longrightarrow> {e \<in> set (tb_jmp_list (tbs ! j)). fst e \<noteq> i} \<subseteq> set l"
  using assms unfolding cut_off_def by blast

lemma cut_off_dest:
  assumes c: "cut_off i tbs tbs'" and e: "edges_ok tbs" and j: "j < length tbs" "slot < 2"
  shows "dest tbs' j slot = (if j = i \<or> (j, slot) \<in> set (tb_jmp_list (tbs ! i)) then None else dest tbs j slot)"
proof -
  have "length (tb_jmp_dest (tbs ! j)) = 2"
    using e j by (simp add: edges_ok_def)
  with c show ?thesis
    using j by (elim cut_offE [of _ _ _ j]) (auto simp: cut_nth less_2_cases_iff)
qed

lemma cut_off_edges:
  assumes c: "cut_off i tbs tbs'" and edges: "edges_ok tbs"
  shows "edges_ok tbs'"
proof -
  have len: "length tbs' = length tbs"
    using c by (simp add: cut_off_def)
  have e: "length (tb_jmp_dest (tbs ! j)) = 2" "\<forall>(src, slot)\<in>set (tb_jmp_list (tbs ! j)). src < length tbs \<and> slot < 2"
    if "j < length tbs" for j
    using edges that by (simp_all add: edges_ok_def)
  show ?thesis
    unfolding edges_ok_def len
  proof (intro allI impI conjI)
    fix j
    assume j: "j < length tbs"
    show "length (tb_jmp_dest (tbs' ! j)) = 2"
      using c e [OF j] by (elim cut_offE [of _ _ _ j]) simp
    show "\<forall>(src, slot)\<in>set (tb_jmp_list (tbs' ! j)). src < length tbs \<and> slot < 2"
      using c e [OF j] by (elim cut_offE [of _ _ _ j]) auto
    fix slot dst
    assume slot: "slot < 2" and "dest tbs' j slot = Some dst"
    then have nj: "j \<noteq> i" "(j, slot) \<notin> set (tb_jmp_list (tbs ! i))" "dest tbs j slot = Some dst"
      using cut_off_dest [OF c edges j slot] by (auto split: if_splits)
    then have "(j, slot) \<in> set (tb_jmp_list (tbs ! dst))" "dst < length tbs"
      using edges j slot by (auto simp: edges_ok_def)
    moreover from this have "dst \<noteq> i"
      using nj by auto
    ultimately show "dst < length tbs" "(j, slot) \<in> set (tb_jmp_list (tbs' ! dst))"
      using c nj by (simp, elim cut_offE [of _ _ _ dst]) auto
  qed
qed

section \<open>Unlinking from the lists\<close>

lemma hash_list_cong:
  assumes "hash_list s b xs" and "length (ts_tbs s') = length (ts_tbs s)" and "ts_hash s' b = ts_hash s b"
    and "\<And>j. j \<in> set xs \<Longrightarrow> hash_links (ts_tbs s') j = hash_links (ts_tbs s) j"
    and "\<And>j. j \<in> set xs \<Longrightarrow> tb_pc (ts_tbs s' ! j) = tb_pc (ts_tbs s ! j) \<and> tb_flags (ts_tbs s' ! j) = tb_flags (ts_tbs s ! j)"
  shows "hash_list s' b xs"
  using assms chain_cong [of xs "hash_links (ts_tbs s')" "hash_links (ts_tbs s)"]
  by (auto simp: hash_list_def)

lemma page_list_cong:
  assumes "page_list s p xs" and "length (ts_tbs s') = length (ts_tbs s)" and "ts_page_heads s' p = ts_page_heads s p"
    and "\<And>j. j \<in> set xs \<Longrightarrow> page_links (ts_tbs s') j = page_links (ts_tbs s) j"
    and "\<And>j. j \<in> set xs \<Longrightarrow> tb_phys_pc (ts_tbs s' ! j) = tb_phys_pc (ts_tbs s ! j)"
  shows "page_list s' p xs"
  using assms chain_cong [of xs "page_links (ts_tbs s')" "page_links (ts_tbs s)"]
  by (auto simp: page_list_def page_of_def)

lemma page_list_distinct: "page_list s p xs \<Longrightarrow> distinct xs"
  by (auto simp: page_list_def sorted_wrt_iff_nth_less distinct_conv_nth) (metis less_irrefl nat_neq_iff)

lemma hash_list_distinct: "hash_list s b xs \<Longrightarrow> distinct xs"
  by (auto simp: hash_list_def sorted_wrt_iff_nth_less distinct_conv_nth) (metis less_irrefl nat_neq_iff)

lemma unlink_page_spec:
  assumes lists: "\<forall>p<CODE_REFCOUNT_PAGES. \<exists>xs. page_list s p xs" and i: "i < length (ts_tbs s)"
    and page: "pg = drop_bit 12 (tb_phys_pc (ts_tbs s ! i))"
  obtains tbs' heads where "unlink_page s pg i = Some (s\<lparr>ts_tbs := tbs', ts_page_heads := heads\<rparr>)"
    "length tbs' = length (ts_tbs s)" "\<And>j. \<exists>v. tbs' ! j = (ts_tbs s ! j)\<lparr>tb_page_next := v\<rparr>"
    "\<And>p xs. p < CODE_REFCOUNT_PAGES \<Longrightarrow> page_list s p xs \<Longrightarrow>
       page_list (s\<lparr>ts_tbs := tbs', ts_page_heads := heads\<rparr>) p (filter (\<lambda>j. j \<noteq> i) xs)"
proof (cases "unat pg < CODE_REFCOUNT_PAGES")
  case False
  have "filter (\<lambda>j. j \<noteq> i) xs = xs" if "p < CODE_REFCOUNT_PAGES" "page_list s p xs" for p xs
    using that False page by (intro filter_neq) (auto simp: page_list_def page_of_def)
  moreover have "\<exists>v. ts_tbs s ! j = (ts_tbs s ! j)\<lparr>tb_page_next := v\<rparr>" for j
    by (rule exI [of _ "tb_page_next (ts_tbs s ! j)"]) simp
  ultimately show ?thesis
    using False by (intro that [where tbs' = "ts_tbs s" and heads = "ts_page_heads s"]) (simp_all add: unlink_page_def)
next
  case True
  let ?p = "unat pg"
  obtain xs where xs: "page_list s ?p xs"
    using lists True by blast
  obtain tbs' head where r: "page_remove (ts_tbs s) (ts_page_heads s ?p) i None (ts_page_heads s ?p) = Some (tbs', head)"
    "chain (page_links tbs') head (filter (\<lambda>j. j \<noteq> i) xs)"
    "relinked (\<lambda>v t. t\<lparr>tb_page_next := v\<rparr>) (set xs) (ts_tbs s) tbs'"
    using page_remove_chain [of "ts_tbs s" "ts_page_heads s ?p" "[]" xs "ts_page_heads s ?p" None i]
      xs page_list_distinct [OF xs] by (auto simp: page_list_def)
  let ?s' = "s\<lparr>ts_tbs := tbs', ts_page_heads := (ts_page_heads s)(?p := head)\<rparr>"
  have nth: "\<exists>v. tbs' ! j = (ts_tbs s ! j)\<lparr>tb_page_next := v\<rparr>" and len: "length tbs' = length (ts_tbs s)" for j
    using r(3) by (auto simp: relinked_def)
  have phys: "tb_phys_pc (tbs' ! j) = tb_phys_pc (ts_tbs s ! j)" for j
    using nth [of j] by auto
  have "page_list ?s' p (filter (\<lambda>j. j \<noteq> i) ys)" if p: "p < CODE_REFCOUNT_PAGES" "page_list s p ys" for p ys
  proof (cases "p = ?p")
    case True
    then have "ys = xs"
      using p(2) xs chain_unique by (auto simp: page_list_def)
    then show ?thesis
      using True p(2) r(2) len by (auto simp: page_list_def page_of_def phys sorted_wrt_filter)
  next
    case False
    have dis: "j \<notin> set xs" if "j \<in> set ys" for j
      using that p(2) xs False by (auto simp: page_list_def)
    have "i \<notin> set ys"
      using p(2) False page by (auto simp: page_list_def page_of_def)
    then have "filter (\<lambda>j. j \<noteq> i) ys = ys"
      by (rule filter_neq)
    moreover have "tbs' ! j = ts_tbs s ! j" if "j \<in> set ys" for j
      using r(3) dis [OF that] by (simp add: relinked_def)
    ultimately show ?thesis
      using False len by (simp add: page_list_cong [OF p(2)])
  qed
  moreover have "unlink_page s pg i = Some ?s'"
    using True r(1) by (simp add: unlink_page_def)
  ultimately show ?thesis
    using that nth len by blast
qed

lemma hash_remove_spec:
  assumes lists: "\<forall>b. \<exists>xs. hash_list s b xs" and i: "i < length (ts_tbs s)"
    and b: "b = tb_hash (tb_pc (ts_tbs s ! i)) (tb_flags (ts_tbs s ! i))"
  obtains tbs' head where "hash_remove (ts_tbs s) (ts_hash s b) i None (ts_hash s b) = Some (tbs', head)"
    "length tbs' = length (ts_tbs s)" "\<And>j. \<exists>v. tbs' ! j = (ts_tbs s ! j)\<lparr>tb_hash_next := v\<rparr>"
    "\<And>c xs. hash_list s c xs \<Longrightarrow>
       hash_list (s\<lparr>ts_tbs := tbs', ts_hash := (ts_hash s)(b := head)\<rparr>) c (filter (\<lambda>j. j \<noteq> i) xs)"
proof -
  obtain xs where xs: "hash_list s b xs"
    using lists by blast
  obtain tbs' head where r: "hash_remove (ts_tbs s) (ts_hash s b) i None (ts_hash s b) = Some (tbs', head)"
    "chain (hash_links tbs') head (filter (\<lambda>j. j \<noteq> i) xs)"
    "relinked (\<lambda>v t. t\<lparr>tb_hash_next := v\<rparr>) (set xs) (ts_tbs s) tbs'"
    using hash_remove_chain [of "ts_tbs s" "ts_hash s b" "[]" xs "ts_hash s b" None i]
      xs hash_list_distinct [OF xs] by (auto simp: hash_list_def)
  let ?s' = "s\<lparr>ts_tbs := tbs', ts_hash := (ts_hash s)(b := head)\<rparr>"
  have nth: "\<exists>v. tbs' ! j = (ts_tbs s ! j)\<lparr>tb_hash_next := v\<rparr>" and len: "length tbs' = length (ts_tbs s)" for j
    using r(3) by (auto simp: relinked_def)
  have key: "tb_pc (tbs' ! j) = tb_pc (ts_tbs s ! j)" "tb_flags (tbs' ! j) = tb_flags (ts_tbs s ! j)" for j
    using nth [of j] by auto
  have "hash_list ?s' c (filter (\<lambda>j. j \<noteq> i) ys)" if c: "hash_list s c ys" for c ys
  proof (cases "c = b")
    case True
    then have "ys = xs"
      using c xs chain_unique by (auto simp: hash_list_def)
    then show ?thesis
      using True c r(2) len by (auto simp: hash_list_def key sorted_wrt_filter)
  next
    case False
    have dis: "j \<notin> set xs" if "j \<in> set ys" for j
      using that c xs False by (auto simp: hash_list_def)
    have "i \<notin> set ys"
      using c False b by (auto simp: hash_list_def)
    then have "filter (\<lambda>j. j \<noteq> i) ys = ys"
      by (rule filter_neq)
    moreover have "tbs' ! j = ts_tbs s ! j" if "j \<in> set ys" for j
      using r(3) dis [OF that] by (simp add: relinked_def)
    ultimately show ?thesis
      using False len by (simp add: hash_list_cong [OF c])
  qed
  then show ?thesis
    using that nth len r(1) by blast
qed

section \<open>Invalidating a block\<close>

lemma edges_ok_cong:
  assumes "edges_ok tbs" and "length tbs' = length tbs"
    and "\<And>j. j < length tbs \<Longrightarrow> tb_jmp_dest (tbs' ! j) = tb_jmp_dest (tbs ! j) \<and> tb_jmp_list (tbs' ! j) = tb_jmp_list (tbs ! j)"
  shows "edges_ok tbs'"
  using assms unfolding edges_ok_def by auto

lemma dec_code_page_frame [simp]:
  "ts_tbs (dec_code_page s pg) = ts_tbs s" "ts_hash (dec_code_page s pg) = ts_hash s"
  "ts_page_heads (dec_code_page s pg) = ts_page_heads s" "ts_global_gen (dec_code_page s pg) = ts_global_gen s"
  by (simp_all add: dec_code_page_def Let_def)

definition mark_invalid :: "nat \<Rightarrow> translation_block list \<Rightarrow> translation_block list" where
  "mark_invalid i tbs = upd_tb (\<lambda>t. t\<lparr>tb_invalid := True\<rparr>) i tbs"

lemma mark_invalid_length [simp]: "length (mark_invalid i tbs) = length tbs"
  by (simp add: mark_invalid_def)

lemma mark_invalid_nth:
  "i < length tbs \<Longrightarrow> mark_invalid i tbs ! j = (tbs ! j)\<lparr>tb_invalid := tb_invalid (tbs ! j) \<or> j = i\<rparr>"
  by (simp add: mark_invalid_def upd_tb_nth)

text \<open>The first half of an invalidation: the block is marked and leaves the list of its page.\<close>

definition page_detached :: "nat \<Rightarrow> tb_store \<Rightarrow> tb_store \<Rightarrow> bool" where
  "page_detached i s s' \<longleftrightarrow> length (ts_tbs s') = length (ts_tbs s) \<and> ts_hash s' = ts_hash s
     \<and> ts_global_gen s' = ts_global_gen s
     \<and> ts_code_pages s' = ts_code_pages (dec_code_page s (drop_bit 12 (tb_phys_pc (ts_tbs s ! i))))
     \<and> (\<forall>j. \<exists>v. ts_tbs s' ! j = (mark_invalid i (ts_tbs s) ! j)\<lparr>tb_page_next := v\<rparr>)
     \<and> (\<forall>p<CODE_REFCOUNT_PAGES. \<forall>xs. page_list s p xs \<longrightarrow> page_list s' p (filter (\<lambda>j. j \<noteq> i) xs))"

lemma page_detach:
  assumes pl: "\<forall>p<CODE_REFCOUNT_PAGES. \<exists>xs. page_list s p xs" and i: "i < length (ts_tbs s)"
    and pg: "pg = drop_bit 12 (tb_phys_pc (ts_tbs s ! i))"
  obtains s' where "unlink_page (dec_code_page (s\<lparr>ts_tbs := mark_invalid i (ts_tbs s)\<rparr>) pg) pg i = Some s'"
    "page_detached i s s'"
proof -
  define s2 where "s2 = dec_code_page (s\<lparr>ts_tbs := mark_invalid i (ts_tbs s)\<rparr>) pg"
  have s2: "ts_tbs s2 = mark_invalid i (ts_tbs s)" "ts_hash s2 = ts_hash s" "ts_page_heads s2 = ts_page_heads s"
      "ts_global_gen s2 = ts_global_gen s" "ts_code_pages s2 = ts_code_pages (dec_code_page s pg)"
    by (simp_all add: s2_def) (simp add: dec_code_page_def Let_def)
  have pl2: "page_list s2 p xs" if "page_list s p xs" for p xs
    using that by (rule page_list_cong) (simp_all add: s2 mark_invalid_nth [OF i])
  have "\<forall>p<CODE_REFCOUNT_PAGES. \<exists>xs. page_list s2 p xs" "i < length (ts_tbs s2)"
      "pg = drop_bit 12 (tb_phys_pc (ts_tbs s2 ! i))"
    using pl pl2 i by (blast, simp_all add: s2 pg mark_invalid_nth [OF i])
  then obtain tbs' heads where 1: "unlink_page s2 pg i = Some (s2\<lparr>ts_tbs := tbs', ts_page_heads := heads\<rparr>)"
    "length tbs' = length (ts_tbs s2)" "\<And>j. \<exists>v. tbs' ! j = (ts_tbs s2 ! j)\<lparr>tb_page_next := v\<rparr>"
    "\<And>p xs. p < CODE_REFCOUNT_PAGES \<Longrightarrow> page_list s2 p xs \<Longrightarrow>
       page_list (s2\<lparr>ts_tbs := tbs', ts_page_heads := heads\<rparr>) p (filter (\<lambda>j. j \<noteq> i) xs)"
    by (rule unlink_page_spec) (rule that)
  then have "page_detached i s (s2\<lparr>ts_tbs := tbs', ts_page_heads := heads\<rparr>)"
    using pl2 by (simp add: page_detached_def s2 pg)
  then show ?thesis
    using that 1(1) by (simp add: s2_def)
qed

lemma page_detached_fields:
  assumes "page_detached i s s'" and "i < length (ts_tbs s)"
  shows "tb_jmp_dest (ts_tbs s' ! j) = tb_jmp_dest (ts_tbs s ! j)" "tb_jmp_list (ts_tbs s' ! j) = tb_jmp_list (ts_tbs s ! j)"
    "tb_hash_next (ts_tbs s' ! j) = tb_hash_next (ts_tbs s ! j)" "erase (ts_tbs s' ! j) = erase (mark_invalid i (ts_tbs s) ! j)"
    "tb_pc (ts_tbs s' ! j) = tb_pc (ts_tbs s ! j)" "tb_flags (ts_tbs s' ! j) = tb_flags (ts_tbs s ! j)"
    "tb_host_offset (ts_tbs s' ! j) = tb_host_offset (ts_tbs s ! j)"
    "tb_jmp_insn_offset (ts_tbs s' ! j) = tb_jmp_insn_offset (ts_tbs s ! j)"
    "tb_jmp_reset_offset (ts_tbs s' ! j) = tb_jmp_reset_offset (ts_tbs s ! j)"
proof -
  obtain v where "ts_tbs s' ! j = (mark_invalid i (ts_tbs s) ! j)\<lparr>tb_page_next := v\<rparr>"
    using assms(1) unfolding page_detached_def by blast
  then show "tb_jmp_dest (ts_tbs s' ! j) = tb_jmp_dest (ts_tbs s ! j)" "tb_jmp_list (ts_tbs s' ! j) = tb_jmp_list (ts_tbs s ! j)"
    "tb_hash_next (ts_tbs s' ! j) = tb_hash_next (ts_tbs s ! j)" "erase (ts_tbs s' ! j) = erase (mark_invalid i (ts_tbs s) ! j)"
    "tb_pc (ts_tbs s' ! j) = tb_pc (ts_tbs s ! j)" "tb_flags (ts_tbs s' ! j) = tb_flags (ts_tbs s ! j)"
    "tb_host_offset (ts_tbs s' ! j) = tb_host_offset (ts_tbs s ! j)"
    "tb_jmp_insn_offset (ts_tbs s' ! j) = tb_jmp_insn_offset (ts_tbs s ! j)"
    "tb_jmp_reset_offset (ts_tbs s' ! j) = tb_jmp_reset_offset (ts_tbs s ! j)"
    by (simp_all add: mark_invalid_nth [OF assms(2)])
qed

text \<open>A whole invalidation.\<close>

definition detached :: "nat \<Rightarrow> tb_store \<Rightarrow> code_buffer \<Rightarrow> tb_store \<Rightarrow> code_buffer \<Rightarrow> bool" where
  "detached i s cb s' cb' \<longleftrightarrow> same_blocks (mark_invalid i (ts_tbs s)) (ts_tbs s') \<and> ts_global_gen s' = ts_global_gen s
     \<and> ts_code_pages s' = ts_code_pages (dec_code_page s (drop_bit 12 (tb_phys_pc (ts_tbs s ! i))))
     \<and> (\<forall>b xs. hash_list s b xs \<longrightarrow> hash_list s' b (filter (\<lambda>j. j \<noteq> i) xs))
     \<and> (\<forall>p<CODE_REFCOUNT_PAGES. \<forall>xs. page_list s p xs \<longrightarrow> page_list s' p (filter (\<lambda>j. j \<noteq> i) xs))
     \<and> edges_ok (ts_tbs s') \<and> retargeted (set (tb_jmp_list (ts_tbs s ! i))) (ts_tbs s) cb cb'
     \<and> (\<forall>j slot. j < length (ts_tbs s) \<and> slot < 2 \<longrightarrow> dest (ts_tbs s') j slot =
          (if j = i \<or> (j, slot) \<in> set (tb_jmp_list (ts_tbs s ! i)) then None else dest (ts_tbs s) j slot))"

lemma jumps_and_hash_detach:
  assumes hl: "\<forall>b. \<exists>xs. hash_list s b xs" and edges: "edges_ok (ts_tbs s)" and sites: "sites_ok (ts_tbs s) cb"
    and i: "i < length (ts_tbs s)" and s3: "page_detached i s s3"
    and b: "b = tb_hash (tb_pc (ts_tbs s ! i)) (tb_flags (ts_tbs s ! i))"
  obtains tbs4 cb' tbs5 head where "unlink_jumps (ts_tbs s3) cb i = Some (tbs4, cb')"
    "hash_remove tbs4 (ts_hash s3 b) i None (ts_hash s3 b) = Some (tbs5, head)"
    "detached i s cb (s3\<lparr>ts_tbs := tbs5, ts_hash := (ts_hash s3)(b := head)\<rparr>) cb'"
proof -
  let ?tbs = "ts_tbs s"
  note f3 = page_detached_fields [OF s3 i]
  have len3: "length (ts_tbs s3) = length ?tbs" and h3: "ts_hash s3 = ts_hash s"
    using s3 by (simp_all add: page_detached_def)
  have code3: "same_code ?tbs (ts_tbs s3)"
    by (simp add: same_code_def len3 f3)
  have e3: "sites_ok (ts_tbs s3) cb" "edges_ok (ts_tbs s3)" "i < length (ts_tbs s3)"
    using sites_ok_same_code [OF sites code3 refl refl] edges_ok_cong [OF edges] len3 i f3 by simp_all
  then obtain tbs4 cb' where 4: "unlink_jumps (ts_tbs s3) cb i = Some (tbs4, cb')" "cut_off i (ts_tbs s3) tbs4"
    "retargeted (set (tb_jmp_list (ts_tbs s3 ! i))) (ts_tbs s3) cb cb'"
    by (rule unlink_jumps_cut_off)
  define s4 where "s4 = s3\<lparr>ts_tbs := tbs4\<rparr>"
  have len4: "length tbs4 = length ?tbs"
    using 4(2) len3 by (simp add: cut_off_def)
  have f4: "tb_page_next (tbs4 ! j) = tb_page_next (ts_tbs s3 ! j)" "tb_hash_next (tbs4 ! j) = tb_hash_next (?tbs ! j)"
      "erase (tbs4 ! j) = erase (mark_invalid i ?tbs ! j)" "tb_pc (tbs4 ! j) = tb_pc (?tbs ! j)"
      "tb_flags (tbs4 ! j) = tb_flags (?tbs ! j)" "tb_phys_pc (tbs4 ! j) = tb_phys_pc (ts_tbs s3 ! j)" for j
    using 4(2) f3 [of j] by (auto elim!: cut_offE [of _ _ _ j])
  have hl4: "hash_list s4 c xs" if "hash_list s c xs" for c xs
    using that by (rule hash_list_cong) (simp_all add: s4_def len4 f4 h3)
  have "\<forall>c. \<exists>xs. hash_list s4 c xs" "i < length (ts_tbs s4)" "b = tb_hash (tb_pc (ts_tbs s4 ! i)) (tb_flags (ts_tbs s4 ! i))"
    using hl hl4 i by (blast, simp_all add: s4_def len4 f4 b)
  then obtain tbs5 head where 5: "hash_remove (ts_tbs s4) (ts_hash s4 b) i None (ts_hash s4 b) = Some (tbs5, head)"
    "length tbs5 = length (ts_tbs s4)" "\<And>j. \<exists>v. tbs5 ! j = (ts_tbs s4 ! j)\<lparr>tb_hash_next := v\<rparr>"
    "\<And>c xs. hash_list s4 c xs \<Longrightarrow>
       hash_list (s4\<lparr>ts_tbs := tbs5, ts_hash := (ts_hash s4)(b := head)\<rparr>) c (filter (\<lambda>j. j \<noteq> i) xs)"
    by (rule hash_remove_spec) (rule that)
  let ?s' = "s3\<lparr>ts_tbs := tbs5, ts_hash := (ts_hash s3)(b := head)\<rparr>"
  have len5: "length tbs5 = length ?tbs"
    using 5(2) by (simp add: s4_def len4)
  have f5: "tb_page_next (tbs5 ! j) = tb_page_next (ts_tbs s3 ! j)" "tb_jmp_dest (tbs5 ! j) = tb_jmp_dest (tbs4 ! j)"
      "tb_jmp_list (tbs5 ! j) = tb_jmp_list (tbs4 ! j)" "erase (tbs5 ! j) = erase (mark_invalid i ?tbs ! j)"
      "tb_phys_pc (tbs5 ! j) = tb_phys_pc (ts_tbs s3 ! j)" for j
    using 5(3) [of j] f4 [of j] by (auto simp: s4_def)
  have "page_list ?s' p (filter (\<lambda>j. j \<noteq> i) xs)" if "p < CODE_REFCOUNT_PAGES" "page_list s p xs" for p xs
    by (rule page_list_cong [of s3]) (use s3 that in \<open>simp_all add: page_detached_def len5 len3 f5\<close>)
  moreover have "edges_ok tbs5"
    by (rule edges_ok_cong [OF cut_off_edges [OF 4(2) e3(2)]]) (simp_all add: len5 len4 f5)
  moreover have "retargeted (set (tb_jmp_list (?tbs ! i))) ?tbs cb cb'"
    using retargeted_same_code [OF code3 4(3)] by (simp add: f3)
  moreover have "hash_list ?s' c (filter (\<lambda>j. j \<noteq> i) xs)" if "hash_list s c xs" for c xs
    using 5(4) [OF hl4 [OF that]] by (simp add: s4_def)
  ultimately have "detached i s cb ?s' cb'"
    using s3 cut_off_dest [OF 4(2) e3(2)] by (simp add: detached_def same_blocks_def page_detached_def len5 len3 f5 f3)
  then show ?thesis
    using that 4(1) 5(1) by (simp add: s4_def)
qed

lemma invalidate_detaches:
  assumes hl: "\<forall>b. \<exists>xs. hash_list s b xs" and pl: "\<forall>p<CODE_REFCOUNT_PAGES. \<exists>xs. page_list s p xs"
    and edges: "edges_ok (ts_tbs s)" and sites: "sites_ok (ts_tbs s) cb" and i: "i < length (ts_tbs s)"
  obtains s' cb' where "ts_invalidate s cb i = Some (s', cb')" "detached i s cb s' cb'"
proof -
  obtain s3 where 3: "unlink_page (dec_code_page (s\<lparr>ts_tbs := mark_invalid i (ts_tbs s)\<rparr>)
      (drop_bit 12 (tb_phys_pc (ts_tbs s ! i)))) (drop_bit 12 (tb_phys_pc (ts_tbs s ! i))) i = Some s3" "page_detached i s s3"
    by (rule page_detach [OF pl i refl])
  obtain tbs4 cb' tbs5 head where "unlink_jumps (ts_tbs s3) cb i = Some (tbs4, cb')"
    "hash_remove tbs4 (ts_hash s3 (tb_hash (tb_pc (ts_tbs s ! i)) (tb_flags (ts_tbs s ! i)))) i None
       (ts_hash s3 (tb_hash (tb_pc (ts_tbs s ! i)) (tb_flags (ts_tbs s ! i)))) = Some (tbs5, head)"
    "detached i s cb (s3\<lparr>ts_tbs := tbs5,
       ts_hash := (ts_hash s3)(tb_hash (tb_pc (ts_tbs s ! i)) (tb_flags (ts_tbs s ! i)) := head)\<rparr>) cb'"
    by (rule jumps_and_hash_detach [OF hl edges sites i 3(2) refl])
  then show ?thesis
    using that i 3(1) by (simp add: ts_invalidate_def ts_get_def mark_invalid_def)
qed

text \<open>
  The effect of invalidating a set of live blocks: exactly these stop being live, they leave their
  buckets, the count of a page goes down by as many as it had among them, and nothing else of a
  block that a lookup compares changes.
\<close>

definition dropped :: "nat set \<Rightarrow> tb_store \<Rightarrow> tb_store \<Rightarrow> bool" where
  "dropped D s s' \<longleftrightarrow> D \<subseteq> {i. live s i} \<and> length (ts_tbs s') = length (ts_tbs s) \<and> ts_global_gen s' = ts_global_gen s
     \<and> (\<forall>j<length (ts_tbs s). tb_pc (ts_tbs s' ! j) = tb_pc (ts_tbs s ! j) \<and> tb_flags (ts_tbs s' ! j) = tb_flags (ts_tbs s ! j)
          \<and> tb_phys_pc (ts_tbs s' ! j) = tb_phys_pc (ts_tbs s ! j) \<and> tb_exit_target (ts_tbs s' ! j) = tb_exit_target (ts_tbs s ! j))
     \<and> (\<forall>j. live s' j \<longleftrightarrow> live s j \<and> j \<notin> D)
     \<and> (\<forall>b xs. hash_list s b xs \<longrightarrow> hash_list s' b (filter (\<lambda>j. j \<notin> D) xs))
     \<and> (\<forall>p<CODE_REFCOUNT_PAGES. unat (ts_code_pages s' p) = unat (ts_code_pages s p) - card (D \<inter> on_page s p))"

lemma dropped_empty [simp]: "dropped {} s s"
  by (simp add: dropped_def)

lemma dropped_on_page:
  assumes "dropped D s s'"
  shows "on_page s' p = on_page s p - D"
  using assms by (auto simp: dropped_def on_page_def page_of_def live_def)

lemma dropped_trans:
  assumes "dropped D s s1" and "dropped E s1 s2"
  shows "dropped (D \<union> E) s s2"
proof -
  have E: "E \<inter> D = {}" "E \<subseteq> {i. live s i}"
    using assms by (auto simp: dropped_def)
  have "card ((D \<union> E) \<inter> on_page s p) = card (D \<inter> on_page s p) + card (E \<inter> on_page s1 p)" for p
  proof -
    have "(D \<union> E) \<inter> on_page s p = (D \<inter> on_page s p) \<union> (E \<inter> on_page s1 p)"
      using E dropped_on_page [OF assms(1)] by auto
    then show ?thesis
      using E by (simp add: card_Un_disjoint Int_commute disjoint_iff)
  qed
  moreover have "hash_list s2 b (filter (\<lambda>j. j \<notin> D \<union> E) xs)" if "hash_list s b xs" for b xs
  proof -
    have "hash_list s2 b (filter (\<lambda>j. j \<notin> E) (filter (\<lambda>j. j \<notin> D) xs))"
      using that assms unfolding dropped_def by blast
    then show ?thesis
      by (simp add: conj_commute)
  qed
  ultimately show ?thesis
    using assms E(2) by (simp add: dropped_def)
qed

lemma unat_saturating_sub1: "unat (saturating_sub1 v) = unat v - 1"
  by (cases "v = 0") (simp_all add: saturating_sub1_def unat_minus_one)

lemma detached_fields:
  assumes "detached i s cb s' cb'" and "i < length (ts_tbs s)" and "j < length (ts_tbs s)"
  shows "tb_pc (ts_tbs s' ! j) = tb_pc (ts_tbs s ! j)" "tb_flags (ts_tbs s' ! j) = tb_flags (ts_tbs s ! j)"
    "tb_phys_pc (ts_tbs s' ! j) = tb_phys_pc (ts_tbs s ! j)" "tb_gen (ts_tbs s' ! j) = tb_gen (ts_tbs s ! j)"
    "tb_invalid (ts_tbs s' ! j) = (tb_invalid (ts_tbs s ! j) \<or> j = i)"
    "tb_host_offset (ts_tbs s' ! j) = tb_host_offset (ts_tbs s ! j)"
    "tb_jmp_insn_offset (ts_tbs s' ! j) = tb_jmp_insn_offset (ts_tbs s ! j)"
    "tb_jmp_reset_offset (ts_tbs s' ! j) = tb_jmp_reset_offset (ts_tbs s ! j)"
    "tb_exit_target (ts_tbs s' ! j) = tb_exit_target (ts_tbs s ! j)"
  using same_blocks_fields [of "mark_invalid i (ts_tbs s)" "ts_tbs s'" j] assms
  by (simp_all add: detached_def mark_invalid_nth)

lemma detached_live:
  assumes "detached i s cb s' cb'" and "i < length (ts_tbs s)"
  shows "length (ts_tbs s') = length (ts_tbs s)" "live s' j \<longleftrightarrow> live s j \<and> j \<noteq> i"
proof -
  show len: "length (ts_tbs s') = length (ts_tbs s)"
    using assms(1) by (simp add: detached_def same_blocks_def)
  show "live s' j \<longleftrightarrow> live s j \<and> j \<noteq> i"
    using detached_fields [OF assms, of j] assms(1) by (auto simp: live_def tb_valid_def len detached_def)
qed

lemma detached_dest:
  assumes "detached i s cb s' cb'" and "j < length (ts_tbs s)" and "slot < 2"
  shows "dest (ts_tbs s') j slot =
    (if j = i \<or> (j, slot) \<in> set (tb_jmp_list (ts_tbs s ! i)) then None else dest (ts_tbs s) j slot)"
  using assms unfolding detached_def by blast

lemma detached_chained:
  assumes d: "detached i s cb s' cb'" and i: "i < length (ts_tbs s)" and ok: "edges_ok (ts_tbs s)" "chained_ok s"
  shows "chained_ok s'"
  unfolding chained_ok_def
proof (intro allI impI)
  fix j slot dst
  assume a: "live s' j \<and> slot < 2 \<and> dest (ts_tbs s') j slot = Some dst"
  then have j: "live s j" "j < length (ts_tbs s)"
    by (simp_all add: detached_live [OF d i]) (simp add: live_def)
  then have e: "dest (ts_tbs s) j slot = Some dst" "(j, slot) \<notin> set (tb_jmp_list (ts_tbs s ! i))"
    using a detached_dest [OF d, of j slot] by (auto split: if_splits)
  then have "(j, slot) \<in> set (tb_jmp_list (ts_tbs s ! dst))"
    using ok(1) a j by (auto simp: edges_ok_def)
  then have "dst \<noteq> i"
    using e by auto
  moreover have "live s dst"
    using ok(2) a j e unfolding chained_ok_def by blast
  ultimately show "live s' dst"
    by (simp add: detached_live [OF d i])
qed

lemma detached_jumps:
  assumes d: "detached i s cb s' cb'" and i: "i < length (ts_tbs s)" and ok: "edges_ok (ts_tbs s)" "jumps_ok (ts_tbs s) cb"
  shows "jumps_ok (ts_tbs s') cb'"
  unfolding jumps_ok_def detached_live(1) [OF d i]
proof (intro allI impI)
  note f = detached_fields [OF d i]
  fix j slot off
  assume j: "j < length (ts_tbs s)" and v: "\<not> tb_invalid (ts_tbs s' ! j)" and slot: "slot < 2"
    and "site (ts_tbs s') j slot = Some off"
  then have st: "site (ts_tbs s) j slot = Some off" and v': "\<not> tb_invalid (ts_tbs s ! j)" "j \<noteq> i"
    by (simp_all add: f)
  have "jump_target cb (unat off) = Some (case dest (ts_tbs s) j slot of
      None \<Rightarrow> uint (the (stub (ts_tbs s) j slot)) | Some dst \<Rightarrow> int (tb_host_offset (ts_tbs s ! dst)))"
    using ok(2) j v' slot st unfolding jumps_ok_def by blast
  moreover have "dst < length (ts_tbs s)" if "dest (ts_tbs s) j slot = Some dst" for dst
    using ok(1) j slot that by (simp add: edges_ok_def)
  moreover have "retargeted (set (tb_jmp_list (ts_tbs s ! i))) (ts_tbs s) cb cb'"
    using d by (simp add: detached_def)
  ultimately show "jump_target cb' (unat off) = Some (case dest (ts_tbs s') j slot of
      None \<Rightarrow> uint (the (stub (ts_tbs s') j slot)) | Some dst \<Rightarrow> int (tb_host_offset (ts_tbs s' ! dst)))"
    using retargetedD [OF _ j slot st] detached_dest [OF d j slot] v' f(6,8) j by (auto split: option.split)
qed

lemma detached_lists:
  assumes d: "detached i s cb s' cb'" and i: "i < length (ts_tbs s)" and ok: "lists_ok s"
  shows "lists_ok s'"
  unfolding lists_ok_def
proof (intro conjI allI impI)
  show "\<exists>xs. hash_list s' b xs" for b
    using d ok unfolding detached_def lists_ok_def by blast
  fix p
  assume p: "p < CODE_REFCOUNT_PAGES"
  then obtain xs where xs: "page_list s p xs" "on_page s p \<subseteq> set xs"
    using ok unfolding lists_ok_def by blast
  have "on_page s' p \<subseteq> set (filter (\<lambda>j. j \<noteq> i) xs)"
  proof
    fix j
    assume "j \<in> on_page s' p"
    then have "live s j" "j \<noteq> i" "page_of (ts_tbs s' ! j) = p"
      by (simp_all add: on_page_def detached_live [OF d i])
    moreover from this have "page_of (ts_tbs s ! j) = p"
      using detached_fields(3) [OF d i] by (simp add: live_def page_of_def)
    ultimately show "j \<in> set (filter (\<lambda>j. j \<noteq> i) xs)"
      using xs(2) by (auto simp: on_page_def)
  qed
  moreover have "page_list s' p (filter (\<lambda>j. j \<noteq> i) xs)"
    using d p xs(1) by (simp add: detached_def)
  ultimately show "\<exists>xs. page_list s' p xs \<and> on_page s' p \<subseteq> set xs"
    by blast
qed

lemma invalidate_keeps_ok:
  assumes ok: "store_ok s cb" and i: "live s i"
  obtains s' cb' where "ts_invalidate s cb i = Some (s', cb')" "store_ok s' cb'" "dropped {i} s s'"
proof -
  have len: "i < length (ts_tbs s)"
    using i by (simp add: live_def)
  have hl: "\<forall>b. \<exists>xs. hash_list s b xs" and pl: "\<forall>p<CODE_REFCOUNT_PAGES. \<exists>xs. page_list s p xs"
    and edges: "edges_ok (ts_tbs s)" and sites: "sites_ok (ts_tbs s) cb"
    and rest: "lists_ok s" "chained_ok s" "jumps_ok (ts_tbs s) cb" "gens_ok s"
    using ok by (auto simp: store_ok_def lists_ok_def)
  obtain s' cb' where 1: "ts_invalidate s cb i = Some (s', cb')" "detached i s cb s' cb'"
    by (rule invalidate_detaches [OF hl pl edges sites len])
  note f = detached_fields [OF 1(2) len] and lv = detached_live [OF 1(2) len]
  have "sites_ok (ts_tbs s') cb'"
    using 1(2) by (intro sites_ok_same_code [OF sites]) (simp_all add: same_code_def lv f detached_def retargeted_def)
  moreover have "gens_ok s'"
    using rest(4) f(4) 1(2) unfolding gens_ok_def detached_def by (metis in_set_conv_nth lv(1))
  ultimately have "store_ok s' cb'"
    using 1(2) detached_chained [OF 1(2) len edges rest(2)] detached_jumps [OF 1(2) len edges rest(3)]
      detached_lists [OF 1(2) len rest(1)]
    by (simp add: store_ok_def detached_def)
  moreover have "unat (ts_code_pages s' p) = unat (ts_code_pages s p) - card ({i} \<inter> on_page s p)"
    if "p < CODE_REFCOUNT_PAGES" for p
    using i that 1(2)
    by (simp add: detached_def dec_code_page_def Let_def on_page_def page_of_def unat_saturating_sub1)
  then have "dropped {i} s s'"
    using i 1(2) f lv by (simp add: dropped_def detached_def)
  ultimately show ?thesis
    using that 1(1) by blast
qed

lemma invalidate_each_ok:
  assumes "store_ok s cb" and "distinct is" and "\<forall>i\<in>set is. live s i"
  shows "\<exists>s' cb'. invalidate_each s cb is = Some (s', cb') \<and> store_ok s' cb' \<and> dropped (set is) s s'"
  using assms
proof (induction "is" arbitrary: s cb)
  case (Cons i "is")
  obtain s1 cb1 where 1: "ts_invalidate s cb i = Some (s1, cb1)" "store_ok s1 cb1" "dropped {i} s s1"
    using invalidate_keeps_ok [OF Cons.prems(1), of i] Cons.prems(3) by auto
  have "\<forall>j\<in>set is. live s1 j"
    using Cons.prems 1(3) by (auto simp: dropped_def)
  then obtain s' cb' where 2: "invalidate_each s1 cb1 is = Some (s', cb')" "store_ok s' cb'" "dropped (set is) s1 s'"
    using Cons.IH [OF 1(2)] Cons.prems(2) by auto
  show ?case
    using 1(1) 2 dropped_trans [OF 1(3) 2(3)] by simp
qed simp

lemma invalidate_scan_ok:
  assumes "store_ok s cb" and "distinct is" and "\<forall>i\<in>set is. i < length (ts_tbs s)"
  shows "\<exists>s' cb'. invalidate_scan (ts_global_gen s) pg s cb is = Some (s', cb') \<and> store_ok s' cb'
    \<and> dropped (set is \<inter> on_page s (unat pg)) s s'"
  using assms
proof (induction "is" arbitrary: s cb)
  case (Cons i "is")
  have get: "ts_get s i = Some (ts_tbs s ! i)"
    using Cons.prems(3) by (simp add: ts_get_def)
  have cond: "tb_valid (ts_global_gen s) (ts_tbs s ! i) \<and> drop_bit 12 (tb_phys_pc (ts_tbs s ! i)) = pg
      \<longleftrightarrow> i \<in> on_page s (unat pg)"
    using Cons.prems(3) by (auto simp: on_page_def live_def page_of_def dest: unsigned_word_eqI)
  define D where "D = {i} \<inter> on_page s (unat pg)"
  obtain s1 cb1 where 1: "(if i \<in> on_page s (unat pg) then ts_invalidate s cb i else Some (s, cb)) = Some (s1, cb1)"
      "store_ok s1 cb1" "dropped D s s1"
  proof (cases "i \<in> on_page s (unat pg)")
    case True
    then show ?thesis
      using that invalidate_keeps_ok [OF Cons.prems(1), of i] by (auto simp: D_def on_page_def)
  next
    case False
    then show ?thesis
      using that [of s cb] Cons.prems(1) by (simp add: D_def)
  qed
  have s1: "ts_global_gen s1 = ts_global_gen s" "length (ts_tbs s1) = length (ts_tbs s)" "on_page s1 (unat pg) = on_page s (unat pg) - D"
    using 1(3) dropped_on_page [OF 1(3)] by (simp_all add: dropped_def)
  obtain s' cb' where 2: "invalidate_scan (ts_global_gen s1) pg s1 cb1 is = Some (s', cb')" "store_ok s' cb'"
      "dropped (set is \<inter> on_page s1 (unat pg)) s1 s'"
    using Cons.IH [OF 1(2)] Cons.prems(2,3) s1(2) by auto
  have "D \<union> (set is \<inter> on_page s1 (unat pg)) = set (i # is) \<inter> on_page s (unat pg)"
    using Cons.prems(2) by (auto simp: s1 D_def)
  then have "dropped (set (i # is) \<inter> on_page s (unat pg)) s s'"
    using dropped_trans [OF 1(3) 2(3)] by simp
  then show ?case
    using 1(1) 2(1,2) get cond by (simp add: s1)
qed simp

lemma invalidate_phys_page_ok:
  assumes ok: "store_ok s cb" and pg: "unat pg < CODE_REFCOUNT_PAGES"
  obtains s' cb' where "invalidate_phys_page s cb pg = Some (s', cb')" "store_ok s' cb'"
    "dropped (on_page s (unat pg)) s s'"
proof -
  let ?p = "unat pg"
  obtain xs where xs: "page_list s ?p xs" "on_page s ?p \<subseteq> set xs"
    using ok pg unfolding store_ok_def lists_ok_def by blast
  let ?l = "filter (\<lambda>i. tb_valid (ts_global_gen s) (ts_tbs s ! i)) xs"
  have w: "page_walk (ts_tbs s) (ts_global_gen s) (ts_page_heads s ?p) = Some ?l"
    using xs(1) by (intro page_walk_chain) (auto simp: page_list_def)
  have l: "set ?l = on_page s ?p" "distinct ?l"
    using xs page_list_distinct by (auto simp: page_list_def on_page_def live_def)
  show ?thesis
  proof (cases "?l = []")
    case False
    obtain s' cb' where "invalidate_each s cb ?l = Some (s', cb')" "store_ok s' cb'" "dropped (set ?l) s s'"
      using invalidate_each_ok [OF ok l(2)] l(1) by (auto simp: on_page_def)
    then show ?thesis
      using that w False l(1) pg by (simp add: invalidate_phys_page_def)
  next
    case True
    then have none: "on_page s ?p = {}"
      using l(1) by simp
    obtain s' cb' where 1: "invalidate_scan (ts_global_gen s) pg s cb [0..<length (ts_tbs s)] = Some (s', cb')"
        "store_ok s' cb'" "dropped {} s s'"
      using invalidate_scan_ok [OF ok, of "[0..<length (ts_tbs s)]" pg] none by auto
    show ?thesis
    proof (cases "is_code_page s pg")
      case True
      then show ?thesis
        using that 1 w \<open>?l = []\<close> none pg by (simp add: invalidate_phys_page_def)
    next
      case False
      then show ?thesis
        using that [of s cb] ok w \<open>?l = []\<close> none pg by (simp add: invalidate_phys_page_def)
    qed
  qed
qed

lemma counts_ok_dropped_page:
  assumes "counts_ok s" and "dropped (on_page s p) s s'" and "p < CODE_REFCOUNT_PAGES"
  shows "counts_ok s'"
  unfolding counts_ok_def
proof (intro allI impI)
  fix q
  assume q: "q < CODE_REFCOUNT_PAGES"
  have c: "unat (ts_code_pages s' q) = unat (ts_code_pages s q) - card (on_page s p \<inter> on_page s q)"
    and o: "on_page s' q = on_page s q - on_page s p"
    using assms(2) q dropped_on_page [OF assms(2)] by (simp_all add: dropped_def)
  have s: "unat (ts_code_pages s q) = min 255 (card (on_page s q))"
    using assms(1) q by (simp add: counts_ok_def)
  show "unat (ts_code_pages s' q) = min 255 (card (on_page s' q))"
  proof (cases "q = p")
    case True
    then show ?thesis
      using c o s by simp
  next
    case False
    then have "on_page s p \<inter> on_page s q = {}"
      by (auto simp: on_page_def)
    then have "on_page s' q = on_page s q" "card (on_page s p \<inter> on_page s q) = 0"
      using o by auto
    then show ?thesis
      using c s by simp
  qed
qed

lemma invalidate_all_ok:
  assumes ok: "store_ok s cb" and g: "ts_global_gen s \<noteq> - 1"
  shows "store_ok (invalidate_all s) cb" "counts_ok (invalidate_all s)" "\<not> live (invalidate_all s) i"
proof -
  note succ = gen_succ [OF g]
  have s': "invalidate_all s = s\<lparr>ts_global_gen := ts_global_gen s + 1, ts_code_pages := (\<lambda>_. 0)\<rparr>"
    using succ(1) by (simp add: invalidate_all_def Let_def)
  show dead: "\<not> live (invalidate_all s) i" for i
  proof
    assume "live (invalidate_all s) i"
    then have "tb_gen (ts_tbs s ! i) = ts_global_gen s + 1" "i < length (ts_tbs s)"
      by (simp_all add: s' live_def tb_valid_def)
    moreover have "tb_gen (ts_tbs s ! i) \<le> ts_global_gen s"
      using ok \<open>i < length (ts_tbs s)\<close> by (simp add: store_ok_def gens_ok_def)
    ultimately show False
      using succ(3) by force
  qed
  then have none: "on_page (invalidate_all s) p = {}" for p
    by (auto simp: on_page_def)
  then show "counts_ok (invalidate_all s)"
    by (simp add: counts_ok_def s')
  have "hash_list (invalidate_all s) b xs = hash_list s b xs" "page_list (invalidate_all s) p xs = page_list s p xs" for b p xs
    by (simp_all add: s' hash_list_def page_list_def)
  then have "lists_ok (invalidate_all s)"
    using ok none unfolding store_ok_def lists_ok_def by simp blast
  moreover have "gens_ok (invalidate_all s)"
    using ok succ(1,3) by (auto simp: store_ok_def gens_ok_def s' intro: less_imp_le)
  moreover have "chained_ok (invalidate_all s)"
    using dead by (auto simp: chained_ok_def)
  ultimately show "store_ok (invalidate_all s) cb"
    using ok by (simp add: store_ok_def s')
qed

end
