(* ===== verification/Tb_Exec.thy ===== *)
theory Tb_Exec
  imports Tb_Invariant
begin

text \<open>
  Finding, generating and chaining blocks (\<open>accel/src/exec/exec_loop.rs\<close>, \<open>accel/src/exec/mod.rs\<close>).
  The state joins what the virtual CPUs share (store, code buffer, lock of the atomic blocks) with
  what a virtual CPU owns (jump cache, statistics). The guest CPU appears through the operations of
  its trait that these functions call; the front end that turns guest code into IR and the back
  end that emits it are operations too, with what the code relies on stated as the contract of a
  translator. \<open>None\<close> stands for a panic or an endless walk, as in the store.
\<close>

section \<open>State\<close>

record exec_stats =
  loop_iters :: u64
  jc_hit :: u64
  ht_hit :: u64
  st_translate :: u64
  chain_exit :: "u64 list"
  nochain_exit :: u64
  real_exit :: u64
  chain_patched :: u64
  chain_already :: u64
  hint_used :: u64

definition stats_default :: exec_stats where
  "stats_default = \<lparr>loop_iters = 0, jc_hit = 0, ht_hit = 0, st_translate = 0, chain_exit = [0, 0], nochain_exit = 0,
     real_exit = 0, chain_patched = 0, chain_already = 0, hint_used = 0\<rparr>"

record exec_state =
  es_store :: tb_store
  es_cb :: code_buffer
  es_atomic_locked :: bool
  es_jc :: jump_cache
  es_stats :: exec_stats
  es_atomic_lock_held :: bool

definition MIN_CODE_BUF_REMAINING :: nat where "MIN_CODE_BUF_REMAINING = 4096"

definition es_new :: "code_buffer \<Rightarrow> exec_state" where
  "es_new cb = \<lparr>es_store = ts_new, es_cb = cb, es_atomic_locked = False, es_jc = jc_new,
     es_stats = stats_default, es_atomic_lock_held = False\<rparr>"

section \<open>Chaining\<close>

definition tb_add_jump :: "exec_state \<Rightarrow> nat \<Rightarrow> nat \<Rightarrow> nat \<Rightarrow> exec_state option" where
  "tb_add_jump st src slot dst = do {
     src_tb \<leftarrow> ts_get (es_store st) src;
     case tb_jmp_insn_offset src_tb ! slot of
       None \<Rightarrow> Some st
     | Some jmp_off \<Rightarrow> do {
         dst_tb \<leftarrow> ts_get (es_store st) dst;
         if tb_invalid dst_tb \<or> tb_gen dst_tb \<noteq> ts_global_gen (es_store st) then Some st
         else if tb_jmp_dest src_tb ! slot = Some dst
         then Some (st\<lparr>es_stats := (es_stats st)\<lparr>chain_already := chain_already (es_stats st) + 1\<rparr>\<rparr>)
         else do {
           cb \<leftarrow> patch_jump (es_cb st) (unat jmp_off) (tb_host_offset dst_tb);
           let tbs1 = upd_tb (\<lambda>t. t\<lparr>tb_jmp_dest := (tb_jmp_dest t)[slot := Some dst]\<rparr>) src (ts_tbs (es_store st));
           let tbs2 = upd_tb (\<lambda>t. t\<lparr>tb_jmp_list := tb_jmp_list t @ [(src, slot)]\<rparr>) dst tbs1;
           Some (st\<lparr>es_store := (es_store st)\<lparr>ts_tbs := tbs2\<rparr>, es_cb := cb,
             es_stats := (es_stats st)\<lparr>chain_patched := chain_patched (es_stats st) + 1\<rparr>\<rparr>)
         }
       }
   }"

section \<open>Generating a block\<close>

text \<open>
  The operations of the guest CPU. \<open>gc_gen_code\<close> gets the index of the block, the pc and the
  largest number of instructions, and returns the size of the guest code with the IR.
\<close>

record ('c, 'ir) guest_ops =
  gc_translate_pc :: "'c \<Rightarrow> u64 \<Rightarrow> u64"
  gc_gen_code :: "'c \<Rightarrow> u32 \<Rightarrow> u64 \<Rightarrow> u32 \<Rightarrow> u32 \<times> 'ir \<times> 'c"
  gc_last_phys_pc :: "'c \<Rightarrow> u64"

text \<open>
  The IR context and the back end: the number of instructions and the flags of a context, and the
  emission of its host code. The emission returns the offset of the code with the jumps of the
  exit slots and the new buffer, or the buffer at the point where it ran over the high-water mark.
\<close>

record 'ir host_ops =
  ho_insn_starts :: "'ir \<Rightarrow> nat"
  ho_instret_discarded :: "'ir \<Rightarrow> u16"
  ho_contains_atomic :: "'ir \<Rightarrow> bool"
  ho_translate :: "'ir \<Rightarrow> code_buffer \<Rightarrow> code_buffer + nat \<times> (nat \<times> nat) option list \<times> code_buffer"

definition count_guest_insns :: "nat \<Rightarrow> u16" where
  "count_guest_insns count = max (if count < 2 ^ 16 then of_nat count else - 1) 1"

fun set_jmp_offsets :: "translation_block \<Rightarrow> (nat \<times> (nat \<times> nat) option) list \<Rightarrow> translation_block option" where
  "set_jmp_offsets tb [] = Some tb"
| "set_jmp_offsets tb ((i, None) # os) = set_jmp_offsets tb os"
| "set_jmp_offsets tb ((i, Some (jmp, reset)) # os) = do {
     tb1 \<leftarrow> set_jmp_insn_offset tb i (of_nat jmp);
     tb2 \<leftarrow> set_jmp_reset_offset tb1 i (of_nat reset);
     set_jmp_offsets tb2 os
   }"

datatype gen_result = Overflow | NoBlock | Block nat

text \<open>The part of the translation that the long jump of an overflow leaves.\<close>

definition gen_attempt :: "('c, 'ir) guest_ops \<Rightarrow> 'ir host_ops \<Rightarrow> exec_state \<Rightarrow> 'c \<Rightarrow> u64 \<Rightarrow> u32 \<Rightarrow> u32 \<Rightarrow> u32 \<Rightarrow>
    (gen_result \<times> exec_state \<times> 'c) option" where
  "gen_attempt go ho st c p f cf cur_max =
     (case ts_alloc (es_store st) p f cf of
        None \<Rightarrow> Some (NoBlock, st, c)
      | Some (tb_idx, s1) \<Rightarrow>
          let (guest_size, ir, c1) = gc_gen_code go c (of_nat tb_idx) p cur_max
          in if guest_size = 0 then do {
               s2 \<leftarrow> get_mut (\<lambda>t. t\<lparr>tb_invalid := True\<rparr>) tb_idx s1;
               Some (NoBlock, st\<lparr>es_store := s2\<rparr>, c1)
             } else do {
               let phys_pc = gc_last_phys_pc go c1;
               s2 \<leftarrow> get_mut (\<lambda>t. t\<lparr>tb_size := guest_size, tb_icount := count_guest_insns (ho_insn_starts ho ir),
                   tb_instret_discarded := ho_instret_discarded ho ir, tb_phys_pc := phys_pc,
                   tb_gen := ts_global_gen s1\<rparr>) tb_idx s1;
               s3 \<leftarrow> mark_code_page s2 (drop_bit 12 phys_pc) tb_idx;
               case ho_translate ho ir ((es_cb st)\<lparr>cb_jmp_trans := True\<rparr>) of
                 Inl cb1 \<Rightarrow> Some (Overflow, st\<lparr>es_store := s3, es_cb := cb1\<rparr>, c1)
               | Inr (host_offset, offsets, cb1) \<Rightarrow> do {
                   let cb2 = cb1\<lparr>cb_jmp_trans := False\<rparr>;
                   s4 \<leftarrow> get_mut (\<lambda>t. t\<lparr>tb_host_offset := host_offset, tb_host_size := cb_offset cb2 - host_offset,
                       tb_contains_atomic := ho_contains_atomic ho ir\<rparr>) tb_idx s3;
                   tb \<leftarrow> set_jmp_offsets (ts_tbs s4 ! tb_idx) (List.enumerate 0 offsets);
                   s5 \<leftarrow> get_mut (\<lambda>_. tb) tb_idx s4;
                   if cf \<noteq> 0
                   then Some (Block tb_idx, st\<lparr>es_store := s5, es_cb := cb2,
                          es_stats := (es_stats st)\<lparr>st_translate := st_translate (es_stats st) + 1\<rparr>\<rparr>, c1)
                   else do {
                     s6 \<leftarrow> ts_insert s5 tb_idx;
                     Some (Block tb_idx, st\<lparr>es_store := s6, es_cb := cb2, es_jc := jc_insert (es_jc st) p tb_idx\<rparr>, c1)
                   }
                 }
             })"

text \<open>The retries after an overflow, each with half the instructions.\<close>

partial_function (option) gen_loop :: "('c, 'ir) guest_ops \<Rightarrow> 'ir host_ops \<Rightarrow> u64 \<Rightarrow> u32 \<Rightarrow> u32 \<Rightarrow> u32 \<Rightarrow> nat \<Rightarrow>
    u32 \<Rightarrow> exec_state \<Rightarrow> 'c \<Rightarrow> (nat option \<times> exec_state \<times> 'c) option" where
  "gen_loop go ho p f cf orig_max saved_offset cur_max st c = do {
     (r, st1, c1) \<leftarrow> gen_attempt go ho st c p f cf cur_max;
     case r of
       Block tb_idx \<Rightarrow> Some (Some tb_idx, st1, c1)
     | NoBlock \<Rightarrow> Some (None, st1, c1)
     | Overflow \<Rightarrow> do {
         cb \<leftarrow> set_offset ((es_cb st1)\<lparr>cb_jmp_trans := False\<rparr>) saved_offset;
         let st2 = st1\<lparr>es_cb := cb\<rparr>;
         let next_max = max (cur_max div 2) 1;
         let give_up = (if cf \<noteq> 0 then next_max = 1 \<and> orig_max = 1 else next_max = 1);
         if give_up then Some (None, st2, c1)
         else gen_loop go ho p f cf orig_max saved_offset next_max st2 c1
       }
   }"

definition tb_gen_code :: "('c, 'ir) guest_ops \<Rightarrow> 'ir host_ops \<Rightarrow> exec_state \<Rightarrow> 'c \<Rightarrow> u64 \<Rightarrow> u32 \<Rightarrow> u32 \<Rightarrow>
    (nat option \<times> exec_state \<times> 'c) option" where
  "tb_gen_code go ho st c p f cf =
     (if remaining (es_cb st) < MIN_CODE_BUF_REMAINING then Some (None, st, c)
      else do {
        known \<leftarrow> (if cf \<noteq> 0 then Some None else ts_lookup (es_store st) p f);
        let usable = (case known of
            None \<Rightarrow> None
          | Some idx \<Rightarrow>
              let cur_phys = gc_translate_pc go c p
              in if cur_phys \<noteq> - 1 \<and> tb_phys_pc (ts_tbs (es_store st) ! idx) = cur_phys then Some idx else None);
        case usable of
          Some idx \<Rightarrow> Some (Some idx, st\<lparr>es_jc := jc_insert (es_jc st) p idx\<rparr>, c)
        | None \<Rightarrow> gen_loop go ho p f cf (max_insns cf) (cb_offset (es_cb st)) (max_insns cf) st c
      })"

section \<open>Finding a block\<close>

definition tb_matches :: "tb_store \<Rightarrow> translation_block \<Rightarrow> u64 \<Rightarrow> u32 \<Rightarrow> bool" where
  "tb_matches s tb p f \<longleftrightarrow> \<not> tb_invalid tb \<and> tb_gen tb = ts_global_gen s \<and> tb_pc tb = p \<and> tb_flags tb = f"

definition tb_find :: "('c, 'ir) guest_ops \<Rightarrow> 'ir host_ops \<Rightarrow> exec_state \<Rightarrow> 'c \<Rightarrow> u64 \<Rightarrow> u32 \<Rightarrow>
    (nat option \<times> exec_state \<times> 'c) option" where
  "tb_find go ho st c p f =
     (let cur_phys = gc_translate_pc go c p;
          count_translate = (\<lambda>st. st\<lparr>es_stats := (es_stats st)\<lparr>st_translate := st_translate (es_stats st) + 1\<rparr>\<rparr>)
      in if cur_phys = - 1 then tb_gen_code go ho (count_translate st) c p f 0
         else do {
           cached \<leftarrow> (case jc_lookup (es_jc st) p of
               None \<Rightarrow> Some None
             | Some idx \<Rightarrow> do {
                 tb \<leftarrow> ts_get (es_store st) idx;
                 Some (if tb_matches (es_store st) tb p f \<and> tb_phys_pc tb = cur_phys then Some idx else None)
               });
           case cached of
             Some idx \<Rightarrow> Some (Some idx, st\<lparr>es_stats := (es_stats st)\<lparr>jc_hit := jc_hit (es_stats st) + 1\<rparr>\<rparr>, c)
           | None \<Rightarrow> do {
               known \<leftarrow> ts_lookup (es_store st) p f;
               let usable = (case known of
                   None \<Rightarrow> None
                 | Some idx \<Rightarrow> if tb_phys_pc (ts_tbs (es_store st) ! idx) = cur_phys then Some idx else None);
               case usable of
                 Some idx \<Rightarrow> Some (Some idx, st\<lparr>es_jc := jc_insert (es_jc st) p idx,
                     es_stats := (es_stats st)\<lparr>ht_hit := ht_hit (es_stats st) + 1\<rparr>\<rparr>, c)
               | None \<Rightarrow> tb_gen_code go ho (count_translate st) c p f 0
             }
         })"

section \<open>Flushing\<close>

text \<open>A pending flush of all blocks, with the hint for the next block.\<close>

definition flush_all :: "exec_state \<Rightarrow> exec_state" where
  "flush_all st = st\<lparr>es_store := invalidate_all (es_store st), es_jc := jc_invalidate (es_jc st)\<rparr>"

definition flush_pending_tbs :: "bool \<Rightarrow> exec_state \<Rightarrow> nat option \<Rightarrow> bool \<times> exec_state \<times> nat option" where
  "flush_pending_tbs pending st hint = (if pending then (True, flush_all st, None) else (False, st, hint))"

text \<open>The blocks on dirty pages: all of them for \<open>fence.i\<close>, those on code pages after a block.\<close>

fun invalidate_pages :: "(tb_store \<Rightarrow> u64 \<Rightarrow> bool) \<Rightarrow> exec_state \<Rightarrow> u64 list \<Rightarrow> exec_state option" where
  "invalidate_pages sel st [] = Some st"
| "invalidate_pages sel st (pg # pgs) =
     (if sel (es_store st) pg then do {
        (s, cb) \<leftarrow> invalidate_phys_page (es_store st) (es_cb st) pg;
        invalidate_pages sel (st\<lparr>es_store := s, es_cb := cb\<rparr>) pgs
      } else invalidate_pages sel st pgs)"

definition flush_written_code :: "exec_state \<Rightarrow> u64 list \<Rightarrow> nat option \<Rightarrow> (exec_state \<times> nat option) option" where
  "flush_written_code st dirty' hint =
     (if dirty' = [] then Some (st, hint)
      else do {
        st1 \<leftarrow> invalidate_pages is_code_page st dirty';
        Some (st1\<lparr>es_jc := jc_invalidate (es_jc st1)\<rparr>, None)
      })"

definition flush_dirty_tb_pages :: "exec_state \<Rightarrow> u64 list \<Rightarrow> exec_state option" where
  "flush_dirty_tb_pages st dirty' = do {
     st1 \<leftarrow> (if dirty' = [] then Some (st\<lparr>es_store := invalidate_all (es_store st)\<rparr>)
             else invalidate_pages (\<lambda>_ _. True) st dirty');
     Some (st1\<lparr>es_jc := jc_invalidate (es_jc st1)\<rparr>)
   }"

end
