(* ===== verification/Exec_Loop.thy ===== *)
theory Exec_Loop
  imports Tb_Exec
begin

text \<open>
  The dispatch loop of a virtual CPU (\<open>cpu_exec_loop\<close> in \<open>accel/src/exec/exec_loop.rs\<close>) and the
  architecture-specific exits of a RISC-V guest (\<open>accel/src/exec/arch_exit.rs\<close>). The guest CPU is
  the trait \<open>GuestCpu\<close> of \<open>core/src/cpu.rs\<close>: a record of operations on an abstract CPU state. The run of
  host code is a parameter that returns the exit value of the last block, or nothing when a helper
  left the block by the long jump. The loop is one function per part of an iteration, in the order
  of the code; \<open>None\<close> is a panic or a spin that never ends.
\<close>

section \<open>The guest CPU\<close>

datatype arch_exit_action =
    ActContinue
  | ActHalted
  | ActEcall u8
  | ActExit u64
  | FlushAllTb
  | FlushDirtyTbPages "u64 list"
  | FlushPendingTb
  | FlushPendingTbInstretDiscarded
  | FlushPendingTbNonRetired u16

record ('c, 'ir) guest_cpu =
  gp_ops :: "('c, 'ir) guest_ops"
  gp_get_pc :: "'c \<Rightarrow> u64"
  gp_get_flags :: "'c \<Rightarrow> u32"
  gp_pending_interrupt :: "'c \<Rightarrow> bool"
  gp_has_pending_irq :: "'c \<Rightarrow> bool"
  gp_handle_interrupt :: "'c \<Rightarrow> 'c"
  gp_handle_exception :: "'c \<Rightarrow> u64 \<Rightarrow> u64 \<Rightarrow> 'c"
  gp_handle_arch_exit :: "'c \<Rightarrow> u64 \<Rightarrow> arch_exit_action \<times> 'c"
  gp_set_exit_request :: "'c \<Rightarrow> 'c"
  gp_reset_exit_request :: "'c \<Rightarrow> 'c"
  gp_should_exit :: "'c \<Rightarrow> bool \<times> 'c"
  gp_check_monitor_pause :: "'c \<Rightarrow> bool \<times> 'c"
  gp_check_mem_fault :: "'c \<Rightarrow> bool \<times> 'c"
  gp_tb_exit_nonretired_insns :: "'c \<Rightarrow> u64 \<Rightarrow> u16"
  gp_on_tb_executed :: "'c \<Rightarrow> u32 \<Rightarrow> u16 \<Rightarrow> 'c"
  gp_take_tb_flush_pending :: "'c \<Rightarrow> bool \<times> 'c"
  gp_take_dirty_pages :: "'c \<Rightarrow> u64 list \<times> 'c"
  gp_gdb_single_step :: "'c \<Rightarrow> bool"
  gp_gdb_complete_step :: "'c \<Rightarrow> 'c"
  gp_gdb_check_breakpoint :: "'c \<Rightarrow> u64 \<Rightarrow> bool \<times> 'c"
  gp_gdb_breakpoint_in_tb :: "'c \<Rightarrow> u64 \<Rightarrow> u64 \<Rightarrow> bool"

type_synonym 'c host_code = "exec_state \<Rightarrow> 'c \<Rightarrow> nat \<Rightarrow> u64 option \<times> 'c"

section \<open>State and control flow of the loop\<close>

datatype exit_reason = ExitCode u64 | Ecall u8 | Halted | BufferFull

record 'c loop_state =
  ls_exec :: exec_state
  ls_cpu :: 'c
  ls_hint :: "nat option"

text \<open>
  How a part of an iteration ends: it goes on with a value, the loop continues, a helper has left
  by the long jump, or the loop returns.
\<close>

datatype ('a, 'c) flow = Go 'a "'c loop_state" | Again "'c loop_state" | Jumped "'c loop_state" | Done exit_reason "'c loop_state"

fun flow_bind :: "('a, 'c) flow option \<Rightarrow> ('a \<Rightarrow> 'c loop_state \<Rightarrow> ('b, 'c) flow option) \<Rightarrow> ('b, 'c) flow option" where
  "flow_bind None k = None"
| "flow_bind (Some (Go x ls)) k = k x ls"
| "flow_bind (Some (Again ls)) k = Some (Again ls)"
| "flow_bind (Some (Jumped ls)) k = Some (Jumped ls)"
| "flow_bind (Some (Done r ls)) k = Some (Done r ls)"

definition count_stat :: "(exec_stats \<Rightarrow> exec_stats) \<Rightarrow> 'c loop_state \<Rightarrow> 'c loop_state" where
  "count_stat f ls = ls\<lparr>ls_exec := (ls_exec ls)\<lparr>es_stats := f (es_stats (ls_exec ls))\<rparr>\<rparr>"

section \<open>The start of an iteration\<close>

text \<open>The return of the long jump: an atomic block that was left still holds the lock.\<close>

definition recover :: "'c loop_state \<Rightarrow> 'c loop_state" where
  "recover ls =
     (if es_atomic_lock_held (ls_exec ls)
      then ls\<lparr>ls_exec := (ls_exec ls)\<lparr>es_atomic_lock_held := False, es_atomic_locked := False\<rparr>, ls_hint := None\<rparr>
      else ls\<lparr>ls_hint := None\<rparr>)"

definition deliver_interrupts :: "('c, 'ir) guest_cpu \<Rightarrow> bool \<Rightarrow> 'c loop_state \<Rightarrow> 'c loop_state" where
  "deliver_interrupts gp stepping ls =
     (let c = ls_cpu ls
      in if \<not> stepping \<and> gp_pending_interrupt gp c
         then ls\<lparr>ls_cpu := gp_handle_interrupt gp (gp_reset_exit_request gp c), ls_hint := None\<rparr>
         else if \<not> stepping \<and> gp_has_pending_irq gp c then ls\<lparr>ls_cpu := gp_set_exit_request gp c\<rparr>
         else ls\<lparr>ls_cpu := gp_reset_exit_request gp c\<rparr>)"

section \<open>Selecting a block\<close>

text \<open>A request that found no block: a fault of the fetch is delivered, or the buffer is full.\<close>

definition or_fault :: "('c, 'ir) guest_cpu \<Rightarrow> 'c loop_state \<Rightarrow> (nat option \<times> exec_state \<times> 'c) option \<Rightarrow> (nat, 'c) flow option" where
  "or_fault gp ls res = do {
     (r, st, c) \<leftarrow> res;
     case r of
       Some idx \<Rightarrow> Some (Go idx (ls\<lparr>ls_exec := st, ls_cpu := c\<rparr>))
     | None \<Rightarrow>
         let (fault, c1) = gp_check_mem_fault gp c; ls1 = ls\<lparr>ls_exec := st, ls_cpu := c1\<rparr>
         in Some (if fault then Again ls1 else Done BufferFull ls1)
   }"

definition find_tb :: "('c, 'ir) guest_cpu \<Rightarrow> 'ir host_ops \<Rightarrow> 'c loop_state \<Rightarrow> u64 \<Rightarrow> u32 \<Rightarrow> (nat, 'c) flow option" where
  "find_tb gp ho ls p f = or_fault gp ls (tb_find (gp_ops gp) ho (ls_exec ls) (ls_cpu ls) p f)"

definition single_step_tb :: "('c, 'ir) guest_cpu \<Rightarrow> 'ir host_ops \<Rightarrow> 'c loop_state \<Rightarrow> u64 \<Rightarrow> u32 \<Rightarrow> (nat, 'c) flow option" where
  "single_step_tb gp ho ls p f =
     or_fault gp ls (tb_gen_code (gp_ops gp) ho (ls_exec ls) (ls_cpu ls) p f (CF_SINGLE_STEP OR 1))"

definition select_tb :: "('c, 'ir) guest_cpu \<Rightarrow> 'ir host_ops \<Rightarrow> bool \<Rightarrow> 'c loop_state \<Rightarrow> (nat, 'c) flow option" where
  "select_tb gp ho stepping ls =
     (let p = gp_get_pc gp (ls_cpu ls); f = gp_get_flags gp (ls_cpu ls)
      in if stepping then single_step_tb gp ho ls p f
         else flow_bind
           (case ls_hint ls of
              Some idx \<Rightarrow> Some (Go idx (count_stat (\<lambda>s. s\<lparr>hint_used := hint_used s + 1\<rparr>) (ls\<lparr>ls_hint := None\<rparr>)))
            | None \<Rightarrow> find_tb gp ho ls p f)
           (\<lambda>idx ls. do {
              tb \<leftarrow> ts_get (es_store (ls_exec ls)) idx;
              if gp_gdb_breakpoint_in_tb gp (ls_cpu ls) (tb_pc tb) (ucast (tb_size tb))
              then single_step_tb gp ho ls p f
              else Some (Go idx ls)
            }))"

text \<open>A breakpoint at the pc parks the CPU instead of running the block.\<close>

definition pause :: "('c, 'ir) guest_cpu \<Rightarrow> 'c loop_state \<Rightarrow> ('a, 'c) flow" where
  "pause gp ls =
     (let (quit, c) = gp_check_monitor_pause gp (ls_cpu ls); ls1 = ls\<lparr>ls_cpu := c\<rparr>
      in if quit then Done Halted ls1 else Again ls1)"

definition breakpoint_gate :: "('c, 'ir) guest_cpu \<Rightarrow> bool \<Rightarrow> nat \<Rightarrow> 'c loop_state \<Rightarrow> (nat, 'c) flow option" where
  "breakpoint_gate gp stepping idx ls =
     (if stepping then Some (Go idx ls)
      else let (hit, c) = gp_gdb_check_breakpoint gp (ls_cpu ls) (gp_get_pc gp (ls_cpu ls)); ls1 = ls\<lparr>ls_cpu := c\<rparr>
           in if hit then Some (pause gp ls1) else Some (Go idx ls1))"

section \<open>Running a block\<close>

text \<open>
  A block with an atomic instruction runs under the lock. Taking a lock that is held spins.
\<close>

definition run_tb :: "'c host_code \<Rightarrow> nat \<Rightarrow> 'c loop_state \<Rightarrow> (u64, 'c) flow option" where
  "run_tb run idx ls = do {
     tb \<leftarrow> ts_get (es_store (ls_exec ls)) idx;
     if tb_contains_atomic tb then
       if es_atomic_locked (ls_exec ls) then None
       else
         let st1 = (ls_exec ls)\<lparr>es_atomic_locked := True, es_atomic_lock_held := True\<rparr>
         in case run st1 (ls_cpu ls) idx of
              (None, c) \<Rightarrow> Some (Jumped (ls\<lparr>ls_exec := st1, ls_cpu := c\<rparr>))
            | (Some raw, c) \<Rightarrow>
                Some (Go raw (ls\<lparr>ls_exec := st1\<lparr>es_atomic_lock_held := False, es_atomic_locked := False\<rparr>, ls_cpu := c\<rparr>))
     else
       case run (ls_exec ls) (ls_cpu ls) idx of
         (None, c) \<Rightarrow> Some (Jumped (ls\<lparr>ls_cpu := c\<rparr>))
       | (Some raw, c) \<Rightarrow> Some (Go raw (ls\<lparr>ls_cpu := c\<rparr>))
   }"

definition saturating_sub16 :: "u16 \<Rightarrow> u16 \<Rightarrow> u16" where
  "saturating_sub16 a b = (if b \<le> a then a - b else 0)"

text \<open>
  The accounting after a block, with the block that exited, its exit code and what is left to
  account for after a CSR exit.
\<close>

definition account :: "('c, 'ir) guest_cpu \<Rightarrow> nat \<Rightarrow> u64 \<Rightarrow> 'c loop_state \<Rightarrow> (nat \<times> u64 \<times> u16, 'c) flow option" where
  "account gp tb_idx raw ls =
     (let (last_tb, exit_code) = decode_tb_exit raw;
          src_tb = (case last_tb of Some i \<Rightarrow> i | None \<Rightarrow> tb_idx)
      in do {
        tb \<leftarrow> ts_get (es_store (ls_exec ls)) src_tb;
        let nonretired = gp_tb_exit_nonretired_insns gp (ls_cpu ls) exit_code;
        let retired = saturating_sub16 (saturating_sub16 (tb_icount tb) (tb_instret_discarded tb)) nonretired;
        Some (Go (src_tb, exit_code, retired)
          (if exit_code = EXCP_RISCV_PRIV_CSR then ls
           else ls\<lparr>ls_cpu := gp_on_tb_executed gp (ls_cpu ls) (tb_size tb) retired\<rparr>))
      })"

text \<open>The blocks on pages that were written.\<close>

definition flush_written :: "('c, 'ir) guest_cpu \<Rightarrow> 'c loop_state \<Rightarrow> (unit, 'c) flow option" where
  "flush_written gp ls =
     (let (dirty', c) = gp_take_dirty_pages gp (ls_cpu ls)
      in do {
        (st, hint) \<leftarrow> flush_written_code (ls_exec ls) dirty' (ls_hint ls);
        Some (Go () \<lparr>ls_exec = st, ls_cpu = c, ls_hint = hint\<rparr>)
      })"

section \<open>The exits of a block\<close>

text \<open>What both chained and indirect exits do first.\<close>

definition faults_and_flushes :: "('c, 'ir) guest_cpu \<Rightarrow> 'c loop_state \<Rightarrow> (unit, 'c) flow option" where
  "faults_and_flushes gp ls =
     (let (fault, c1) = gp_check_mem_fault gp (ls_cpu ls)
      in if fault then Some (Again (ls\<lparr>ls_cpu := c1\<rparr>))
         else let (pending, c2) = gp_take_tb_flush_pending gp c1;
                  (did_flush, st, hint) = flush_pending_tbs pending (ls_exec ls) (ls_hint ls);
                  ls1 = \<lparr>ls_exec = st, ls_cpu = c2, ls_hint = hint\<rparr>
              in Some (if did_flush then Again ls1 else Go () ls1))"

definition chain_slot :: "('c, 'ir) guest_cpu \<Rightarrow> 'ir host_ops \<Rightarrow> nat \<Rightarrow> nat \<Rightarrow> 'c loop_state \<Rightarrow> (unit, 'c) flow option" where
  "chain_slot gp ho src_tb slot ls =
     flow_bind (faults_and_flushes gp
         (count_stat (\<lambda>s. s\<lparr>chain_exit := (chain_exit s)[slot := chain_exit s ! slot + 1]\<rparr>) ls))
       (\<lambda>_ ls. flow_bind (find_tb gp ho ls (gp_get_pc gp (ls_cpu ls)) (gp_get_flags gp (ls_cpu ls)))
         (\<lambda>dst ls. do {
            st \<leftarrow> tb_add_jump (ls_exec ls) src_tb slot dst;
            Some (Go () (ls\<lparr>ls_exec := st, ls_hint := Some dst\<rparr>))
          }))"

text \<open>The target of the last indirect exit, when it is valid for the pc and flags.\<close>

definition cached_target :: "tb_store \<Rightarrow> nat \<Rightarrow> u64 \<Rightarrow> u32 \<Rightarrow> nat option option" where
  "cached_target s src_tb p f = do {
     tb \<leftarrow> ts_get s src_tb;
     let cached = tb_exit_target tb;
     if cached = EXIT_TARGET_NONE then Some None
     else do {
       target \<leftarrow> ts_get s cached;
       Some (if tb_matches s target p f then Some cached else None)
     }
   }"

definition take_cached :: "('c, 'ir) guest_cpu \<Rightarrow> nat \<Rightarrow> u64 \<Rightarrow> 'c loop_state \<Rightarrow> (unit, 'c) flow" where
  "take_cached gp cached p ls =
     (let c = ls_cpu ls
      in if gp_pending_interrupt gp c then Again (ls\<lparr>ls_cpu := gp_handle_interrupt gp c\<rparr>)
         else if gp_has_pending_irq gp c then Again (ls\<lparr>ls_cpu := gp_set_exit_request gp c\<rparr>)
         else let (hit, c1) = gp_gdb_check_breakpoint gp c p; ls1 = ls\<lparr>ls_cpu := c1\<rparr>
              in if hit then pause gp ls1 else Again (ls1\<lparr>ls_hint := Some cached\<rparr>))"

definition store_exit_target :: "exec_state \<Rightarrow> nat \<Rightarrow> nat \<Rightarrow> exec_state" where
  "store_exit_target st src_tb dst =
     st\<lparr>es_store := (es_store st)\<lparr>ts_tbs := upd_tb (\<lambda>t. t\<lparr>tb_exit_target := dst\<rparr>) src_tb (ts_tbs (es_store st))\<rparr>\<rparr>"

definition indirect_exit :: "('c, 'ir) guest_cpu \<Rightarrow> 'ir host_ops \<Rightarrow> nat \<Rightarrow> 'c loop_state \<Rightarrow> (unit, 'c) flow option" where
  "indirect_exit gp ho src_tb ls =
     flow_bind (faults_and_flushes gp (count_stat (\<lambda>s. s\<lparr>nochain_exit := nochain_exit s + 1\<rparr>) ls))
       (\<lambda>_ ls.
          let p = gp_get_pc gp (ls_cpu ls); f = gp_get_flags gp (ls_cpu ls)
          in do {
            target \<leftarrow> cached_target (es_store (ls_exec ls)) src_tb p f;
            case target of
              Some cached \<Rightarrow> Some (take_cached gp cached p ls)
            | None \<Rightarrow> flow_bind (find_tb gp ho ls p f) (\<lambda>dst ls.
                Some (Go () (ls\<lparr>ls_exec := store_exit_target (ls_exec ls) src_tb dst, ls_hint := Some dst\<rparr>)))
          })"

text \<open>The accounting of a CSR exit and the actions of an architecture-specific exit.\<close>

definition late_account :: "('c, 'ir) guest_cpu \<Rightarrow> translation_block \<Rightarrow> u64 \<Rightarrow> u16 \<Rightarrow> arch_exit_action \<Rightarrow> 'c \<Rightarrow> 'c" where
  "late_account gp tb exit_code retired action c =
     (if exit_code = EXCP_RISCV_PRIV_CSR then
        let (post_discarded, post_nonretired) = (case action of
              FlushPendingTbInstretDiscarded \<Rightarrow> (tb_icount tb, 0)
            | FlushPendingTbNonRetired n \<Rightarrow> (0, n)
            | _ \<Rightarrow> (0, 0))
        in gp_on_tb_executed gp c (tb_size tb) (saturating_sub16 (saturating_sub16 retired post_discarded) post_nonretired)
      else c)"

definition arch_action :: "('c, 'ir) guest_cpu \<Rightarrow> arch_exit_action \<Rightarrow> 'c loop_state \<Rightarrow> (unit, 'c) flow option" where
  "arch_action gp action ls =
     (case action of
        ActContinue \<Rightarrow> Some (Go () ls)
      | ActHalted \<Rightarrow> Some (Done Halted ls)
      | ActEcall p \<Rightarrow> Some (Done (Ecall p) ls)
      | ActExit code \<Rightarrow> Some (Done (ExitCode code) ls)
      | FlushAllTb \<Rightarrow> Some (Go () (ls\<lparr>ls_exec := flush_all (ls_exec ls), ls_hint := None\<rparr>))
      | FlushDirtyTbPages dirty' \<Rightarrow> do {
          st \<leftarrow> flush_dirty_tb_pages (ls_exec ls) dirty';
          Some (Go () (ls\<lparr>ls_exec := st, ls_hint := None\<rparr>))
        }
      | _ \<Rightarrow>
          let (pending, c) = gp_take_tb_flush_pending gp (ls_cpu ls);
              (_, st, hint) = flush_pending_tbs pending (ls_exec ls) (ls_hint ls)
          in Some (Go () \<lparr>ls_exec = st, ls_cpu = c, ls_hint = hint\<rparr>))"

definition arch_exit :: "('c, 'ir) guest_cpu \<Rightarrow> nat \<Rightarrow> u64 \<Rightarrow> u16 \<Rightarrow> 'c loop_state \<Rightarrow> (unit, 'c) flow option" where
  "arch_exit gp src_tb exit_code retired ls = do {
     tb \<leftarrow> ts_get (es_store (ls_exec ls)) src_tb;
     let ls1 = count_stat (\<lambda>s. s\<lparr>real_exit := real_exit s + 1\<rparr>) ls;
     let (action, c) = gp_handle_arch_exit gp (ls_cpu ls1) exit_code;
     arch_action gp action (ls1\<lparr>ls_cpu := late_account gp tb exit_code retired action c\<rparr>)
   }"

definition dispatch_exit :: "('c, 'ir) guest_cpu \<Rightarrow> 'ir host_ops \<Rightarrow> nat \<Rightarrow> u64 \<Rightarrow> u16 \<Rightarrow> 'c loop_state \<Rightarrow> (unit, 'c) flow option" where
  "dispatch_exit gp ho src_tb exit_code retired ls =
     (if exit_code \<le> 1 then chain_slot gp ho src_tb (unat exit_code) ls
      else if exit_code = TB_EXIT_NOCHAIN then indirect_exit gp ho src_tb ls
      else if exit_code \<ge> EXCP_ARCH_BASE then arch_exit gp src_tb exit_code retired ls
      else if exit_code = EXCP_UNDEF then Some (Go () (ls\<lparr>ls_cpu := gp_handle_exception gp (ls_cpu ls) 2 0\<rparr>))
      else Some (Done (ExitCode exit_code) (count_stat (\<lambda>s. s\<lparr>real_exit := real_exit s + 1\<rparr>) ls)))"

section \<open>The end of an iteration\<close>

definition end_iter :: "('c, 'ir) guest_cpu \<Rightarrow> bool \<Rightarrow> 'c loop_state \<Rightarrow> (unit, 'c) flow" where
  "end_iter gp stepping ls =
     (if stepping then Again (ls\<lparr>ls_cpu := gp_gdb_complete_step gp (ls_cpu ls)\<rparr>)
      else
        let (fault, c1) = gp_check_mem_fault gp (ls_cpu ls);
            ls1 = (if \<not> fault \<and> gp_pending_interrupt gp c1 then ls\<lparr>ls_cpu := gp_handle_interrupt gp c1, ls_hint := None\<rparr>
                   else if gp_has_pending_irq gp c1 then ls\<lparr>ls_cpu := gp_set_exit_request gp c1\<rparr>
                   else ls\<lparr>ls_cpu := c1\<rparr>);
            (stop, c2) = gp_should_exit gp (ls_cpu ls1); ls2 = ls1\<lparr>ls_cpu := c2\<rparr>
        in if stop then Done Halted ls2 else pause gp ls2)"

text \<open>The first half of an iteration chooses the block to run.\<close>

definition next_tb :: "('c, 'ir) guest_cpu \<Rightarrow> 'ir host_ops \<Rightarrow> bool \<Rightarrow> 'c loop_state \<Rightarrow> (bool \<times> nat, 'c) flow option" where
  "next_tb gp ho jumped ls =
     (let ls1 = count_stat (\<lambda>s. s\<lparr>loop_iters := loop_iters s + 1\<rparr>) (if jumped then recover ls else ls);
          stepping = gp_gdb_single_step gp (ls_cpu ls1)
      in flow_bind (select_tb gp ho stepping (deliver_interrupts gp stepping ls1)) (\<lambda>idx ls2.
         flow_bind (breakpoint_gate gp stepping idx ls2) (\<lambda>idx ls3. Some (Go (stepping, idx) ls3))))"

definition loop_iter :: "('c, 'ir) guest_cpu \<Rightarrow> 'ir host_ops \<Rightarrow> 'c host_code \<Rightarrow> bool \<Rightarrow> 'c loop_state \<Rightarrow> (unit, 'c) flow option" where
  "loop_iter gp ho run jumped ls =
     flow_bind (next_tb gp ho jumped ls) (\<lambda>(stepping, tb_idx) ls1.
     flow_bind (run_tb run tb_idx ls1) (\<lambda>raw ls2.
     flow_bind (account gp tb_idx raw ls2) (\<lambda>(src_tb, exit_code, retired) ls3.
     flow_bind (flush_written gp ls3) (\<lambda>_ ls4.
     flow_bind (dispatch_exit gp ho src_tb exit_code retired ls4) (\<lambda>_ ls5.
       Some (end_iter gp stepping ls5))))))"

text \<open>The loop: it ends when an iteration returns.\<close>

partial_function (option) cpu_exec_loop :: "('c, 'ir) guest_cpu \<Rightarrow> 'ir host_ops \<Rightarrow> 'c host_code \<Rightarrow> bool \<Rightarrow> 'c loop_state \<Rightarrow>
    (exit_reason \<times> 'c loop_state) option" where
  "cpu_exec_loop gp ho run jumped ls = do {
     fl \<leftarrow> loop_iter gp ho run jumped ls;
     case fl of
       Go _ ls' \<Rightarrow> cpu_exec_loop gp ho run False ls'
     | Again ls' \<Rightarrow> cpu_exec_loop gp ho run False ls'
     | Jumped ls' \<Rightarrow> cpu_exec_loop gp ho run True ls'
     | Done r ls' \<Rightarrow> Some (r, ls')
   }"

definition loop_start :: "exec_state \<Rightarrow> 'c \<Rightarrow> 'c loop_state" where
  "loop_start st c = \<lparr>ls_exec = st, ls_cpu = c, ls_hint = None\<rparr>"

end
