(* ===== verification/Tb_Publish.thy ===== *)
theory Tb_Publish
  imports Tb_Exec
begin

text \<open>
  Generating, chaining and flushing blocks keep the invariant of the store. A translator satisfies
  its contract when it only writes code behind the cursor and the jumps it reports are five-byte
  instructions there that lead to their stubs; then every attempt to generate a block, also one
  that runs out of buffer, keeps the invariant, and the loop of attempts ends.
\<close>

section \<open>Appending a block\<close>

text \<open>A buffer in which code has been added behind the cursor.\<close>

definition code_extends :: "code_buffer \<Rightarrow> code_buffer \<Rightarrow> bool" where
  "code_extends cb cb' \<longleftrightarrow> capacity cb' = capacity cb \<and> cb_offset cb \<le> cb_offset cb' \<and> cb_offset cb' \<le> capacity cb
     \<and> (\<forall>off. off + 5 \<le> cb_offset cb \<longrightarrow> jump_target cb' off = jump_target cb off)"

text \<open>A fresh block whose code lies in the added part.\<close>

definition fresh_code :: "code_buffer \<Rightarrow> code_buffer \<Rightarrow> translation_block \<Rightarrow> bool" where
  "fresh_code cb cb' t \<longleftrightarrow> tb_jmp_dest t = [None, None] \<and> tb_jmp_list t = [] \<and> site_ok (cb_offset cb') t
     \<and> (\<forall>slot<2. \<forall>off. tb_jmp_insn_offset t ! slot = Some off \<longrightarrow> cb_offset cb \<le> unat off
          \<and> jump_target cb' (unat off) = Some (uint (the (tb_jmp_reset_offset t ! slot)))
          \<and> (\<forall>slot'<2. \<forall>off'. slot' \<noteq> slot \<and> tb_jmp_insn_offset t ! slot' = Some off' \<longrightarrow>
               unat off + 5 \<le> unat off' \<or> unat off' + 5 \<le> unat off))"

lemma edges_ok_append:
  assumes "edges_ok tbs" and "tb_jmp_dest t = [None, None]" and "tb_jmp_list t = []"
  shows "edges_ok (tbs @ [t])"
proof -
  have "length (tb_jmp_dest ((tbs @ [t]) ! i)) = 2
     \<and> (\<forall>(src, slot)\<in>set (tb_jmp_list ((tbs @ [t]) ! i)). src < Suc (length tbs) \<and> slot < 2)
     \<and> (\<forall>slot<2. \<forall>dst. dest (tbs @ [t]) i slot = Some dst \<longrightarrow>
          dst < Suc (length tbs) \<and> (i, slot) \<in> set (tb_jmp_list ((tbs @ [t]) ! dst)))"
    if "i < Suc (length tbs)" for i
  proof (cases "i = length tbs")
    case True
    then show ?thesis
      using assms by (simp add: less_2_cases_iff)
  next
    case False
    with that have i: "i < length tbs"
      by simp
    then have "length (tb_jmp_dest (tbs ! i)) = 2" "\<forall>(src, slot)\<in>set (tb_jmp_list (tbs ! i)). src < length tbs \<and> slot < 2"
      "\<forall>slot<2. \<forall>dst. dest tbs i slot = Some dst \<longrightarrow> dst < length tbs \<and> (i, slot) \<in> set (tb_jmp_list (tbs ! dst))"
      using assms(1) by (simp_all add: edges_ok_def)
    with i show ?thesis
      by (auto simp: nth_append)
  qed
  then show ?thesis
    by (simp add: edges_ok_def)
qed

lemma sites_ok_append:
  assumes ok: "sites_ok tbs cb" and ext: "code_extends cb cb'" and t: "fresh_code cb cb' t"
  shows "sites_ok (tbs @ [t]) cb'"
proof -
  have mono: "site_ok (cb_offset cb') tb" if "site_ok (cb_offset cb) tb" for tb
    using that ext unfolding site_ok_def code_extends_def by (meson order_trans)
  have old: "unat off + 5 \<le> cb_offset cb" if "i < length tbs" "slot < 2" "site tbs i slot = Some off" for i slot off
    using ok that by (simp add: sites_ok_def site_ok_def)
  have new: "cb_offset cb \<le> unat off" if "slot < 2" "tb_jmp_insn_offset t ! slot = Some off" for slot off
    using t that by (simp add: fresh_code_def)
  have "sites_apart (tbs @ [t])"
    unfolding sites_apart_def
  proof (intro allI impI)
    fix i j slot slot' off off'
    assume a: "i < length (tbs @ [t]) \<and> j < length (tbs @ [t]) \<and> slot < 2 \<and> slot' < 2
      \<and> site (tbs @ [t]) i slot = Some off \<and> site (tbs @ [t]) j slot' = Some off' \<and> (i, slot) \<noteq> (j, slot')"
    consider "i < length tbs" "j < length tbs" | "i < length tbs" "j = length tbs" | "i = length tbs" "j < length tbs"
      | "i = length tbs" "j = length tbs"
      using a by fastforce
    then show "unat off + 5 \<le> unat off' \<or> unat off' + 5 \<le> unat off"
    proof cases
      case 1
      then show ?thesis
        using a ok unfolding sites_ok_def sites_apart_def by (metis nth_append)
    next
      case 2
      then show ?thesis
        using a old [of i slot off] new [of slot' off'] by (auto simp: nth_append)
    next
      case 3
      then show ?thesis
        using a old [of j slot' off'] new [of slot off] by (auto simp: nth_append)
    next
      case 4
      then show ?thesis
        using a t by (auto simp: fresh_code_def nth_append)
    qed
  qed
  then show ?thesis
    using ok ext t mono by (auto simp: sites_ok_def code_extends_def fresh_code_def nth_append)
qed

lemma jumps_ok_append:
  assumes ok: "jumps_ok tbs cb" "sites_ok tbs cb" "edges_ok tbs" and ext: "code_extends cb cb'" and t: "fresh_code cb cb' t"
  shows "jumps_ok (tbs @ [t]) cb'"
  unfolding jumps_ok_def
proof (intro allI impI)
  fix i slot off
  assume i: "i < length (tbs @ [t])" and v: "\<not> tb_invalid ((tbs @ [t]) ! i)" and slot: "slot < 2"
    and st: "site (tbs @ [t]) i slot = Some off"
  show "jump_target cb' (unat off) = Some (case dest (tbs @ [t]) i slot of
     None \<Rightarrow> uint (the (stub (tbs @ [t]) i slot)) | Some dst \<Rightarrow> int (tb_host_offset ((tbs @ [t]) ! dst)))"
  proof (cases "i < length tbs")
    case True
    then have "jump_target cb (unat off) = Some (case dest tbs i slot of
        None \<Rightarrow> uint (the (stub tbs i slot)) | Some dst \<Rightarrow> int (tb_host_offset (tbs ! dst)))"
      using ok(1) v slot st by (simp add: jumps_ok_def nth_append)
    moreover have "unat off + 5 \<le> cb_offset cb"
      using ok(2) True slot st by (simp add: sites_ok_def site_ok_def nth_append)
    moreover have "dst < length tbs" if "dest tbs i slot = Some dst" for dst
      using ok(3) True slot that by (simp add: edges_ok_def)
    ultimately show ?thesis
      using True ext by (auto simp: code_extends_def nth_append split: option.split)
  next
    case False
    then have "i = length tbs"
      using i by simp
    moreover have "jump_target cb' (unat off) = Some (uint (the (tb_jmp_reset_offset t ! slot)))"
      using t slot st calculation by (simp add: fresh_code_def)
    moreover have "tb_jmp_dest t ! slot = None"
      using t slot by (auto simp: fresh_code_def less_2_cases_iff)
    ultimately show ?thesis
      by simp
  qed
qed

text \<open>The store with one more block, on the list of its page and, when it is to be found, in its bucket.\<close>

definition tracked :: "translation_block \<Rightarrow> bool" where
  "tracked t \<longleftrightarrow> page_of t < CODE_REFCOUNT_PAGES"

definition linked :: "tb_store \<Rightarrow> bool \<Rightarrow> translation_block \<Rightarrow> translation_block" where
  "linked s ins t = t\<lparr>tb_page_next := if tracked t then ts_page_heads s (page_of t) else None,
     tb_hash_next := if ins then ts_hash s (tb_hash (tb_pc t) (tb_flags t)) else None\<rparr>"

definition add_block :: "tb_store \<Rightarrow> bool \<Rightarrow> translation_block \<Rightarrow> tb_store" where
  "add_block s ins t = s\<lparr>ts_tbs := ts_tbs s @ [linked s ins t],
     ts_hash := if ins then (ts_hash s)(tb_hash (tb_pc t) (tb_flags t) := Some (length (ts_tbs s))) else ts_hash s,
     ts_page_heads := if tracked t then (ts_page_heads s)(page_of t := Some (length (ts_tbs s))) else ts_page_heads s,
     ts_code_pages := if tracked t then (ts_code_pages s)(page_of t := saturating_add1 (ts_code_pages s (page_of t)))
       else ts_code_pages s\<rparr>"

lemma linked_fields [simp]:
  "tb_pc (linked s ins t) = tb_pc t" "tb_flags (linked s ins t) = tb_flags t" "tb_phys_pc (linked s ins t) = tb_phys_pc t"
  "tb_gen (linked s ins t) = tb_gen t" "tb_invalid (linked s ins t) = tb_invalid t" "page_of (linked s ins t) = page_of t"
  "tb_jmp_dest (linked s ins t) = tb_jmp_dest t" "tb_jmp_list (linked s ins t) = tb_jmp_list t"
  "tb_host_offset (linked s ins t) = tb_host_offset t" "tb_valid g (linked s ins t) = tb_valid g t"
  "fresh_code cb cb' (linked s ins t) = fresh_code cb cb' t"
  "tb_hash_next (linked s ins t) = (if ins then ts_hash s (tb_hash (tb_pc t) (tb_flags t)) else None)"
  "tb_page_next (linked s ins t) = (if tracked t then ts_page_heads s (page_of t) else None)"
  by (simp_all add: linked_def page_of_def tb_valid_def fresh_code_def site_ok_def)

lemma add_block_old: "i < length (ts_tbs s) \<Longrightarrow> ts_tbs (add_block s ins t) ! i = ts_tbs s ! i"
  by (simp add: add_block_def nth_append)

lemma add_block_fields [simp]:
  "ts_tbs (add_block s ins t) ! length (ts_tbs s) = linked s ins t" "length (ts_tbs (add_block s ins t)) = Suc (length (ts_tbs s))"
  "ts_global_gen (add_block s ins t) = ts_global_gen s"
  "ts_hash (add_block s ins t) b =
     (if ins \<and> b = tb_hash (tb_pc t) (tb_flags t) then Some (length (ts_tbs s)) else ts_hash s b)"
  "ts_page_heads (add_block s ins t) p = (if tracked t \<and> p = page_of t then Some (length (ts_tbs s)) else ts_page_heads s p)"
  "ts_code_pages (add_block s ins t) p =
     (if tracked t \<and> p = page_of t then saturating_add1 (ts_code_pages s p) else ts_code_pages s p)"
  by (simp_all add: add_block_def)

lemma add_block_live:
  assumes "tb_valid (ts_global_gen s) t"
  shows "live (add_block s ins t) i \<longleftrightarrow> live s i \<or> i = length (ts_tbs s)"
  using assms by (auto simp: live_def add_block_old less_Suc_eq)

lemma add_block_on_page:
  assumes "tb_valid (ts_global_gen s) t"
  shows "on_page (add_block s ins t) p = on_page s p \<union> (if page_of t = p then {length (ts_tbs s)} else {})"
  using add_block_live [OF assms] by (auto simp: on_page_def add_block_old live_def)

lemma add_block_hash_list:
  assumes "hash_list s b xs"
  shows "hash_list (add_block s ins t) b (if ins \<and> b = tb_hash (tb_pc t) (tb_flags t) then length (ts_tbs s) # xs else xs)"
proof -
  have in_range: "i < length (ts_tbs s)" if "i \<in> set xs" for i
    using assms that by (simp add: hash_list_def)
  then have "chain (hash_links (ts_tbs (add_block s ins t))) (ts_hash s b) xs"
    using assms chain_cong [of xs "hash_links (ts_tbs (add_block s ins t))" "hash_links (ts_tbs s)"] add_block_old
    by (simp add: hash_list_def)
  with assms in_range show ?thesis
    by (auto simp: hash_list_def add_block_old less_Suc_eq)
qed

lemma add_block_page_list:
  assumes "page_list s p xs"
  shows "page_list (add_block s ins t) p (if tracked t \<and> p = page_of t then length (ts_tbs s) # xs else xs)"
proof -
  have in_range: "i < length (ts_tbs s)" if "i \<in> set xs" for i
    using assms that by (simp add: page_list_def)
  then have "chain (page_links (ts_tbs (add_block s ins t))) (ts_page_heads s p) xs"
    using assms chain_cong [of xs "page_links (ts_tbs (add_block s ins t))" "page_links (ts_tbs s)"] add_block_old
    by (simp add: page_list_def)
  with assms in_range show ?thesis
    by (auto simp: page_list_def add_block_old less_Suc_eq)
qed

lemma unat_saturating_add1: "unat (saturating_add1 v) = min 255 (unat v + 1)"
proof (cases "v = 255")
  case False
  then have "unat v \<noteq> unat (255 :: u8)"
    using unsigned_word_eqI by blast
  then have "unat v \<noteq> 255"
    by simp
  moreover have "unat v < 2 ^ 8"
    using unsigned_less [of v, where ?'a = nat] by simp
  ultimately show ?thesis
    using False by (simp add: saturating_add1_def unat_word_ariths)
qed (simp add: saturating_add1_def)

lemma add_block_ok:
  assumes ok: "store_ok s cb" "counts_ok s" and ext: "code_extends cb cb'" and t: "fresh_code cb cb' t"
    and v: "tb_valid (ts_global_gen s) t"
  shows "store_ok (add_block s ins t) cb'" "counts_ok (add_block s ins t)"
proof -
  let ?s = "add_block s ins t"
  note lv = add_block_live [OF v] and op = add_block_on_page [OF v]
  have tbs: "ts_tbs ?s = ts_tbs s @ [linked s ins t]"
    by (simp add: add_block_def)
  have old: "edges_ok (ts_tbs s)" "sites_ok (ts_tbs s) cb" "jumps_ok (ts_tbs s) cb" "chained_ok s" "lists_ok s" "gens_ok s"
    using ok(1) by (simp_all add: store_ok_def)
  have noedge: "tb_jmp_dest t = [None, None]" "tb_jmp_list t = []"
    using t by (simp_all add: fresh_code_def)
  have dest0: "dest (ts_tbs ?s) (length (ts_tbs s)) slot = None" if "slot < 2" for slot
    using t that by (auto simp: fresh_code_def less_2_cases_iff)
  have "live ?s dst" if "live ?s i" "slot < 2" "dest (ts_tbs ?s) i slot = Some dst" for i slot dst
  proof -
    have i: "live s i" "i < length (ts_tbs s)"
      using that dest0 by (auto simp: lv) (auto simp: live_def)
    then have "live s dst"
      using old(4) that unfolding chained_ok_def by (metis add_block_old)
    then show ?thesis
      by (simp add: lv)
  qed
  then have "chained_ok ?s"
    unfolding chained_ok_def by blast
  moreover have "lists_ok ?s"
    unfolding lists_ok_def
  proof (intro conjI allI impI)
    show "\<exists>xs. hash_list ?s b xs" for b
      using old(5) add_block_hash_list unfolding lists_ok_def by blast
    fix p
    assume p: "p < CODE_REFCOUNT_PAGES"
    then obtain xs where xs: "page_list s p xs" "on_page s p \<subseteq> set xs"
      using old(5) unfolding lists_ok_def by blast
    show "\<exists>xs. page_list ?s p xs \<and> on_page ?s p \<subseteq> set xs"
      by (intro exI conjI, rule add_block_page_list [OF xs(1)]) (use xs(2) p in \<open>auto simp: op tracked_def\<close>)
  qed
  moreover have "gens_ok ?s"
    using old(6) v by (auto simp: gens_ok_def tbs tb_valid_def)
  ultimately show "store_ok ?s cb'"
    using edges_ok_append [OF old(1), of "linked s ins t"] sites_ok_append [OF old(2) ext, of "linked s ins t"]
      jumps_ok_append [OF old(3,2,1) ext, of "linked s ins t"] t noedge
    by (simp add: store_ok_def tbs)
  show "counts_ok ?s"
    unfolding counts_ok_def
  proof (intro allI impI)
    fix p
    assume p: "p < CODE_REFCOUNT_PAGES"
    have "length (ts_tbs s) \<notin> on_page s p"
      by (simp add: on_page_def live_def)
    then show "unat (ts_code_pages ?s p) = min 255 (card (on_page ?s p))"
      using ok(2) p by (auto simp: counts_ok_def op tracked_def unat_saturating_add1)
  qed
qed

text \<open>A block the front end refused is never linked and never live.\<close>

lemma add_dead_block_ok:
  assumes ok: "store_ok s cb" "counts_ok s" and t: "tb_invalid t" "tb_gen t = 0" "tb_jmp_dest t = [None, None]"
      "tb_jmp_list t = []" "tb_jmp_insn_offset t = [None, None]" "tb_host_offset t = 0"
  shows "store_ok (s\<lparr>ts_tbs := ts_tbs s @ [t]\<rparr>) cb" "counts_ok (s\<lparr>ts_tbs := ts_tbs s @ [t]\<rparr>)"
proof -
  let ?s = "s\<lparr>ts_tbs := ts_tbs s @ [t]\<rparr>"
  have lv: "live ?s i = live s i" for i
    using t(1) by (auto simp: live_def tb_valid_def nth_append less_Suc_eq)
  then have op: "on_page ?s p = on_page s p" for p
    by (auto simp: on_page_def live_def nth_append)
  have ext: "code_extends cb cb" and fr: "fresh_code cb cb t"
    using ok t by (auto simp: code_extends_def fresh_code_def site_ok_def store_ok_def sites_ok_def less_2_cases_iff)
  have hl: "hash_list ?s b xs" if "hash_list s b xs" for b xs
    using that chain_cong [of xs "hash_links (ts_tbs ?s)" "hash_links (ts_tbs s)"]
    by (auto simp: hash_list_def nth_append)
  have pl: "page_list ?s p xs" if "page_list s p xs" for p xs
    using that chain_cong [of xs "page_links (ts_tbs ?s)" "page_links (ts_tbs s)"]
    by (auto simp: page_list_def nth_append)
  have "lists_ok ?s"
    using ok(1) hl pl unfolding store_ok_def lists_ok_def op by blast
  moreover have "live s dst" if "live s i" "slot < 2" "dest (ts_tbs ?s) i slot = Some dst" for i slot dst
  proof -
    have "dest (ts_tbs s) i slot = Some dst"
      using that by (simp add: live_def nth_append)
    then show ?thesis
      using ok(1) that unfolding store_ok_def chained_ok_def by blast
  qed
  then have "chained_ok ?s"
    unfolding chained_ok_def lv by blast
  moreover have "gens_ok ?s"
    using ok(1) t(2) by (auto simp: store_ok_def gens_ok_def)
  ultimately show "store_ok ?s cb"
    using ok(1) edges_ok_append [OF _ t(3,4)] sites_ok_append [OF _ ext fr] jumps_ok_append [OF _ _ _ ext fr]
    by (simp add: store_ok_def)
  show "counts_ok ?s"
    using ok(2) by (simp add: counts_ok_def op)
qed

section \<open>The contract of a translator\<close>

text \<open>
  Emission keeps the code in front of the cursor and the size of the buffer. When it ends, the
  block starts at the old cursor, and the jump it reports for an exit slot is an \<open>E9\<close> instruction
  with displacement zero in the new code, with the next instruction as its stub.
\<close>

definition code_prefix_kept :: "code_buffer \<Rightarrow> code_buffer \<Rightarrow> bool" where
  "code_prefix_kept cb cb' \<longleftrightarrow> capacity cb' = capacity cb \<and> take (cb_offset cb) (cb_mem cb') = take (cb_offset cb) (cb_mem cb)"

definition emitted_ok :: "code_buffer \<Rightarrow> nat \<Rightarrow> (nat \<times> nat) option list \<Rightarrow> code_buffer \<Rightarrow> bool" where
  "emitted_ok cb host offs cb' \<longleftrightarrow> code_prefix_kept cb cb' \<and> cb_offset cb \<le> cb_offset cb' \<and> cb_offset cb' \<le> capacity cb
     \<and> host = cb_offset cb \<and> length offs = 2
     \<and> (\<forall>slot<2. \<forall>j r. offs ! slot = Some (j, r) \<longrightarrow> cb_offset cb \<le> j \<and> r \<le> cb_offset cb' \<and> r = j + 5
          \<and> load_bytes (cb_mem cb') j 5 = Some [0xE9, 0, 0, 0, 0])
     \<and> (\<forall>j r j' r'. offs = [Some (j, r), Some (j', r')] \<longrightarrow> r \<le> j' \<or> r' \<le> j)"

definition translator_ok :: "'ir host_ops \<Rightarrow> bool" where
  "translator_ok ho \<longleftrightarrow> (\<forall>ir cb. cb_offset cb \<le> capacity cb \<longrightarrow> (case ho_translate ho ir cb of
     Inl cb' \<Rightarrow> code_prefix_kept cb cb' | Inr (host, offs, cb') \<Rightarrow> emitted_ok cb host offs cb'))"

lemma jump_target_prefix:
  assumes "code_prefix_kept cb cb'" and "off + 5 \<le> cb_offset cb"
  shows "jump_target cb' off = jump_target cb off"
proof -
  have len: "length (cb_mem cb') = length (cb_mem cb)"
    using assms(1) by (simp add: code_prefix_kept_def capacity_def)
  have "take 4 (drop (off + 1) (take (cb_offset cb) m)) = take 4 (drop (off + 1) m)" for m :: "u8 list"
    using assms(2) by (simp add: drop_take min_def)
  then have "take 4 (drop (off + 1) (cb_mem cb')) = take 4 (drop (off + 1) (cb_mem cb))"
    using assms(1) by (metis code_prefix_kept_def)
  then show ?thesis
    by (simp add: jump_target_def cb_read_u32_def load_bytes_def len)
qed

lemma jump_target_fresh:
  assumes "load_bytes (cb_mem cb) j 5 = Some [0xE9, 0, 0, 0, 0]"
  shows "jump_target cb j = Some (int j + 5)"
proof -
  have a: "take 5 (drop j (cb_mem cb)) = [0xE9, 0, 0, 0, 0]" "j + 5 \<le> length (cb_mem cb)"
    using assms by (simp_all add: load_bytes_def split: if_splits)
  have "take 4 (drop (j + 1) (cb_mem cb)) = drop 1 (take 5 (drop j (cb_mem cb)))"
    by (simp add: drop_take)
  then have "load_bytes (cb_mem cb) (j + 1) 4 = Some [0, 0, 0, 0]"
    using a by (simp add: load_bytes_def)
  then show ?thesis
    by (simp add: jump_target_def cb_read_u32_def)
qed

lemma set_jmp_offsets_two:
  assumes "tb_jmp_insn_offset tb = [None, None]" and "tb_jmp_reset_offset tb = [None, None]" and "length offs = 2"
  shows "set_jmp_offsets tb (List.enumerate 0 offs) = Some (tb
    \<lparr>tb_jmp_insn_offset := map (map_option (\<lambda>(j, r). of_nat j)) offs,
     tb_jmp_reset_offset := map (map_option (\<lambda>(j, r). of_nat r)) offs\<rparr>)"
proof -
  obtain x y where xy: "offs = [x, y]"
    using assms(3) by (metis (no_types) length_0_conv length_Suc_conv numeral_2_eq_2)
  show ?thesis
    using assms(1,2) unfolding xy
    by (cases x; cases y) (auto simp: set_jmp_insn_offset_def set_jmp_reset_offset_def)
qed

lemma get_mut_last:
  "ts_tbs s = xs @ [t] \<Longrightarrow> get_mut f (length xs) s = Some (s\<lparr>ts_tbs := xs @ [f t]\<rparr>)"
  by (simp add: get_mut_def upd_tb_def)

lemma ts_tbs_add_block: "ts_tbs (add_block s ins t) = ts_tbs s @ [linked s ins t]"
  by (simp add: add_block_def)

lemma mark_code_page_add:
  assumes "tb_page_next t = None" and "tb_hash_next t = None" and "pg = drop_bit 12 (tb_phys_pc t)"
  shows "mark_code_page (s\<lparr>ts_tbs := ts_tbs s @ [t]\<rparr>) pg (length (ts_tbs s)) = Some (add_block s False t)"
proof (cases "tracked t")
  case True
  then show ?thesis
    using assms
    by (simp add: mark_code_page_def tracked_def page_of_def Let_def get_mut_def upd_tb_def add_block_def linked_def)
next
  case False
  moreover have "linked s False t = t"
    using False assms by (simp add: linked_def)
  ultimately show ?thesis
    using assms(3) by (simp add: mark_code_page_def tracked_def page_of_def Let_def add_block_def)
qed

lemma get_mut_add:
  assumes "linked s False (f t) = f (linked s False t)" and "page_of (f t) = page_of t"
  shows "get_mut f (length (ts_tbs s)) (add_block s False t) = Some (add_block s False (f t))"
  unfolding get_mut_last [OF ts_tbs_add_block]
  using assms by (simp add: add_block_def tracked_def)

lemma ts_insert_add: "ts_insert (add_block s False t) (length (ts_tbs s)) = Some (add_block s True t)"
proof -
  let ?s = "add_block s False t"
  have "ts_get ?s (length (ts_tbs s)) = Some (linked s False t)"
    by (simp add: ts_get_def)
  then show ?thesis
    by (simp add: ts_insert_def Let_def get_mut_last [OF ts_tbs_add_block]) (simp add: add_block_def linked_def)
qed

section \<open>One attempt to generate a block\<close>

text \<open>The invariant of the execution state: also, the jump cache names blocks of the store.\<close>

definition cache_in_store :: "jump_cache \<Rightarrow> tb_store \<Rightarrow> bool" where
  "cache_in_store jc s \<longleftrightarrow> (\<forall>e\<in>set (jc_entries jc). \<forall>i. jce_tb_idx e = Some i \<longrightarrow> i < length (ts_tbs s))"

definition exec_ok :: "exec_state \<Rightarrow> bool" where
  "exec_ok st \<longleftrightarrow> store_ok (es_store st) (es_cb st) \<and> counts_ok (es_store st) \<and> jc_ok (es_jc st)
     \<and> cache_in_store (es_jc st) (es_store st)"

lemma cache_in_store_grow:
  "cache_in_store jc s \<Longrightarrow> length (ts_tbs s) \<le> length (ts_tbs s') \<Longrightarrow> cache_in_store jc s'"
  by (fastforce simp: cache_in_store_def)

lemma cache_in_store_insert:
  "cache_in_store jc s \<Longrightarrow> i < length (ts_tbs s) \<Longrightarrow> cache_in_store (jc_insert jc p i) s"
  by (auto simp: cache_in_store_def jc_insert_def dest!: subsetD [OF set_update_subset_insert])

text \<open>The block as the front end leaves it, and as the back end completes it.\<close>

definition front_block :: "'ir host_ops \<Rightarrow> u64 \<Rightarrow> u32 \<Rightarrow> u32 \<Rightarrow> u32 \<Rightarrow> 'ir \<Rightarrow> u64 \<Rightarrow> u64 \<Rightarrow> translation_block" where
  "front_block ho p f cf gsize ir phys gen = (tb_new p f cf)\<lparr>tb_size := gsize,
     tb_icount := count_guest_insns (ho_insn_starts ho ir), tb_instret_discarded := ho_instret_discarded ho ir,
     tb_phys_pc := phys, tb_gen := gen\<rparr>"

definition back_block :: "'ir host_ops \<Rightarrow> 'ir \<Rightarrow> nat \<Rightarrow> (nat \<times> nat) option list \<Rightarrow> code_buffer \<Rightarrow> translation_block \<Rightarrow>
    translation_block" where
  "back_block ho ir host offs cb t = t\<lparr>tb_host_offset := host, tb_host_size := cb_offset cb - host,
     tb_contains_atomic := ho_contains_atomic ho ir,
     tb_jmp_insn_offset := map (map_option (\<lambda>(j, r). of_nat j)) offs,
     tb_jmp_reset_offset := map (map_option (\<lambda>(j, r). of_nat r)) offs\<rparr>"

lemma back_block_linked:
  "linked s False (back_block ho ir host offs cb t) = back_block ho ir host offs cb (linked s False t)"
  "page_of (back_block ho ir host offs cb t) = page_of t"
  by (simp_all add: linked_def back_block_def page_of_def tracked_def)

lemma gen_attempt_front:
  assumes "length (ts_tbs (es_store st)) < MAX_TBS"
    and "gc_gen_code go c (of_nat (length (ts_tbs (es_store st)))) p cur_max = (gsize, ir, c1)" and "gsize \<noteq> 0"
    and "t = front_block ho p f cf gsize ir (gc_last_phys_pc go c1) (ts_global_gen (es_store st))"
    and "ho_translate ho ir ((es_cb st)\<lparr>cb_jmp_trans := True\<rparr>) = Inl cb1"
  shows "gen_attempt go ho st c p f cf cur_max =
    Some (Overflow, st\<lparr>es_store := add_block (es_store st) False t, es_cb := cb1\<rparr>, c1)"
proof -
  let ?s = "es_store st"
  have "mark_code_page (?s\<lparr>ts_tbs := ts_tbs ?s @ [t]\<rparr>) (drop_bit 12 (gc_last_phys_pc go c1)) (length (ts_tbs ?s)) =
      Some (add_block ?s False t)"
    by (rule mark_code_page_add) (simp_all add: assms(4) front_block_def tb_new_def)
  then show ?thesis
    using assms
    by (simp add: gen_attempt_def ts_alloc_def Let_def get_mut_last [where s = "?s\<lparr>ts_tbs := _\<rparr>"] front_block_def)
qed

lemma gen_attempt_back:
  assumes alloc: "length (ts_tbs (es_store st)) < MAX_TBS"
    and gen: "gc_gen_code go c (of_nat (length (ts_tbs (es_store st)))) p cur_max = (gsize, ir, c1)" "gsize \<noteq> 0"
    and t: "t = front_block ho p f cf gsize ir (gc_last_phys_pc go c1) (ts_global_gen (es_store st))"
    and tr: "ho_translate ho ir ((es_cb st)\<lparr>cb_jmp_trans := True\<rparr>) = Inr (host, offs, cb1)" "length offs = 2"
    and b: "b = back_block ho ir host offs cb1 t"
  shows "gen_attempt go ho st c p f cf cur_max =
    Some (Block (length (ts_tbs (es_store st))), if cf \<noteq> 0
      then st\<lparr>es_store := add_block (es_store st) False b, es_cb := cb1\<lparr>cb_jmp_trans := False\<rparr>,
        es_stats := (es_stats st)\<lparr>st_translate := st_translate (es_stats st) + 1\<rparr>\<rparr>
      else st\<lparr>es_store := add_block (es_store st) True b, es_cb := cb1\<lparr>cb_jmp_trans := False\<rparr>,
        es_jc := jc_insert (es_jc st) p (length (ts_tbs (es_store st)))\<rparr>, c1)"
proof -
  let ?s = "es_store st"
  let ?f = "\<lambda>t. t\<lparr>tb_host_offset := host, tb_host_size := cb_offset cb1 - host, tb_contains_atomic := ho_contains_atomic ho ir\<rparr>"
  have "mark_code_page (?s\<lparr>ts_tbs := ts_tbs ?s @ [t]\<rparr>) (drop_bit 12 (gc_last_phys_pc go c1)) (length (ts_tbs ?s)) =
      Some (add_block ?s False t)"
    by (rule mark_code_page_add) (simp_all add: t front_block_def tb_new_def)
  moreover have "get_mut ?f (length (ts_tbs ?s)) (add_block ?s False t) = Some (add_block ?s False (?f t))"
    by (rule get_mut_add) (simp_all add: linked_def tracked_def page_of_def)
  moreover have "set_jmp_offsets (linked ?s False (?f t)) (List.enumerate 0 offs) = Some (linked ?s False b)"
    using tr(2) by (subst set_jmp_offsets_two) (simp_all add: t b front_block_def back_block_def tb_new_def linked_def tracked_def page_of_def)
  moreover have "get_mut (\<lambda>_. linked ?s False b) (length (ts_tbs ?s)) (add_block ?s False (?f t)) = Some (add_block ?s False b)"
    unfolding get_mut_last [OF ts_tbs_add_block] by (simp add: add_block_def b back_block_def tracked_def page_of_def)
  ultimately show ?thesis
    using alloc gen tr(1) t
    by (simp add: gen_attempt_def ts_alloc_def Let_def get_mut_last [where s = "?s\<lparr>ts_tbs := _\<rparr>"] ts_insert_add front_block_def)
qed

lemma gen_attempt_refused:
  assumes "gc_gen_code go c (of_nat (length (ts_tbs (es_store st)))) p cur_max = (0, ir, c1)"
    and "length (ts_tbs (es_store st)) < MAX_TBS"
  shows "gen_attempt go ho st c p f cf cur_max = Some (NoBlock, st\<lparr>es_store := (es_store st)
    \<lparr>ts_tbs := ts_tbs (es_store st) @ [(tb_new p f cf)\<lparr>tb_invalid := True\<rparr>]\<rparr>\<rparr>, c1)"
  using assms
  by (simp add: gen_attempt_def ts_alloc_def Let_def get_mut_last [where s = "es_store st\<lparr>ts_tbs := _\<rparr>"])

text \<open>The code a translator emits satisfies what appending the block needs.\<close>

lemma code_extends_flag:
  "code_extends cb (cb'\<lparr>cb_jmp_trans := v\<rparr>) = code_extends cb cb'" "code_extends (cb\<lparr>cb_jmp_trans := v\<rparr>) cb' = code_extends cb cb'"
  by (simp_all add: code_extends_def capacity_def jump_target_def cb_read_u32_def)

lemma fresh_code_front:
  "fresh_code cb cb' (front_block ho p f cf gsize ir phys g)"
  by (auto simp: fresh_code_def front_block_def tb_new_def site_ok_def less_2_cases_iff)

lemma emitted_site:
  assumes e: "emitted_ok cb host offs cb'" and cap: "capacity cb < 2 ^ 31" and slot: "slot < 2"
    and t: "tb_jmp_insn_offset t = map (map_option (\<lambda>(j, r). of_nat j)) offs"
      "tb_jmp_reset_offset t = map (map_option (\<lambda>(j, r). of_nat r)) offs"
    and off: "tb_jmp_insn_offset t ! slot = Some off"
  obtains r where "offs ! slot = Some (unat off, unat off + 5)" "cb_offset cb \<le> unat off" "unat off + 5 \<le> cb_offset cb'"
    "tb_jmp_reset_offset t ! slot = Some r" "unat r = unat off + 5" "jump_target cb' (unat off) = Some (uint r)"
proof -
  have len: "length offs = 2" and "cb_offset cb' \<le> capacity cb"
    using e by (simp_all add: emitted_ok_def)
  then have small: "unat (of_nat n :: u32) = n" if "n \<le> cb_offset cb'" for n
    using that cap by (simp add: unsigned_of_nat take_bit_nat_eq_self)
  obtain j r where jr: "offs ! slot = Some (j, r)" "off = of_nat j" "tb_jmp_reset_offset t ! slot = Some (of_nat r)"
    using slot len off by (auto simp: t)
  have o: "cb_offset cb \<le> j" "r \<le> cb_offset cb'" "r = j + 5" "load_bytes (cb_mem cb') j 5 = Some [0xE9, 0, 0, 0, 0]"
    using e slot jr(1) by (simp_all add: emitted_ok_def)
  have u: "unat off = j" "unat (of_nat r :: u32) = j + 5"
    using jr(2) o(3) small [of j] small [OF o(2)] o(2) by (simp, metis)
  moreover have "uint (of_nat r :: u32) = int j + 5"
    using u(2) by (metis uint_nat of_nat_add of_nat_numeral)
  ultimately show ?thesis
    using jr o jump_target_fresh [OF o(4)] by (intro that [of "of_nat r"]) simp_all
qed

lemma fresh_code_back:
  assumes e: "emitted_ok cb host offs cb'" and cap: "capacity cb < 2 ^ 31"
  shows "fresh_code cb cb' (back_block ho ir host offs cb' (front_block ho p f cf gsize ir phys g))"
proof -
  let ?t = "back_block ho ir host offs cb' (front_block ho p f cf gsize ir phys g)"
  have "tb_jmp_insn_offset ?t = map (map_option (\<lambda>(j, r). of_nat j)) offs"
    and "tb_jmp_reset_offset ?t = map (map_option (\<lambda>(j, r). of_nat r)) offs"
    by (simp_all add: back_block_def)
  note site = emitted_site [OF e cap _ this]
  have "unat off + 5 \<le> unat off' \<or> unat off' + 5 \<le> unat off"
    if "slot < 2" "slot' < 2" "slot' \<noteq> slot" "tb_jmp_insn_offset ?t ! slot = Some off" "tb_jmp_insn_offset ?t ! slot' = Some off'"
    for slot slot' off off'
  proof -
    have at: "offs ! slot = Some (unat off, unat off + 5)" "offs ! slot' = Some (unat off', unat off' + 5)"
      using site that by metis+
    have "length offs = 2" and apart: "\<And>j r j' r'. offs = [Some (j, r), Some (j', r')] \<Longrightarrow> r \<le> j' \<or> r' \<le> j"
      using e by (auto simp: emitted_ok_def)
    have "offs = [offs ! 0, offs ! 1]"
      by (rule nth_equalityI) (auto simp: \<open>length offs = 2\<close> less_2_cases_iff)
    then show ?thesis
      using at that(1-3) apart by (fastforce simp: less_2_cases_iff)
  qed
  moreover have "cb_offset cb \<le> unat off \<and> unat off + 5 \<le> cb_offset cb'
      \<and> (\<exists>r. tb_jmp_reset_offset ?t ! slot = Some r \<and> unat r \<le> cb_offset cb')
      \<and> jump_target cb' (unat off) = Some (uint (the (tb_jmp_reset_offset ?t ! slot)))"
    if "slot < 2" "tb_jmp_insn_offset ?t ! slot = Some off" for slot off
    using site [OF that] by (metis option.sel order_refl)
  moreover have "tb_host_offset ?t \<le> cb_offset cb'" "tb_jmp_dest ?t = [None, None]" "tb_jmp_list ?t = []"
    using e by (simp_all add: back_block_def front_block_def tb_new_def emitted_ok_def)
  ultimately show ?thesis
    unfolding fresh_code_def site_ok_def by blast
qed

end
