(* ===== verification/Tb_Find.thy ===== *)
theory Tb_Find
  imports Tb_Publish
begin

text \<open>
  Correctness of finding a block: generation ends and returns a live block for the requested
  pc and flags, the lookup through jump cache and hash table returns live blocks whose physical
  address is that of the pc, and everything keeps the invariant of the execution state.
\<close>

section \<open>Generating a block\<close>

text \<open>The store has grown: its blocks are as they were, and there may be new ones.\<close>

definition grown :: "tb_store \<Rightarrow> tb_store \<Rightarrow> bool" where
  "grown s s' \<longleftrightarrow> length (ts_tbs s) \<le> length (ts_tbs s') \<and> ts_global_gen s' = ts_global_gen s
     \<and> (\<forall>i<length (ts_tbs s). ts_tbs s' ! i = ts_tbs s ! i)"

lemma grown_refl [simp]: "grown s s"
  by (simp add: grown_def)

lemma grown_trans [trans]: "grown s s1 \<Longrightarrow> grown s1 s2 \<Longrightarrow> grown s s2"
  by (simp add: grown_def)

lemma grown_live: "grown s s' \<Longrightarrow> live s i \<Longrightarrow> live s' i"
  by (simp add: grown_def live_def)

lemma grown_add_block: "grown s (add_block s ins t)"
  by (simp add: grown_def add_block_old)

lemma grown_append: "grown s (s\<lparr>ts_tbs := ts_tbs s @ [t]\<rparr>)"
  by (simp add: grown_def nth_append)

text \<open>A live block for a pc, flags and a physical address.\<close>

definition found :: "tb_store \<Rightarrow> nat \<Rightarrow> u64 \<Rightarrow> u32 \<Rightarrow> u64 \<Rightarrow> bool" where
  "found s i p f phys \<longleftrightarrow> live s i \<and> tb_pc (ts_tbs s ! i) = p \<and> tb_flags (ts_tbs s ! i) = f
     \<and> tb_phys_pc (ts_tbs s ! i) = phys"

lemma exec_ok_parts:
  assumes "exec_ok st"
  shows "store_ok (es_store st) (es_cb st)" "counts_ok (es_store st)" "jc_ok (es_jc st)"
    "cache_in_store (es_jc st) (es_store st)" "cb_offset (es_cb st) \<le> capacity (es_cb st)" "capacity (es_cb st) < 2 ^ 31"
  using assms by (simp_all add: exec_ok_def store_ok_def sites_ok_def)

lemma valid_front [simp]:
  "tb_valid g (front_block ho p f cf gsize ir phys g)" "tb_valid g (back_block ho ir host offs cb t) = tb_valid g t"
  by (simp_all add: tb_valid_def front_block_def back_block_def tb_new_def)

lemma overflow_rewinds:
  assumes "code_prefix_kept (cb\<lparr>cb_jmp_trans := v\<rparr>) cb1" and "cb_offset cb \<le> capacity cb"
  obtains cb2 where "set_offset (cb1\<lparr>cb_jmp_trans := False\<rparr>) (cb_offset cb) = Some cb2" "code_extends cb cb2"
    "cb_offset cb2 = cb_offset cb"
proof
  let ?cb2 = "cb1\<lparr>cb_jmp_trans := False, cb_offset := cb_offset cb\<rparr>"
  have cap: "capacity cb1 = capacity cb"
    using assms(1) by (simp add: code_prefix_kept_def capacity_def)
  then show "set_offset (cb1\<lparr>cb_jmp_trans := False\<rparr>) (cb_offset cb) = Some ?cb2"
    using assms(2) by (simp add: set_offset_def capacity_def)
  have "jump_target ?cb2 off = jump_target cb off" if "off + 5 \<le> cb_offset cb" for off
    using jump_target_prefix [OF assms(1), of off] that by (simp add: jump_target_def cb_read_u32_def)
  then show "code_extends cb ?cb2"
    using cap assms(2) by (simp add: code_extends_def capacity_def)
qed simp

lemma attempt_overflow_ok:
  assumes ok: "exec_ok st" and kept: "code_prefix_kept ((es_cb st)\<lparr>cb_jmp_trans := v\<rparr>) cb1"
    and t: "t = front_block ho p f cf gsize ir phys (ts_global_gen (es_store st))"
    and st': "st' = st\<lparr>es_store := add_block (es_store st) False t, es_cb := cb1\<rparr>"
  obtains cb where "set_offset ((es_cb st')\<lparr>cb_jmp_trans := False\<rparr>) (cb_offset (es_cb st)) = Some cb"
    "exec_ok (st'\<lparr>es_cb := cb\<rparr>)" "cb_offset cb = cb_offset (es_cb st)"
proof -
  note okp = exec_ok_parts [OF ok]
  obtain cb where cb: "set_offset (cb1\<lparr>cb_jmp_trans := False\<rparr>) (cb_offset (es_cb st)) = Some cb"
      "code_extends (es_cb st) cb" "cb_offset cb = cb_offset (es_cb st)"
    using overflow_rewinds [OF kept okp(5)] by blast
  have fr: "fresh_code (es_cb st) cb t" and v: "tb_valid (ts_global_gen (es_store st)) t"
    by (simp_all add: t fresh_code_front)
  have "exec_ok (st'\<lparr>es_cb := cb\<rparr>)"
    using add_block_ok [OF okp(1,2) cb(2) fr v, of False] okp(3) cache_in_store_grow [OF okp(4)]
    by (simp add: exec_ok_def st')
  then show ?thesis
    using that cb by (simp add: st')
qed

lemma attempt_block_ok:
  assumes ok: "exec_ok st" and e: "emitted_ok ((es_cb st)\<lparr>cb_jmp_trans := v\<rparr>) host offs cb1"
    and b: "b = back_block ho ir host offs cb1 (front_block ho p f cf gsize ir phys (ts_global_gen (es_store st)))"
  shows "store_ok (add_block (es_store st) ins b) (cb1\<lparr>cb_jmp_trans := False\<rparr>)" "counts_ok (add_block (es_store st) ins b)"
    "found (add_block (es_store st) ins b) (length (ts_tbs (es_store st))) p f phys"
proof -
  note okp = exec_ok_parts [OF ok]
  let ?cb = "(es_cb st)\<lparr>cb_jmp_trans := v\<rparr>" and ?cb' = "cb1\<lparr>cb_jmp_trans := False\<rparr>"
  have kept: "code_prefix_kept ?cb cb1" "cb_offset ?cb \<le> cb_offset cb1" "cb_offset cb1 \<le> capacity ?cb"
    using e by (simp_all add: emitted_ok_def)
  have "code_extends ?cb cb1"
    using kept jump_target_prefix [OF kept(1)] by (simp add: code_extends_def code_prefix_kept_def)
  then have ext: "code_extends (es_cb st) ?cb'"
    by (simp add: code_extends_flag)
  have "fresh_code ?cb cb1 b"
    unfolding b by (rule fresh_code_back [OF e]) (use okp(6) in \<open>simp add: capacity_def\<close>)
  then have fr: "fresh_code (es_cb st) ?cb' b"
    by (simp add: fresh_code_def jump_target_def cb_read_u32_def)
  have v: "tb_valid (ts_global_gen (es_store st)) b"
    by (simp add: b)
  show "store_ok (add_block (es_store st) ins b) ?cb'" "counts_ok (add_block (es_store st) ins b)"
    using add_block_ok [OF okp(1,2) ext fr v] by blast+
  show "found (add_block (es_store st) ins b) (length (ts_tbs (es_store st))) p f phys"
    using add_block_live [OF v] by (simp add: found_def b back_block_def front_block_def tb_new_def)
qed

lemma gen_attempt_ok:
  assumes ok: "exec_ok st" and tr: "translator_ok ho"
  obtains (no_block) st' c' where "gen_attempt go ho st c p f cf n = Some (NoBlock, st', c')" "exec_ok st'"
      "grown (es_store st) (es_store st')"
  | (overflow) st' c' cb where "gen_attempt go ho st c p f cf n = Some (Overflow, st', c')"
      "set_offset ((es_cb st')\<lparr>cb_jmp_trans := False\<rparr>) (cb_offset (es_cb st)) = Some cb" "exec_ok (st'\<lparr>es_cb := cb\<rparr>)"
      "cb_offset cb = cb_offset (es_cb st)" "grown (es_store st) (es_store st')"
  | (block) i st' c' where "gen_attempt go ho st c p f cf n = Some (Block i, st', c')" "exec_ok st'"
      "found (es_store st') i p f (gc_last_phys_pc go c')" "grown (es_store st) (es_store st')"
proof (cases "length (ts_tbs (es_store st)) < MAX_TBS")
  case False
  then have "gen_attempt go ho st c p f cf n = Some (NoBlock, st, c)"
    by (simp add: gen_attempt_def ts_alloc_def Let_def)
  then show ?thesis
    using no_block ok by simp
next
  case alloc: True
  let ?s = "es_store st" and ?cb = "(es_cb st)\<lparr>cb_jmp_trans := True\<rparr>"
  note okp = exec_ok_parts [OF ok]
  obtain gsize ir c1 where gen: "gc_gen_code go c (of_nat (length (ts_tbs ?s))) p n = (gsize, ir, c1)"
    by (metis prod_cases3)
  let ?t = "front_block ho p f cf gsize ir (gc_last_phys_pc go c1) (ts_global_gen ?s)"
  have "case ho_translate ho ir ?cb of Inl cb' \<Rightarrow> code_prefix_kept ?cb cb' | Inr (host, offs, cb') \<Rightarrow> emitted_ok ?cb host offs cb'"
    using tr okp(5) by (simp add: translator_ok_def capacity_def)
  then consider "gsize = 0" | cb1 where "gsize \<noteq> 0" "ho_translate ho ir ?cb = Inl cb1" "code_prefix_kept ?cb cb1"
    | host offs cb1 where "gsize \<noteq> 0" "ho_translate ho ir ?cb = Inr (host, offs, cb1)" "emitted_ok ?cb host offs cb1"
    by (cases "ho_translate ho ir ?cb") auto
  then show ?thesis
  proof cases
    case 1
    let ?d = "?s\<lparr>ts_tbs := ts_tbs ?s @ [(tb_new p f cf)\<lparr>tb_invalid := True\<rparr>]\<rparr>"
    have "gen_attempt go ho st c p f cf n = Some (NoBlock, st\<lparr>es_store := ?d\<rparr>, c1)"
      using gen alloc 1 by (intro gen_attempt_refused) simp_all
    moreover have "exec_ok (st\<lparr>es_store := ?d\<rparr>)"
      using add_dead_block_ok [OF okp(1,2), of "(tb_new p f cf)\<lparr>tb_invalid := True\<rparr>"] okp(3)
        cache_in_store_grow [OF okp(4), of ?d] by (simp add: exec_ok_def tb_new_def)
    ultimately show ?thesis
      by (rule no_block) (simp add: grown_append)
  next
    case 2
    let ?st' = "st\<lparr>es_store := add_block ?s False ?t, es_cb := cb1\<rparr>"
    obtain cb where "set_offset ((es_cb ?st')\<lparr>cb_jmp_trans := False\<rparr>) (cb_offset (es_cb st)) = Some cb"
      "exec_ok (?st'\<lparr>es_cb := cb\<rparr>)" "cb_offset cb = cb_offset (es_cb st)"
      by (rule attempt_overflow_ok [OF ok 2(3) refl refl])
    then show ?thesis
      by (rule overflow [OF gen_attempt_front [OF alloc gen 2(1) refl 2(2)]]) (simp add: grown_add_block)
  next
    case 3
    have len: "length offs = 2"
      using 3(3) by (simp add: emitted_ok_def)
    show ?thesis
      by (rule block, rule gen_attempt_back [OF alloc gen 3(1) refl 3(2) len refl])
         (use attempt_block_ok [OF ok 3(3) refl] okp(3) cache_in_store_grow [OF okp(4)] in
          \<open>auto simp: exec_ok_def grown_add_block jc_ok_insert intro!: cache_in_store_insert\<close>)
  qed
qed

text \<open>
  The loop of attempts. A request of the normal path is retried with half the instructions until
  one is left; a single-step request is for one instruction and is not retried.
\<close>

lemma half_smaller: "max (n div 2) 1 \<noteq> 1 \<Longrightarrow> unat (max (n div 2) 1) < unat n" for n :: u32
proof -
  assume a: "max (n div 2) 1 \<noteq> 1"
  then have m: "max (n div 2) 1 = n div 2"
    by (metis max_def)
  have "unat (n div 2) \<noteq> 0"
    using a m by (metis max.commute max_0R max_def unat_eq_zero word_zero_le)
  then have "unat n \<noteq> 0"
    by (simp add: unat_div)
  then show ?thesis
    using m by (simp add: unat_div)
qed

lemma gen_loop_ok:
  assumes "exec_ok st" and tr: "translator_ok ho" and "cb_offset (es_cb st) = saved"
    and "cf \<noteq> 0 \<Longrightarrow> orig_max = 1 \<and> cur_max = 1"
  shows "\<exists>r st' c'. gen_loop go ho p f cf orig_max saved cur_max st c = Some (r, st', c') \<and> exec_ok st'
    \<and> grown (es_store st) (es_store st') \<and> (\<forall>i. r = Some i \<longrightarrow> found (es_store st') i p f (gc_last_phys_pc go c'))"
  using assms
proof (induction "unat cur_max" arbitrary: cur_max st c rule: less_induct)
  case less
  from less.prems(1) tr show ?case
  proof (cases rule: gen_attempt_ok [of st ho go c p f cf cur_max])
    case (no_block st' c')
    then show ?thesis
      by (subst gen_loop.simps) simp
  next
    case (block i st' c')
    then show ?thesis
      by (subst gen_loop.simps) simp
  next
    case (overflow st1 c1 cb)
    let ?next = "max (cur_max div 2) 1" and ?st2 = "st1\<lparr>es_cb := cb\<rparr>"
    have g2: "grown (es_store st) (es_store ?st2)"
      using overflow(5) by simp
    show ?thesis
    proof (cases "?next = 1")
      case True
      then show ?thesis
        using overflow less.prems(3,4) by (subst gen_loop.simps) (simp add: Let_def)
    next
      case False
      moreover have "max ((1 :: u32) div 2) 1 = 1"
        by (simp add: div_word_less max_def)
      ultimately have "cf = 0"
        using less.prems(4) by metis
      obtain r st' c' where r: "gen_loop go ho p f cf orig_max saved ?next ?st2 c1 = Some (r, st', c')" "exec_ok st'"
        "grown (es_store ?st2) (es_store st')" "\<forall>i. r = Some i \<longrightarrow> found (es_store st') i p f (gc_last_phys_pc go c')"
        using less.hyps [OF half_smaller [OF False] overflow(3) tr, of c1] overflow(4) less.prems(3) \<open>cf = 0\<close> by auto
      show ?thesis
        using False \<open>cf = 0\<close> overflow(1,2) less.prems(3) r grown_trans [OF g2 r(3)]
        by (subst gen_loop.simps) (simp add: Let_def)
    qed
  qed
qed

section \<open>Looking up a block\<close>

lemma ts_lookup_list:
  assumes "hash_list s (tb_hash p f) xs"
  shows "ts_lookup s p f = Some (find (\<lambda>i. tb_valid (ts_global_gen s) (ts_tbs s ! i) \<and> tb_pc (ts_tbs s ! i) = p
    \<and> tb_flags (ts_tbs s ! i) = f) xs)"
  unfolding ts_lookup_def by (rule lookup_walk_chain) (use assms in \<open>auto simp: hash_list_def\<close>)

lemma ts_lookup_ok:
  assumes "store_ok s cb"
  obtains r where "ts_lookup s p f = Some r" "\<And>i. r = Some i \<Longrightarrow> found s i p f (tb_phys_pc (ts_tbs s ! i))"
proof -
  obtain xs where xs: "hash_list s (tb_hash p f) xs"
    using assms unfolding store_ok_def lists_ok_def by blast
  show ?thesis
    by (rule that [OF ts_lookup_list [OF xs]])
       (use xs in \<open>auto simp: find_Some_iff hash_list_def found_def live_def dest!: nth_mem\<close>)
qed

lemma jc_lookup_in_store:
  assumes "jc_ok jc" and "cache_in_store jc s" and "jc_lookup jc p = Some i"
  shows "i < length (ts_tbs s)"
proof -
  have "jc_entries jc ! jc_index p \<in> set (jc_entries jc)"
    using assms(1) jc_index_bound [of p] by (simp add: jc_ok_def)
  then show ?thesis
    using assms(2,3) by (auto simp: cache_in_store_def jc_lookup_def Let_def split: if_splits)
qed

lemma exec_ok_stats [simp]: "exec_ok (st\<lparr>es_stats := x\<rparr>) = exec_ok st"
  by (simp add: exec_ok_def)

lemma exec_ok_jc_insert: "exec_ok st \<Longrightarrow> i < length (ts_tbs (es_store st)) \<Longrightarrow> exec_ok (st\<lparr>es_jc := jc_insert (es_jc st) p i\<rparr>)"
  by (simp add: exec_ok_def jc_ok_insert cache_in_store_insert)

text \<open>
  What a request for a block delivers: when it returns a block, that is live, has the pc and the
  flags, and its physical address is the one the pc has now or the one the front end just used.
\<close>

definition delivers :: "('c, 'ir) guest_ops \<Rightarrow> exec_state \<Rightarrow> 'c \<Rightarrow> u64 \<Rightarrow> u32 \<Rightarrow> (nat option \<times> exec_state \<times> 'c) option \<Rightarrow>
    bool" where
  "delivers go st c p f res \<longleftrightarrow> (\<exists>r st' c'. res = Some (r, st', c') \<and> exec_ok st' \<and> grown (es_store st) (es_store st')
     \<and> (\<forall>i. r = Some i \<longrightarrow> (c' = c \<and> gc_translate_pc go c p \<noteq> - 1 \<and> found (es_store st') i p f (gc_translate_pc go c p))
          \<or> found (es_store st') i p f (gc_last_phys_pc go c')))"

lemma tb_gen_code_delivers:
  assumes ok: "exec_ok st" and tr: "translator_ok ho" and cf: "cf = 0 \<or> max_insns cf = 1"
  shows "delivers go st c p f (tb_gen_code go ho st c p f cf)"
proof (cases "remaining (es_cb st) < MIN_CODE_BUF_REMAINING")
  case True
  then show ?thesis
    using ok by (simp add: tb_gen_code_def delivers_def)
next
  case False
  have "delivers go st c p f (gen_loop go ho p f cf (max_insns cf) (cb_offset (es_cb st)) (max_insns cf) st c)"
    using gen_loop_ok [OF ok tr refl, of cf "max_insns cf" "max_insns cf" go p f c] cf unfolding delivers_def by fastforce
  moreover obtain r where r: "(if cf \<noteq> 0 then Some None else ts_lookup (es_store st) p f) = Some r"
      "\<And>i. r = Some i \<Longrightarrow> found (es_store st) i p f (tb_phys_pc (ts_tbs (es_store st) ! i))"
  proof (cases "cf = 0")
    case True
    then show ?thesis
      using that ts_lookup_ok [OF exec_ok_parts(1) [OF ok], of p f] by auto
  qed (use that in simp)
  moreover have "exec_ok (st\<lparr>es_jc := jc_insert (es_jc st) p i\<rparr>)" if "r = Some i" for i
    using r(2) [OF that] by (intro exec_ok_jc_insert ok) (simp add: found_def live_def)
  ultimately show ?thesis
    using False ok r(2) by (auto simp: tb_gen_code_def delivers_def Let_def split: option.split)
qed

lemma delivers_stats: "delivers go (st\<lparr>es_stats := x\<rparr>) c p f res = delivers go st c p f res"
  by (simp add: delivers_def)

lemma tb_find_delivers:
  assumes ok: "exec_ok st" and tr: "translator_ok ho"
  shows "delivers go st c p f (tb_find go ho st c p f)"
proof -
  let ?phys = "gc_translate_pc go c p" and ?s = "es_store st"
  let ?st1 = "st\<lparr>es_stats := (es_stats st)\<lparr>st_translate := st_translate (es_stats st) + 1\<rparr>\<rparr>"
  have "delivers go ?st1 c p f (tb_gen_code go ho ?st1 c p f 0)"
    using ok by (intro tb_gen_code_delivers tr) simp_all
  then have gen: "delivers go st c p f (tb_gen_code go ho ?st1 c p f 0)"
    by (simp add: delivers_stats)
  show ?thesis
  proof (cases "?phys = - 1")
    case True
    then show ?thesis
      using gen by (simp add: tb_find_def)
  next
    case known: False
    have hit: "delivers go st c p f (Some (Some i, st\<lparr>es_stats := x\<rparr>, c))"
      "delivers go st c p f (Some (Some i, st\<lparr>es_jc := jc_insert (es_jc st) p i, es_stats := x\<rparr>, c))"
      if "found ?s i p f ?phys" for i x
    proof -
      have "i < length (ts_tbs ?s)"
        using that by (simp add: found_def live_def)
      then show "delivers go st c p f (Some (Some i, st\<lparr>es_stats := x\<rparr>, c))"
        "delivers go st c p f (Some (Some i, st\<lparr>es_jc := jc_insert (es_jc st) p i, es_stats := x\<rparr>, c))"
        using that known ok exec_ok_jc_insert [OF ok] exec_ok_stats [where st = "st\<lparr>es_jc := jc_insert (es_jc st) p i\<rparr>"]
        by (simp_all add: delivers_def)
    qed
    obtain k where k: "ts_lookup ?s p f = Some k" "\<And>i. k = Some i \<Longrightarrow> found ?s i p f (tb_phys_pc (ts_tbs ?s ! i))"
      using ts_lookup_ok [OF exec_ok_parts(1) [OF ok]] by blast
    have "ts_get ?s i = Some (ts_tbs ?s ! i)" if "jc_lookup (es_jc st) p = Some i" for i
      using jc_lookup_in_store [OF exec_ok_parts(3,4) [OF ok] that] by (simp add: ts_get_def)
    moreover have "found ?s i p f ?phys"
      if "jc_lookup (es_jc st) p = Some i" "tb_matches ?s (ts_tbs ?s ! i) p f" "tb_phys_pc (ts_tbs ?s ! i) = ?phys" for i
      using that jc_lookup_in_store [OF exec_ok_parts(3,4) [OF ok] that(1)]
      by (simp add: found_def live_def tb_matches_def tb_valid_def)
    ultimately show ?thesis
      using known gen hit k by (auto simp: tb_find_def Let_def split: option.split)
  qed
qed

end
