(* ===== verification/Tb_System.thy ===== *)
theory Tb_System
  imports Tb_Find
begin

text \<open>
  The block cache as a whole: chaining and flushing keep the invariant, every interleaving of the
  operations of the virtual CPUs does, and what follows for the execution of blocks.
\<close>

section \<open>Chaining\<close>

lemma store_ok_same_lists:
  assumes ok: "store_ok s cb" and tbs: "same_blocks (ts_tbs s) tbs'"
    and links: "\<And>j. j < length (ts_tbs s) \<Longrightarrow> hash_links tbs' j = hash_links (ts_tbs s) j \<and> page_links tbs' j = page_links (ts_tbs s) j"
  shows "live (s\<lparr>ts_tbs := tbs'\<rparr>) i = live s i" "on_page (s\<lparr>ts_tbs := tbs'\<rparr>) p = on_page s p"
    "lists_ok (s\<lparr>ts_tbs := tbs'\<rparr>)" "gens_ok (s\<lparr>ts_tbs := tbs'\<rparr>)"
proof -
  let ?s = "s\<lparr>ts_tbs := tbs'\<rparr>"
  have len: "length tbs' = length (ts_tbs s)"
    using tbs by (simp add: same_blocks_def)
  note f = same_blocks_fields [OF tbs]
  show lv: "live ?s i = live s i" for i
    using f(4,5) by (auto simp: live_def tb_valid_def len)
  show op: "on_page ?s p = on_page s p" for p
  proof -
    have "page_of (tbs' ! j) = page_of (ts_tbs s ! j)" if "live s j" for j
      using that f(3) by (simp add: live_def page_of_def)
    then show ?thesis
      by (auto simp: on_page_def lv)
  qed
  have "hash_list ?s b xs" if "hash_list s b xs" for b xs
    using that by (rule hash_list_cong) (use that links f(1,2) in \<open>auto simp: len hash_list_def\<close>)
  moreover have "page_list ?s q xs" if "page_list s q xs" for q xs
    using that by (rule page_list_cong) (use that links f(3) in \<open>auto simp: len page_list_def\<close>)
  ultimately show "lists_ok ?s"
    using ok unfolding store_ok_def lists_ok_def op by blast
  show "gens_ok ?s"
    using ok f(4) len by (fastforce simp: store_ok_def gens_ok_def in_set_conv_nth)
qed

text \<open>The blocks and the buffer once a jump is patched.\<close>

definition chained_to :: "nat \<Rightarrow> nat \<Rightarrow> nat \<Rightarrow> translation_block list \<Rightarrow> translation_block list" where
  "chained_to src slot dst tbs = upd_tb (\<lambda>t. t\<lparr>tb_jmp_list := tb_jmp_list t @ [(src, slot)]\<rparr>) dst
     (upd_tb (\<lambda>t. t\<lparr>tb_jmp_dest := (tb_jmp_dest t)[slot := Some dst]\<rparr>) src tbs)"

lemma chained_to_nth:
  assumes "src < length tbs" and "dst < length tbs"
  shows "chained_to src slot dst tbs ! j = (tbs ! j)
    \<lparr>tb_jmp_dest := if j = src then (tb_jmp_dest (tbs ! j))[slot := Some dst] else tb_jmp_dest (tbs ! j),
     tb_jmp_list := if j = dst then tb_jmp_list (tbs ! j) @ [(src, slot)] else tb_jmp_list (tbs ! j)\<rparr>"
  using assms by (simp add: chained_to_def upd_tb_nth)

lemma chained_to_length [simp]: "length (chained_to src slot dst tbs) = length tbs"
  by (simp add: chained_to_def)

lemma chained_to_dest:
  assumes "edges_ok tbs" and "src < length tbs" and "dst < length tbs" and "j < length tbs" and "slot' < 2" and "slot < 2"
  shows "dest (chained_to src slot dst tbs) j slot' = (if (j, slot') = (src, slot) then Some dst else dest tbs j slot')"
proof -
  have "length (tb_jmp_dest (tbs ! j)) = 2"
    using assms by (simp add: edges_ok_def)
  then show ?thesis
    using assms by (auto simp: chained_to_nth nth_list_update)
qed

lemma chained_to_edges:
  assumes ok: "edges_ok tbs" and i: "src < length tbs" "dst < length tbs" "slot < 2"
  shows "edges_ok (chained_to src slot dst tbs)"
  unfolding edges_ok_def chained_to_length
proof (intro allI impI conjI)
  fix j
  assume j: "j < length tbs"
  then have old: "length (tb_jmp_dest (tbs ! j)) = 2"
      "\<forall>(s, n)\<in>set (tb_jmp_list (tbs ! j)). s < length tbs \<and> n < 2"
    using ok by (simp_all add: edges_ok_def)
  then show "length (tb_jmp_dest (chained_to src slot dst tbs ! j)) = 2"
    using i by (auto simp: chained_to_nth)
  show "\<forall>(s, n)\<in>set (tb_jmp_list (chained_to src slot dst tbs ! j)). s < length tbs \<and> n < 2"
    using old i by (auto simp: chained_to_nth)
  fix slot' d
  assume "slot' < 2" "dest (chained_to src slot dst tbs) j slot' = Some d"
  then have "(j, slot') = (src, slot) \<and> d = dst \<or> dest tbs j slot' = Some d"
    using chained_to_dest [OF ok i(1,2) j _ i(3)] by (auto split: if_splits)
  then show "d < length tbs" "(j, slot') \<in> set (tb_jmp_list (chained_to src slot dst tbs ! d))"
    using ok i j \<open>slot' < 2\<close> by (auto simp: chained_to_nth edges_ok_def)
qed

lemma chained_to_same_blocks:
  "src < length tbs \<Longrightarrow> dst < length tbs \<Longrightarrow> same_blocks tbs (chained_to src slot dst tbs)"
  by (simp add: same_blocks_def chained_to_nth)

lemma chained_to_jumps:
  assumes ok: "edges_ok tbs" "sites_ok tbs cb" "jumps_ok tbs cb" and i: "src < length tbs" "dst < length tbs" "slot < 2"
    and off: "site tbs src slot = Some off" and cb': "patch_jump cb (unat off) (tb_host_offset (tbs ! dst)) = Some cb'"
  shows "jumps_ok (chained_to src slot dst tbs) cb'"
  unfolding jumps_ok_def chained_to_length
proof (intro allI impI)
  fix j slot' off'
  let ?tbs = "chained_to src slot dst tbs"
  assume j: "j < length tbs" and v: "\<not> tb_invalid (?tbs ! j)" and s: "slot' < 2" and o: "site ?tbs j slot' = Some off'"
  have st: "site tbs j slot' = Some off'" "\<not> tb_invalid (tbs ! j)"
    using o v i by (simp_all add: chained_to_nth)
  show "jump_target cb' (unat off') = Some (case dest ?tbs j slot' of
      None \<Rightarrow> uint (the (stub ?tbs j slot')) | Some d \<Rightarrow> int (tb_host_offset (?tbs ! d)))"
  proof (cases "(j, slot') = (src, slot)")
    case True
    then show ?thesis
      using chained_to_dest [OF ok(1) i(1,2) j s i(3)] patch_jump_target [OF cb'] st off i by (simp add: chained_to_nth)
  next
    case False
    have "unat off + 5 \<le> unat off' \<or> unat off' + 5 \<le> unat off"
      using ok(2) i j s off st(1) False unfolding sites_ok_def sites_apart_def by metis
    then have "jump_target cb' (unat off') = jump_target cb (unat off')"
      using patch_jump_other [OF cb', of "unat off'"] by auto
    also have "\<dots> = Some (case dest tbs j slot' of
        None \<Rightarrow> uint (the (stub tbs j slot')) | Some d \<Rightarrow> int (tb_host_offset (tbs ! d)))"
      using ok(3) j s st by (simp add: jumps_ok_def)
    finally show ?thesis
      using False chained_to_dest [OF ok(1) i(1,2) j s i(3)] i by (auto simp: chained_to_nth split: option.split)
  qed
qed

lemma patched_state_ok:
  assumes ok: "exec_ok st" and i: "src < length (ts_tbs (es_store st))" "live (es_store st) dst" "slot < 2"
    and off: "site (ts_tbs (es_store st)) src slot = Some off"
  obtains cb' where "patch_jump (es_cb st) (unat off) (tb_host_offset (ts_tbs (es_store st) ! dst)) = Some cb'"
    "exec_ok (st\<lparr>es_store := (es_store st)\<lparr>ts_tbs := chained_to src slot dst (ts_tbs (es_store st))\<rparr>, es_cb := cb'\<rparr>)"
proof -
  let ?s = "es_store st" and ?tbs = "ts_tbs (es_store st)" and ?tbs' = "chained_to src slot dst (ts_tbs (es_store st))"
  note okp = exec_ok_parts [OF ok]
  have sok: "edges_ok ?tbs" "sites_ok ?tbs (es_cb st)" "jumps_ok ?tbs (es_cb st)" "chained_ok ?s"
    using okp(1) by (simp_all add: store_ok_def)
  have d: "dst < length ?tbs"
    using i(2) by (simp add: live_def)
  have "site_ok (cb_offset (es_cb st)) (?tbs ! src)" "site_ok (cb_offset (es_cb st)) (?tbs ! dst)"
    using sok(2) i d by (simp_all add: sites_ok_def)
  then have "unat off + 5 \<le> capacity (es_cb st)" "tb_host_offset (?tbs ! dst) \<le> capacity (es_cb st)"
    using off i(3) okp(5) unfolding site_ok_def by (meson order_trans)+
  then obtain cb' where cb': "patch_jump (es_cb st) (unat off) (tb_host_offset (?tbs ! dst)) = Some cb'"
    using okp(6) by (rule patch_jump_defined)
  have sb: "same_blocks ?tbs ?tbs'"
    using i(1) d by (intro chained_to_same_blocks)
  have links: "hash_links ?tbs' j = hash_links ?tbs j \<and> page_links ?tbs' j = page_links ?tbs j" for j
    using i(1) d by (simp add: chained_to_nth)
  note lists = store_ok_same_lists [OF okp(1) sb links]
  have "live ?s e" if "live ?s j" "slot' < 2" "dest ?tbs' j slot' = Some e" for j slot' e
  proof -
    have "(j, slot') = (src, slot) \<and> e = dst \<or> dest ?tbs j slot' = Some e"
      using that chained_to_dest [OF sok(1) i(1) d _ that(2) i(3), of j] by (auto simp: live_def split: if_splits)
    then show ?thesis
      using that i(2) sok(4) unfolding chained_ok_def by auto
  qed
  then have "chained_ok (?s\<lparr>ts_tbs := ?tbs'\<rparr>)"
    unfolding chained_ok_def lists(1) by simp blast
  moreover have "sites_ok ?tbs' cb'"
    using sites_ok_same_blocks [OF sok(2) sb] patch_jump_frame [OF cb'] by simp
  ultimately show ?thesis
    using that [OF cb'] okp lists(2-4) chained_to_edges [OF sok(1) i(1) d i(3)]
      chained_to_jumps [OF sok(1-3) i(1) d i(3) off cb'] cache_in_store_grow [OF okp(4)]
    by (simp add: exec_ok_def store_ok_def counts_ok_def)
qed

lemma tb_add_jump_ok:
  assumes ok: "exec_ok st" and i: "src < length (ts_tbs (es_store st))" "dst < length (ts_tbs (es_store st))" "slot < 2"
  obtains st' where "tb_add_jump st src slot dst = Some st'" "exec_ok st'"
    "same_blocks (ts_tbs (es_store st)) (ts_tbs (es_store st'))" "ts_global_gen (es_store st') = ts_global_gen (es_store st)"
    "es_jc st' = es_jc st" "es_atomic_locked st' = es_atomic_locked st" "es_atomic_lock_held st' = es_atomic_lock_held st"
proof -
  let ?s = "es_store st" and ?tbs = "ts_tbs (es_store st)"
  have get: "ts_get ?s src = Some (?tbs ! src)" "ts_get ?s dst = Some (?tbs ! dst)"
    using i by (simp_all add: ts_get_def)
  consider "site ?tbs src slot = None \<or> \<not> live ?s dst"
    | off where "site ?tbs src slot = Some off" "live ?s dst" "dest ?tbs src slot = Some dst"
    | off where "site ?tbs src slot = Some off" "live ?s dst" "dest ?tbs src slot \<noteq> Some dst"
    by (cases "site ?tbs src slot") (blast, metis)
  then show ?thesis
  proof cases
    case 1
    then have "tb_add_jump st src slot dst = Some st"
      using i(2) by (auto simp: tb_add_jump_def get live_def tb_valid_def split: option.splits)
    then show ?thesis
      using ok by (rule that) simp_all
  next
    case (2 off)
    then have "tb_add_jump st src slot dst
        = Some (st\<lparr>es_stats := (es_stats st)\<lparr>chain_already := chain_already (es_stats st) + 1\<rparr>\<rparr>)"
      by (simp add: tb_add_jump_def get live_def tb_valid_def)
    then show ?thesis
      by (rule that) (simp_all add: ok)
  next
    case (3 off)
    obtain cb' where "patch_jump (es_cb st) (unat off) (tb_host_offset (?tbs ! dst)) = Some cb'"
      "exec_ok (st\<lparr>es_store := ?s\<lparr>ts_tbs := chained_to src slot dst ?tbs\<rparr>, es_cb := cb'\<rparr>)"
      by (rule patched_state_ok [OF ok i(1) 3(2) i(3) 3(1)])
    with 3 show ?thesis
      using i(1,2)
      by (intro that [of "st\<lparr>es_store := ?s\<lparr>ts_tbs := chained_to src slot dst ?tbs\<rparr>, es_cb := cb',
            es_stats := (es_stats st)\<lparr>chain_patched := chain_patched (es_stats st) + 1\<rparr>\<rparr>"])
         (simp_all add: tb_add_jump_def get live_def tb_valid_def chained_to_def [symmetric] chained_to_same_blocks exec_ok_def)
  qed
qed

section \<open>Flushing\<close>

text \<open>What a flush leaves: the blocks of the store with some of them dead.\<close>

definition flushed :: "nat set \<Rightarrow> exec_state \<Rightarrow> exec_state \<Rightarrow> bool" where
  "flushed D st st' \<longleftrightarrow> exec_ok st' \<and> length (ts_tbs (es_store st')) = length (ts_tbs (es_store st))
     \<and> (\<forall>i<length (ts_tbs (es_store st)). tb_pc (ts_tbs (es_store st') ! i) = tb_pc (ts_tbs (es_store st) ! i)
          \<and> tb_flags (ts_tbs (es_store st') ! i) = tb_flags (ts_tbs (es_store st) ! i)
          \<and> tb_phys_pc (ts_tbs (es_store st') ! i) = tb_phys_pc (ts_tbs (es_store st) ! i)
          \<and> tb_exit_target (ts_tbs (es_store st') ! i) = tb_exit_target (ts_tbs (es_store st) ! i))
     \<and> (\<forall>i. live (es_store st') i \<longleftrightarrow> live (es_store st) i \<and> i \<notin> D)
     \<and> ts_global_gen (es_store st') = ts_global_gen (es_store st) \<and> es_jc st' = es_jc st
     \<and> es_stats st' = es_stats st \<and> es_atomic_locked st' = es_atomic_locked st
     \<and> es_atomic_lock_held st' = es_atomic_lock_held st"

lemma flushed_refl: "exec_ok st \<Longrightarrow> flushed {} st st"
  by (simp add: flushed_def)

lemma flushed_trans: "flushed D st st1 \<Longrightarrow> flushed E st1 st2 \<Longrightarrow> flushed (D \<union> E) st st2"
  by (auto simp: flushed_def)

lemma flushed_cong: "flushed D st st' \<Longrightarrow> (\<And>i. live (es_store st) i \<Longrightarrow> i \<in> D \<longleftrightarrow> i \<in> E) \<Longrightarrow> flushed E st st'"
  by (auto simp: flushed_def)

text \<open>The blocks on some pages, as far as the store tracks pages.\<close>

definition on_pages :: "tb_store \<Rightarrow> u64 list \<Rightarrow> nat set" where
  "on_pages s pgs = {i. i < length (ts_tbs s) \<and> tracked (ts_tbs s ! i) \<and> page_of (ts_tbs s ! i) \<in> unat ` set pgs}"

lemma flushed_on_pages: "flushed D st st' \<Longrightarrow> on_pages (es_store st') pgs = on_pages (es_store st) pgs"
  by (auto simp: flushed_def on_pages_def page_of_def tracked_def)

lemma invalidate_page_flushed:
  assumes ok: "exec_ok st"
  obtains s cb where "invalidate_phys_page (es_store st) (es_cb st) pg = Some (s, cb)"
    "flushed (on_pages (es_store st) [pg]) st (st\<lparr>es_store := s, es_cb := cb\<rparr>)"
proof (cases "unat pg < CODE_REFCOUNT_PAGES")
  case True
  note okp = exec_ok_parts [OF ok]
  obtain s cb where r: "invalidate_phys_page (es_store st) (es_cb st) pg = Some (s, cb)" "store_ok s cb"
      "dropped (on_page (es_store st) (unat pg)) (es_store st) s"
    by (rule invalidate_phys_page_ok [OF okp(1) True])
  have "counts_ok s"
    by (rule counts_ok_dropped_page [OF okp(2) r(3) True])
  moreover have "length (ts_tbs s) = length (ts_tbs (es_store st))"
    using r(3) by (simp add: dropped_def)
  ultimately have "flushed (on_page (es_store st) (unat pg)) st (st\<lparr>es_store := s, es_cb := cb\<rparr>)"
    using r(2,3) okp(3) cache_in_store_grow [OF okp(4), of s] by (simp add: flushed_def exec_ok_def dropped_def)
  then show ?thesis
    by (rule that [OF r(1) flushed_cong]) (use True in \<open>auto simp: on_page_def on_pages_def tracked_def live_def\<close>)
next
  case False
  then have "on_pages (es_store st) [pg] = {}"
    by (auto simp: on_pages_def tracked_def)
  then show ?thesis
    using False that flushed_refl [OF ok] by (simp add: invalidate_phys_page_def)
qed

lemma not_code_page_empty:
  assumes ok: "exec_ok st" and n: "\<not> is_code_page (es_store st) pg"
  shows "\<not> (live (es_store st) i \<and> i \<in> on_pages (es_store st) [pg])"
proof
  assume i: "live (es_store st) i \<and> i \<in> on_pages (es_store st) [pg]"
  then have pg: "unat pg < CODE_REFCOUNT_PAGES" and m: "i \<in> on_page (es_store st) (unat pg)"
    by (auto simp: on_pages_def tracked_def on_page_def)
  have "min 255 (card (on_page (es_store st) (unat pg))) = unat (ts_code_pages (es_store st) (unat pg))"
    using exec_ok_parts(2) [OF ok] pg by (simp add: counts_ok_def)
  also have "\<dots> = 0"
    using n pg by (simp add: is_code_page_def Let_def word_gt_0)
  finally have "on_page (es_store st) (unat pg) = {}"
    by (simp add: min_def split: if_splits)
  then show False
    using m by blast
qed

lemma invalidate_pages_flushed:
  assumes "exec_ok st" and sel: "sel = is_code_page \<or> sel = (\<lambda>_ _. True)"
  obtains st' where "invalidate_pages sel st pgs = Some st'" "flushed (on_pages (es_store st) pgs) st st'"
  using assms(1)
proof (induction pgs arbitrary: st thesis)
  case Nil
  then show ?case
    using flushed_refl [OF Nil.prems(2)] by (simp add: on_pages_def)
next
  case (Cons pg pgs)
  note prems = Cons.prems
  obtain st1 where st1: "invalidate_pages sel st (pg # pgs) = invalidate_pages sel st1 pgs"
      "flushed (on_pages (es_store st) [pg]) st st1"
  proof (cases "sel (es_store st) pg")
    case True
    obtain s cb where "invalidate_phys_page (es_store st) (es_cb st) pg = Some (s, cb)"
        "flushed (on_pages (es_store st) [pg]) st (st\<lparr>es_store := s, es_cb := cb\<rparr>)"
      by (rule invalidate_page_flushed [OF prems(2)])
    with True show ?thesis
      by (intro that [of "st\<lparr>es_store := s, es_cb := cb\<rparr>"]) simp_all
  next
    case False
    then have "\<not> is_code_page (es_store st) pg"
      using sel by auto
    then have "flushed (on_pages (es_store st) [pg]) st st"
      using not_code_page_empty [OF prems(2)] flushed_refl [OF prems(2)] by (blast intro: flushed_cong)
    then show ?thesis
      using that False by simp
  qed
  obtain st' where st': "invalidate_pages sel st1 pgs = Some st'" "flushed (on_pages (es_store st1) pgs) st1 st'"
    by (rule Cons.IH) (rule that, assumption+, use st1(2) in \<open>simp add: flushed_def\<close>)
  have "flushed (on_pages (es_store st) [pg] \<union> on_pages (es_store st) pgs) st st'"
    using flushed_trans [OF st1(2) st'(2)] flushed_on_pages [OF st1(2)] by simp
  moreover have "on_pages (es_store st) [pg] \<union> on_pages (es_store st) pgs = on_pages (es_store st) (pg # pgs)"
    by (auto simp: on_pages_def)
  ultimately show ?case
    using prems(1) st1(1) st'(1) by simp
qed

end
