(* ===== verification/Exec_Loop_Invariant.thy ===== *)
theory Exec_Loop_Invariant
  imports Exec_Loop Tb_System
begin

text \<open>
  Correctness of the dispatch loop: it never panics, keeps the invariant of the blocks, frees the
  lock of atomic blocks on every path and runs only live blocks. For a guest CPU that no debugger
  disturbs, the block it runs is one for the pc and flags of that CPU.
\<close>

section \<open>Guest CPUs that no debugger disturbs\<close>

text \<open>
  What the loop relies on: the CPU is not single-stepped, its pc and flags stay as they are when the loop
  sets the exit request, polls for the end or pauses, a code generation that succeeds leaves no
  latched fault, and a check for faults that finds none changes nothing.
\<close>

locale undisturbed_guest =
  fixes gp :: "('c, 'ir) guest_cpu"
  assumes no_step: "\<not> gp_gdb_single_step gp c"
    and set_request: "gp_get_pc gp (gp_set_exit_request gp c) = gp_get_pc gp c"
      "gp_get_flags gp (gp_set_exit_request gp c) = gp_get_flags gp c"
    and reset_request: "gp_get_pc gp (gp_reset_exit_request gp c) = gp_get_pc gp c"
      "gp_get_flags gp (gp_reset_exit_request gp c) = gp_get_flags gp c"
    and should_exit_keeps: "gp_get_pc gp (snd (gp_should_exit gp c)) = gp_get_pc gp c"
      "gp_get_flags gp (snd (gp_should_exit gp c)) = gp_get_flags gp c"
    and pause_keeps: "gp_get_pc gp (snd (gp_check_monitor_pause gp c)) = gp_get_pc gp c"
      "gp_get_flags gp (snd (gp_check_monitor_pause gp c)) = gp_get_flags gp c"
    and breakpoint_keeps: "gp_get_pc gp (snd (gp_gdb_check_breakpoint gp c p)) = gp_get_pc gp c"
      "gp_get_flags gp (snd (gp_gdb_check_breakpoint gp c p)) = gp_get_flags gp c"
    and no_fault: "\<not> fst (gp_check_mem_fault gp c) \<Longrightarrow> snd (gp_check_mem_fault gp c) = c"
    and flush_keeps_fault: "fst (gp_check_mem_fault gp (snd (gp_take_tb_flush_pending gp c))) = fst (gp_check_mem_fault gp c)"
    and gen_code_keeps: "gc_gen_code (gp_ops gp) c i p m = (n, ir, c') \<Longrightarrow> n \<noteq> 0 \<Longrightarrow>
      gp_get_pc gp c' = gp_get_pc gp c \<and> gp_get_flags gp c' = gp_get_flags gp c \<and> \<not> fst (gp_check_mem_fault gp c')"

text \<open>
  A property of the CPU that successful code generation keeps, holds after a request for a block
  that returns one.
\<close>

definition kept_by_gen :: "('c, 'ir) guest_ops \<Rightarrow> ('c \<Rightarrow> bool) \<Rightarrow> bool" where
  "kept_by_gen go Q \<longleftrightarrow> (\<forall>c i p m n ir c'. Q c \<and> gc_gen_code go c i p m = (n, ir, c') \<and> n \<noteq> 0 \<longrightarrow> Q c')"

lemma gen_attempt_keeps:
  assumes "kept_by_gen go Q" and "gen_attempt go ho st c p f cf cm = Some (res, st1, c1)" and "res \<noteq> NoBlock" and "Q c"
  shows "Q c1"
proof -
  obtain idx s1 n ir c2 where a: "ts_alloc (es_store st) p f cf = Some (idx, s1)"
      "gc_gen_code go c (of_nat idx) p cm = (n, ir, c2)"
    using assms(2,3) by (cases "ts_alloc (es_store st) p f cf"; cases "gc_gen_code go c (of_nat (fst (the (ts_alloc (es_store st) p f cf)))) p cm")
      (auto simp: gen_attempt_def)
  have "n \<noteq> 0" "c1 = c2"
    using assms(2,3) a
    by (auto simp: gen_attempt_def Let_def split: option.splits if_splits Option.bind_splits sum.splits)
  then show ?thesis
    using assms(1,4) a(2) unfolding kept_by_gen_def by blast
qed

lemma gen_loop_keeps:
  assumes "gen_loop go ho p f cf om so cm st c = Some y" and "kept_by_gen go Q" and "fst y \<noteq> None" and "Q c"
  shows "Q (snd (snd y))"
  using assms(2-)
proof (induction rule: gen_loop.raw_induct [OF _ assms(1)])
  case (1 gl go ho p f cf om so cm st c y)
  obtain r st1 c1 where a: "gen_attempt go ho st c p f cf cm = Some (r, st1, c1)"
    using 1(2) by (auto split: Option.bind_splits)
  show ?case
  proof (cases r)
    case Overflow
    then show ?thesis
      using 1 a gen_attempt_keeps [OF 1(3) a] by (auto simp: Let_def split: Option.bind_splits if_splits)
  qed (use 1 a gen_attempt_keeps [OF 1(3) a] in auto)
qed

lemma tb_gen_code_keeps:
  assumes "tb_gen_code go ho st c p f cf = Some (Some i, st', c')" and "kept_by_gen go Q" and "Q c"
  shows "Q c'"
  using assms gen_loop_keeps [of go ho p f cf _ _ _ st c "(Some i, st', c')" Q]
  by (auto simp: tb_gen_code_def Let_def split: if_splits Option.bind_splits option.splits)

lemma tb_find_keeps:
  assumes "tb_find go ho st c p f = Some (Some i, st', c')" and "kept_by_gen go Q" and "Q c"
  shows "Q c'"
  using assms tb_gen_code_keeps [of go ho _ c p f 0 i st' c' Q]
  by (auto simp: tb_find_def Let_def split: if_splits Option.bind_splits option.splits)

section \<open>What requests for blocks leave alone\<close>

definition exit_targets :: "tb_store \<Rightarrow> nat list" where
  "exit_targets s = map tb_exit_target (ts_tbs s)"

text \<open>New blocks have no exit target; the locks and the generation of the jump cache stay.\<close>

definition unmoved :: "exec_state \<Rightarrow> exec_state \<Rightarrow> bool" where
  "unmoved st st' \<longleftrightarrow> (\<exists>n. exit_targets (es_store st') = exit_targets (es_store st) @ replicate n EXIT_TARGET_NONE)
     \<and> jc_generation (es_jc st') = jc_generation (es_jc st)
     \<and> es_atomic_locked st' = es_atomic_locked st \<and> es_atomic_lock_held st' = es_atomic_lock_held st"

lemma unmoved_refl: "unmoved st st"
  unfolding unmoved_def by (intro conjI exI [of _ 0]) simp_all

lemma unmoved_trans: "unmoved st st1 \<Longrightarrow> unmoved st1 st2 \<Longrightarrow> unmoved st st2"
  unfolding unmoved_def by (metis append.assoc replicate_add)

lemma exit_targets_get_mut:
  assumes "get_mut g i s = Some s'" and "tb_exit_target (g (ts_tbs s ! i)) = tb_exit_target (ts_tbs s ! i)"
  shows "exit_targets s' = exit_targets s"
proof -
  have "(map tb_exit_target (ts_tbs s))[i := tb_exit_target (ts_tbs s ! i)] = map tb_exit_target (ts_tbs s)"
    by (metis list_update_id map_update)
  then show ?thesis
    using assms by (auto simp: get_mut_def exit_targets_def upd_tb_def map_update split: if_splits)
qed

lemma exit_targets_fields [simp]:
  "exit_targets (s\<lparr>ts_hash := h\<rparr>) = exit_targets s" "exit_targets (s\<lparr>ts_code_pages := p\<rparr>) = exit_targets s"
  "exit_targets (s\<lparr>ts_page_heads := q\<rparr>) = exit_targets s" "exit_targets (s\<lparr>ts_global_gen := g\<rparr>) = exit_targets s"
  by (simp_all add: exit_targets_def)

lemma exit_targets_mark: "mark_code_page s pg i = Some s' \<Longrightarrow> exit_targets s' = exit_targets s"
  by (auto simp: mark_code_page_def Let_def split: if_splits Option.bind_splits dest!: exit_targets_get_mut)

lemma exit_targets_insert: "ts_insert s i = Some s' \<Longrightarrow> exit_targets s' = exit_targets s"
  by (auto simp: ts_insert_def Let_def split: Option.bind_splits dest!: exit_targets_get_mut)

lemma exit_targets_alloc: "ts_alloc s p f cf = Some (i, s') \<Longrightarrow> exit_targets s' = exit_targets s @ [EXIT_TARGET_NONE]"
  by (auto simp: ts_alloc_def Let_def exit_targets_def tb_new_def split: if_splits)

lemma set_jmp_offsets_exit: "set_jmp_offsets tb os = Some tb' \<Longrightarrow> tb_exit_target tb' = tb_exit_target tb"
  by (induction tb os rule: set_jmp_offsets.induct)
     (auto simp: set_jmp_insn_offset_def set_jmp_reset_offset_def split: Option.bind_splits if_splits)

lemma unmovedI:
  assumes "exit_targets (es_store st') = exit_targets (es_store st) @ [EXIT_TARGET_NONE]"
    and "jc_generation (es_jc st') = jc_generation (es_jc st)" and "es_atomic_locked st' = es_atomic_locked st"
    and "es_atomic_lock_held st' = es_atomic_lock_held st"
  shows "unmoved st st'"
  unfolding unmoved_def using assms by (intro conjI exI [of _ 1]) simp_all

lemma jc_insert_generation [simp]: "jc_generation (jc_insert jc p i) = jc_generation jc"
  by (simp add: jc_insert_def)

lemma gen_attempt_unmoved:
  assumes "gen_attempt go ho st c p f cf cm = Some (res, st', c')"
  shows "unmoved st st'"
proof (cases "ts_alloc (es_store st) p f cf")
  case None
  then show ?thesis
    using assms by (simp add: gen_attempt_def unmoved_refl)
next
  case (Some x)
  obtain idx s1 where x: "x = (idx, s1)"
    by (cases x)
  note a = exit_targets_alloc [OF Some [unfolded x]]
  obtain n ir c1 where g: "gc_gen_code go c (of_nat idx) p cm = (n, ir, c1)"
    by (cases "gc_gen_code go c (of_nat idx) p cm")
  show ?thesis
  proof (cases "n = 0")
    case True
    then show ?thesis
      using assms a
      by (intro unmovedI) (auto simp: gen_attempt_def Some x g split: Option.bind_splits dest!: exit_targets_get_mut)
  next
    case False
    then show ?thesis
      using assms a
      by (intro unmovedI) (auto simp: gen_attempt_def Some x g Let_def split: Option.bind_splits sum.splits if_splits
          dest!: exit_targets_get_mut exit_targets_mark exit_targets_insert set_jmp_offsets_exit)
  qed
qed

lemma unmoved_cb [simp]:
  "unmoved st (st'\<lparr>es_cb := cb\<rparr>) = unmoved st st'" "unmoved (st\<lparr>es_cb := cb\<rparr>) st' = unmoved st st'"
  by (simp_all add: unmoved_def)

lemma unmoved_jc_insert [simp]: "unmoved st (st'\<lparr>es_jc := jc_insert (es_jc st') p i\<rparr>) = unmoved st st'"
  by (simp add: unmoved_def)

lemma unmoved_stats [simp]:
  "unmoved st (st'\<lparr>es_stats := x\<rparr>) = unmoved st st'" "unmoved (st\<lparr>es_stats := x\<rparr>) st' = unmoved st st'"
  by (simp_all add: unmoved_def)

lemma gen_loop_unmoved:
  assumes "gen_loop go ho p f cf om so cm st c = Some y"
  shows "unmoved st (fst (snd y))"
proof (induction rule: gen_loop.raw_induct [OF _ assms])
  case (1 gl go ho p f cf om so cm st c y)
  obtain r st1 c1 where a: "gen_attempt go ho st c p f cf cm = Some (r, st1, c1)"
    using 1(2) by (auto split: Option.bind_splits)
  note u = gen_attempt_unmoved [OF a]
  show ?case
  proof (cases r)
    case Overflow
    have IH: "unmoved st1 (fst (snd y))" if "gl go ho p f cf om so m (st1\<lparr>es_cb := cb\<rparr>) c1 = Some y" for m cb
      using 1(1) [OF that] by simp
    show ?thesis
      using Overflow 1(2) a u unmoved_trans [OF u IH]
      by (auto simp: Let_def split: Option.bind_splits if_splits)
  qed (use 1 a u in auto)
qed

lemma tb_gen_code_unmoved:
  assumes "tb_gen_code go ho st c p f cf = Some (r, st', c')"
  shows "unmoved st st'"
  using assms gen_loop_unmoved [of go ho p f cf _ _ _ st c "(r, st', c')"]
  by (auto simp: tb_gen_code_def Let_def unmoved_refl split: if_splits Option.bind_splits option.splits)

lemma tb_find_unmoved:
  assumes "tb_find go ho st c p f = Some (r, st', c')"
  shows "unmoved st st'"
proof -
  have "unmoved st st'" if "tb_gen_code go ho (st\<lparr>es_stats := x\<rparr>) c p f 0 = Some (r, st', c')" for x
    using tb_gen_code_unmoved [OF that] by simp
  moreover have "unmoved st (st\<lparr>es_jc := jc_insert (es_jc st) p i, es_stats := x\<rparr>)" for i x
    by (simp add: unmoved_def)
  ultimately show ?thesis
    using assms by (auto simp: tb_find_def Let_def unmoved_refl split: if_splits Option.bind_splits option.splits)
qed

section \<open>The invariant of the loop\<close>

definition exits_ok :: "tb_store \<Rightarrow> bool" where
  "exits_ok s \<longleftrightarrow> (\<forall>e\<in>set (exit_targets s). e = EXIT_TARGET_NONE \<or> e < length (ts_tbs s))"

text \<open>The blocks are in order, fewer than \<open>k\<close> flushes have happened, and the lock is free.\<close>

definition blocks_ok :: "nat \<Rightarrow> exec_state \<Rightarrow> bool" where
  "blocks_ok k st \<longleftrightarrow> exec_ok st \<and> exits_ok (es_store st) \<and> unat (ts_global_gen (es_store st)) \<le> k
     \<and> unat (jc_generation (es_jc st)) \<le> k"

definition lock_free :: "exec_state \<Rightarrow> bool" where
  "lock_free st \<longleftrightarrow> \<not> es_atomic_locked st \<and> \<not> es_atomic_lock_held st"

text \<open>A block for the pc and flags of a CPU.\<close>

definition current :: "('c, 'ir) guest_cpu \<Rightarrow> tb_store \<Rightarrow> 'c \<Rightarrow> nat \<Rightarrow> bool" where
  "current gp s c i \<longleftrightarrow> live s i \<and> (undisturbed_guest gp \<longrightarrow>
     tb_pc (ts_tbs s ! i) = gp_get_pc gp c \<and> tb_flags (ts_tbs s ! i) = gp_get_flags gp c)"

definition head_ok :: "('c, 'ir) guest_cpu \<Rightarrow> nat \<Rightarrow> 'c loop_state \<Rightarrow> bool" where
  "head_ok gp k ls \<longleftrightarrow> blocks_ok k (ls_exec ls) \<and> lock_free (ls_exec ls)
     \<and> (\<forall>i. ls_hint ls = Some i \<longrightarrow> current gp (es_store (ls_exec ls)) (ls_cpu ls) i)"

text \<open>Within an iteration the hint has been taken.\<close>

definition mid_ok :: "('c, 'ir) guest_cpu \<Rightarrow> nat \<Rightarrow> 'c loop_state \<Rightarrow> bool" where
  "mid_ok gp k ls \<longleftrightarrow> blocks_ok k (ls_exec ls) \<and> lock_free (ls_exec ls)
     \<and> (\<forall>i. ls_hint ls = Some i \<longrightarrow> live (es_store (ls_exec ls)) i \<and> \<not> undisturbed_guest gp)"

lemma mid_head: "mid_ok gp k ls \<Longrightarrow> head_ok gp k ls"
  by (simp add: mid_ok_def head_ok_def current_def)

lemma mid_ok_cpu [simp]: "mid_ok gp k (ls\<lparr>ls_cpu := c\<rparr>) = mid_ok gp k ls"
  by (simp add: mid_ok_def)

lemma blocks_ok_mono: "blocks_ok k st \<Longrightarrow> k \<le> k' \<Longrightarrow> blocks_ok k' st"
  by (auto simp: blocks_ok_def)

lemma mid_ok_mono: "mid_ok gp k ls \<Longrightarrow> k \<le> k' \<Longrightarrow> mid_ok gp k' ls"
  by (auto simp: mid_ok_def intro: blocks_ok_mono)

lemma head_ok_mono: "head_ok gp k ls \<Longrightarrow> k \<le> k' \<Longrightarrow> head_ok gp k' ls"
  by (auto simp: head_ok_def intro: blocks_ok_mono)

lemma exits_ok_unmoved:
  assumes "unmoved st st'" and "exits_ok (es_store st)"
  shows "exits_ok (es_store st')"
proof -
  obtain n where n: "exit_targets (es_store st') = exit_targets (es_store st) @ replicate n EXIT_TARGET_NONE"
    using assms(1) by (auto simp: unmoved_def)
  then have "length (ts_tbs (es_store st)) \<le> length (ts_tbs (es_store st'))"
    by (metis exit_targets_def length_append length_map le_add1)
  then show ?thesis
    using assms(2) n by (fastforce simp: exits_ok_def)
qed

lemma blocks_ok_unmoved:
  assumes "blocks_ok k st" and "unmoved st st'" and "exec_ok st'" and "grown (es_store st) (es_store st')"
  shows "blocks_ok k st'" "lock_free st' = lock_free st"
  using assms exits_ok_unmoved [OF assms(2)] by (simp_all add: blocks_ok_def unmoved_def grown_def lock_free_def)

section \<open>Rules for the parts of an iteration\<close>

text \<open>
  A part is safe when it does not panic, the states in which the loop goes on or returns are in
  order, and so is the rest when it goes on with the iteration.
\<close>

definition left_ok :: "nat \<Rightarrow> 'c loop_state \<Rightarrow> bool" where
  "left_ok k ls \<longleftrightarrow> blocks_ok k (ls_exec ls) \<and> es_atomic_locked (ls_exec ls) = es_atomic_lock_held (ls_exec ls)"

definition safe :: "('c, 'ir) guest_cpu \<Rightarrow> nat \<Rightarrow> ('a \<Rightarrow> 'c loop_state \<Rightarrow> bool) \<Rightarrow> ('a, 'c) flow option \<Rightarrow> bool" where
  "safe gp k G fl \<longleftrightarrow> (case fl of None \<Rightarrow> False | Some f \<Rightarrow> (case f of
     Go x ls \<Rightarrow> G x ls | Again ls \<Rightarrow> head_ok gp k ls | Done _ ls \<Rightarrow> head_ok gp k ls | Jumped ls \<Rightarrow> left_ok k ls))"

lemma safe_simps [simp]:
  "\<not> safe gp k G None" "safe gp k G (Some (Go x ls)) = G x ls" "safe gp k G (Some (Again ls)) = head_ok gp k ls"
  "safe gp k G (Some (Done r ls)) = head_ok gp k ls" "safe gp k G (Some (Jumped ls)) = left_ok k ls"
  by (simp_all add: safe_def)

lemma safe_bind:
  assumes "safe gp k G fl" and "\<And>x ls. G x ls \<Longrightarrow> safe gp k' H (f x ls)" and "k \<le> k'"
  shows "safe gp k' H (flow_bind fl f)"
proof (cases fl)
  case (Some r)
  then show ?thesis
    using assms by (cases r) (auto intro: head_ok_mono simp: left_ok_def intro: blocks_ok_mono)
qed (use assms in simp)

lemma safe_mono: "safe gp k G fl \<Longrightarrow> (\<And>x ls. G x ls \<Longrightarrow> H x ls) \<Longrightarrow> safe gp k H fl"
  by (auto simp: safe_def split: option.splits flow.splits)

lemma count_stat_ok [simp]:
  "mid_ok gp k (count_stat f ls) = mid_ok gp k ls" "head_ok gp k (count_stat f ls) = head_ok gp k ls"
  "ls_cpu (count_stat f ls) = ls_cpu ls" "es_store (ls_exec (count_stat f ls)) = es_store (ls_exec ls)"
  by (simp_all add: count_stat_def mid_ok_def head_ok_def blocks_ok_def lock_free_def)

definition faultless :: "('c, 'ir) guest_cpu \<Rightarrow> 'c \<Rightarrow> bool" where
  "faultless gp c \<longleftrightarrow> (undisturbed_guest gp \<longrightarrow> \<not> fst (gp_check_mem_fault gp c))"

text \<open>The CPU is at a pc with some flags.\<close>

definition at :: "('c, 'ir) guest_cpu \<Rightarrow> u64 \<Rightarrow> u32 \<Rightarrow> 'c \<Rightarrow> bool" where
  "at gp p f c \<longleftrightarrow> (undisturbed_guest gp \<longrightarrow> gp_get_pc gp c = p \<and> gp_get_flags gp c = f)"

lemma or_fault_ok:
  assumes mid: "mid_ok gp k ls" and res: "delivers (gp_ops gp) (ls_exec ls) (ls_cpu ls) p f res"
    and un: "\<And>r st' c'. res = Some (r, st', c') \<Longrightarrow> unmoved (ls_exec ls) st'"
    and keep: "\<And>i st' c' Q. res = Some (Some i, st', c') \<Longrightarrow> kept_by_gen (gp_ops gp) Q \<Longrightarrow> Q (ls_cpu ls) \<Longrightarrow> Q c'"
    and pf: "at gp p f (ls_cpu ls)"
  shows "safe gp k (\<lambda>i ls'. mid_ok gp k ls' \<and> current gp (es_store (ls_exec ls')) (ls_cpu ls') i
    \<and> length (ts_tbs (es_store (ls_exec ls))) \<le> length (ts_tbs (es_store (ls_exec ls')))
    \<and> at gp p f (ls_cpu ls') \<and> (faultless gp (ls_cpu ls) \<longrightarrow> faultless gp (ls_cpu ls'))) (or_fault gp ls res)"
proof -
  obtain r st' c' where r: "res = Some (r, st', c')" "exec_ok st'" "grown (es_store (ls_exec ls)) (es_store st')"
      "\<And>i. r = Some i \<Longrightarrow> live (es_store st') i \<and> tb_pc (ts_tbs (es_store st') ! i) = p \<and> tb_flags (ts_tbs (es_store st') ! i) = f"
    using res unfolding delivers_def found_def by blast
  have b: "blocks_ok k st'" "lock_free st'"
    using mid blocks_ok_unmoved [OF _ un [OF r(1)] r(2,3)] by (auto simp: mid_ok_def)
  have m: "mid_ok gp k (ls\<lparr>ls_exec := st', ls_cpu := c\<rparr>)" for c
    using mid b grown_live [OF r(3)] by (auto simp: mid_ok_def)
  show ?thesis
  proof (cases r)
    case None
    then show ?thesis
      using mid_head [OF m] by (simp add: or_fault_def r(1) Let_def split: prod.split)
  next
    case (Some i)
    have "kept_by_gen (gp_ops gp) (at gp p f)"
      unfolding kept_by_gen_def at_def using undisturbed_guest.gen_code_keeps [of gp] by metis
    then have "at gp p f c'"
      using keep r(1) pf Some by blast
    moreover have "faultless gp c'" if "faultless gp (ls_cpu ls)"
    proof (cases "undisturbed_guest gp")
      case True
      have "kept_by_gen (gp_ops gp) (faultless gp)"
        unfolding kept_by_gen_def faultless_def using undisturbed_guest.gen_code_keeps [OF True] by metis
      then show ?thesis
        using keep r(1) that Some by blast
    qed (simp add: faultless_def)
    ultimately show ?thesis
      using Some m r(3) r(4) [OF Some] by (simp add: or_fault_def r(1) current_def grown_def at_def)
  qed
qed

lemma find_tb_ok:
  assumes "mid_ok gp k ls" and "translator_ok ho" and "at gp p f (ls_cpu ls)"
  shows "safe gp k (\<lambda>i ls'. mid_ok gp k ls' \<and> current gp (es_store (ls_exec ls')) (ls_cpu ls') i
    \<and> length (ts_tbs (es_store (ls_exec ls))) \<le> length (ts_tbs (es_store (ls_exec ls')))
    \<and> at gp p f (ls_cpu ls') \<and> (faultless gp (ls_cpu ls) \<longrightarrow> faultless gp (ls_cpu ls'))) (find_tb gp ho ls p f)"
  unfolding find_tb_def
  by (rule or_fault_ok [OF assms(1) tb_find_delivers _ _ assms(3)])
     (use assms in \<open>auto simp: mid_ok_def blocks_ok_def intro: tb_find_unmoved tb_find_keeps\<close>)

lemma single_step_tb_ok:
  assumes "mid_ok gp k ls" and "translator_ok ho" and "at gp p f (ls_cpu ls)"
  shows "safe gp k (\<lambda>i ls'. mid_ok gp k ls' \<and> current gp (es_store (ls_exec ls')) (ls_cpu ls') i)
    (single_step_tb gp ho ls p f)"
proof -
  have "max_insns (CF_SINGLE_STEP OR 1) = 1"
    by (simp add: max_insns_def CF_SINGLE_STEP_def CF_COUNT_MASK_def)
  then have "delivers (gp_ops gp) (ls_exec ls) (ls_cpu ls) p f
      (tb_gen_code (gp_ops gp) ho (ls_exec ls) (ls_cpu ls) p f (CF_SINGLE_STEP OR 1))"
    using assms(1,2) by (intro tb_gen_code_delivers) (simp_all add: mid_ok_def blocks_ok_def)
  then show ?thesis
    unfolding single_step_tb_def
    by (rule safe_mono [OF or_fault_ok [OF assms(1) _ _ _ assms(3)]])
       (auto intro: tb_gen_code_unmoved tb_gen_code_keeps)
qed

lemma stepping_mid:
  assumes "head_ok gp k ls" and "undisturbed_guest gp \<Longrightarrow> ls_hint ls = None"
  shows "mid_ok gp k ls"
  using assms by (auto simp: mid_ok_def head_ok_def current_def)

lemma select_tb_ok:
  assumes h: "head_ok gp k ls" and tr: "translator_ok ho" and st: "stepping \<Longrightarrow> \<not> undisturbed_guest gp"
  shows "safe gp k (\<lambda>i ls'. mid_ok gp k ls' \<and> current gp (es_store (ls_exec ls')) (ls_cpu ls') i) (select_tb gp ho stepping ls)"
proof -
  define p f where "p = gp_get_pc gp (ls_cpu ls)" and "f = gp_get_flags gp (ls_cpu ls)"
  have pf: "at gp p f (ls_cpu ls)"
    by (simp add: at_def p_def f_def)
  show ?thesis
  proof (cases stepping)
    case True
    then show ?thesis
      using single_step_tb_ok [OF stepping_mid [OF h] tr pf] st by (simp add: select_tb_def Let_def p_def f_def)
  next
    case False
    let ?first = "case ls_hint ls of
        Some idx \<Rightarrow> Some (Go idx (count_stat (\<lambda>s. s\<lparr>hint_used := hint_used s + 1\<rparr>) (ls\<lparr>ls_hint := None\<rparr>)))
      | None \<Rightarrow> find_tb gp ho ls p f"
    let ?G = "\<lambda>i ls'. mid_ok gp k ls' \<and> current gp (es_store (ls_exec ls')) (ls_cpu ls') i"
    have "safe gp k (\<lambda>i ls'. ?G i ls' \<and> at gp p f (ls_cpu ls')) ?first"
    proof (cases "ls_hint ls")
      case None
      then show ?thesis
        using safe_mono [OF find_tb_ok [OF stepping_mid [OF h] tr pf]] by simp
    next
      case (Some i)
      have "mid_ok gp k (ls\<lparr>ls_hint := None\<rparr>)"
        using h by (simp add: head_ok_def mid_ok_def)
      then show ?thesis
        using h pf Some by (simp add: head_ok_def)
    qed
    then show ?thesis
      unfolding select_tb_def Let_def if_not_P [OF False] p_def [symmetric] f_def [symmetric]
    proof (rule safe_bind)
      fix i ls'
      assume G: "?G i ls' \<and> at gp p f (ls_cpu ls')"
      then have "ts_get (es_store (ls_exec ls')) i = Some (ts_tbs (es_store (ls_exec ls')) ! i)"
        by (simp add: ts_get_def current_def live_def)
      then show "safe gp k ?G (do {
          tb \<leftarrow> ts_get (es_store (ls_exec ls')) i;
          if gp_gdb_breakpoint_in_tb gp (ls_cpu ls') (tb_pc tb) (ucast (tb_size tb))
          then single_step_tb gp ho ls' p f else Some (Go i ls')
        })"
        using G single_step_tb_ok [OF _ tr, of gp k ls' p f] by simp
    qed simp
  qed
qed

lemma current_moves:
  assumes "current gp s c i" and "undisturbed_guest gp \<Longrightarrow> gp_get_pc gp c' = gp_get_pc gp c \<and> gp_get_flags gp c' = gp_get_flags gp c"
  shows "current gp s c' i"
  using assms by (simp add: current_def)

lemma head_ok_moves:
  assumes "head_ok gp k ls" and "undisturbed_guest gp \<Longrightarrow> gp_get_pc gp c' = gp_get_pc gp (ls_cpu ls) \<and> gp_get_flags gp c' = gp_get_flags gp (ls_cpu ls)"
  shows "head_ok gp k (ls\<lparr>ls_cpu := c'\<rparr>)"
  using assms by (simp add: head_ok_def current_def)

lemma pause_ok:
  assumes "head_ok gp k ls"
  shows "safe gp k G (Some (pause gp ls))"
proof -
  have "head_ok gp k (ls\<lparr>ls_cpu := snd (gp_check_monitor_pause gp (ls_cpu ls))\<rparr>)"
    using undisturbed_guest.pause_keeps [of gp] by (intro head_ok_moves [OF assms]) blast
  then show ?thesis
    by (cases "gp_check_monitor_pause gp (ls_cpu ls)") (simp add: pause_def Let_def)
qed

lemma breakpoint_gate_ok:
  assumes "mid_ok gp k ls" and "current gp (es_store (ls_exec ls)) (ls_cpu ls) i"
  shows "safe gp k (\<lambda>i ls'. mid_ok gp k ls' \<and> current gp (es_store (ls_exec ls')) (ls_cpu ls') i) (breakpoint_gate gp stepping i ls)"
proof (cases stepping)
  case False
  obtain hit c where b: "gp_gdb_check_breakpoint gp (ls_cpu ls) (gp_get_pc gp (ls_cpu ls)) = (hit, c)"
    by fastforce
  have "current gp (es_store (ls_exec ls)) c i"
    by (rule current_moves [OF assms(2)]) (metis undisturbed_guest.breakpoint_keeps b snd_conv)
  then show ?thesis
    using assms(1) False by (auto simp: breakpoint_gate_def b Let_def intro!: pause_ok mid_head)
qed (use assms in \<open>simp add: breakpoint_gate_def\<close>)

lemma deliver_interrupts_ok:
  assumes "head_ok gp k ls"
  shows "head_ok gp k (deliver_interrupts gp stepping ls)"
proof -
  have "head_ok gp k (ls\<lparr>ls_cpu := gp_set_exit_request gp (ls_cpu ls)\<rparr>)"
    "head_ok gp k (ls\<lparr>ls_cpu := gp_reset_exit_request gp (ls_cpu ls)\<rparr>)"
    using undisturbed_guest.set_request [of gp] undisturbed_guest.reset_request [of gp]
    by (auto intro!: head_ok_moves [OF assms])
  moreover have "head_ok gp k (ls\<lparr>ls_cpu := c, ls_hint := None\<rparr>)" for c
    using assms by (simp add: head_ok_def)
  ultimately show ?thesis
    by (simp add: deliver_interrupts_def Let_def)
qed

text \<open>The state in which an iteration starts.\<close>

definition start_ok :: "('c, 'ir) guest_cpu \<Rightarrow> nat \<Rightarrow> bool \<Rightarrow> 'c loop_state \<Rightarrow> bool" where
  "start_ok gp k jumped ls \<longleftrightarrow> (if jumped then left_ok k ls else head_ok gp k ls)"

lemma recover_ok: "left_ok k ls \<Longrightarrow> head_ok gp k (recover ls)"
  by (auto simp: left_ok_def head_ok_def recover_def blocks_ok_def lock_free_def exec_ok_def)

lemma next_tb_ok:
  assumes "start_ok gp k jumped ls" and tr: "translator_ok ho"
  shows "safe gp k (\<lambda>(step, i) ls'. mid_ok gp k ls' \<and> current gp (es_store (ls_exec ls')) (ls_cpu ls') i
    \<and> (step \<longrightarrow> \<not> undisturbed_guest gp)) (next_tb gp ho jumped ls)"
proof -
  let ?ls1 = "count_stat (\<lambda>s. s\<lparr>loop_iters := loop_iters s + 1\<rparr>) (if jumped then recover ls else ls)"
  let ?step = "gp_gdb_single_step gp (ls_cpu ?ls1)"
  have "head_ok gp k ?ls1"
    using assms(1) by (cases jumped) (simp_all add: start_ok_def recover_ok)
  moreover have dist: "\<not> undisturbed_guest gp" if ?step
    by (rule notI, drule undisturbed_guest.no_step) (use that in blast)
  ultimately have "safe gp k (\<lambda>i ls'. mid_ok gp k ls' \<and> current gp (es_store (ls_exec ls')) (ls_cpu ls') i)
      (select_tb gp ho ?step (deliver_interrupts gp ?step ?ls1))"
    by (intro select_tb_ok deliver_interrupts_ok tr)
  then show ?thesis
    unfolding next_tb_def Let_def
  proof (rule safe_bind)
    fix i ls'
    assume "mid_ok gp k ls' \<and> current gp (es_store (ls_exec ls')) (ls_cpu ls') i"
    then have "safe gp k (\<lambda>i ls'. mid_ok gp k ls' \<and> current gp (es_store (ls_exec ls')) (ls_cpu ls') i)
        (breakpoint_gate gp ?step i ls')"
      by (intro breakpoint_gate_ok) simp_all
    then show "safe gp k (\<lambda>(step, i) ls'. mid_ok gp k ls' \<and> current gp (es_store (ls_exec ls')) (ls_cpu ls') i
    \<and> (step \<longrightarrow> \<not> undisturbed_guest gp))
        (flow_bind (breakpoint_gate gp ?step i ls') (\<lambda>idx ls3. Some (Go (?step, idx) ls3)))"
      by (rule safe_bind) (use dist in simp_all)
  qed simp
qed

section \<open>Running a block\<close>

text \<open>Host code returns the index of a block of the store.\<close>

definition run_ok :: "'c host_code \<Rightarrow> bool" where
  "run_ok run \<longleftrightarrow> (\<forall>st c i raw c' j e. run st c i = (Some raw, c') \<and> decode_tb_exit raw = (Some j, e) \<longrightarrow>
     j < length (ts_tbs (es_store st)))"

lemma run_tb_ok:
  assumes mid: "mid_ok gp k ls" and i: "live (es_store (ls_exec ls)) i" and run: "run_ok run"
  shows "safe gp k (\<lambda>raw ls'. mid_ok gp k ls' \<and> i < length (ts_tbs (es_store (ls_exec ls')))
    \<and> (\<forall>j. fst (decode_tb_exit raw) = Some j \<longrightarrow> j < length (ts_tbs (es_store (ls_exec ls'))))) (run_tb run i ls)"
proof -
  have r: "j < length (ts_tbs (es_store (ls_exec ls)))"
    if "run st c i = (Some raw, c')" "fst (decode_tb_exit raw) = Some j" "es_store st = es_store (ls_exec ls)" for st c raw c' j
    using run that unfolding run_ok_def by (metis prod.collapse)
  have b: "blocks_ok k (st\<lparr>es_atomic_locked := a, es_atomic_lock_held := b\<rparr>) = blocks_ok k st"
      "blocks_ok k (st\<lparr>es_atomic_lock_held := b, es_atomic_locked := a\<rparr>) = blocks_ok k st" for st a b
    by (simp_all add: blocks_ok_def exec_ok_def)
  have get: "ts_get (es_store (ls_exec ls)) i = Some (ts_tbs (es_store (ls_exec ls)) ! i)"
    using i by (simp add: ts_get_def live_def)
  show ?thesis
  proof (cases "tb_contains_atomic (ts_tbs (es_store (ls_exec ls)) ! i)")
    case True
    obtain x c where x: "run ((ls_exec ls)\<lparr>es_atomic_locked := True, es_atomic_lock_held := True\<rparr>) (ls_cpu ls) i = (x, c)"
      by fastforce
    show ?thesis
      using mid i True r x b
      by (cases x) (auto simp: run_tb_def get mid_ok_def lock_free_def left_ok_def live_def)
  next
    case False
    obtain x c where x: "run (ls_exec ls) (ls_cpu ls) i = (x, c)"
      by fastforce
    show ?thesis
      using mid i False r x
      by (cases x) (auto simp: run_tb_def get mid_ok_def lock_free_def left_ok_def live_def)
  qed
qed

lemma account_ok:
  assumes "mid_ok gp k ls" and "i < length (ts_tbs (es_store (ls_exec ls)))"
    and "\<forall>j. fst (decode_tb_exit raw) = Some j \<longrightarrow> j < length (ts_tbs (es_store (ls_exec ls)))"
  shows "safe gp k (\<lambda>(src, _, _) ls'. mid_ok gp k ls' \<and> src < length (ts_tbs (es_store (ls_exec ls')))) (account gp i raw ls)"
  using assms by (auto simp: account_def ts_get_def Let_def split: prod.split option.split)

section \<open>Flushes\<close>

lemma gen_bound:
  fixes g :: u64
  assumes "unat g \<le> k" and "k + 1 < 2 ^ 64"
  shows "g \<noteq> - 1" "unat (g + 1) \<le> k + 1" "g + 1 \<noteq> 0"
proof -
  have "unat (- 1 :: u64) + 1 = 2 ^ 64"
    by (simp add: unsigned_minus_1_eq_mask mask_eq_exp_minus_1)
  then show n: "g \<noteq> - 1"
    using assms by auto
  show "g + 1 \<noteq> 0"
    using gen_succ(1) [OF n] .
  then have "unat (g + 1) = unat g + 1"
    by (simp add: unatSuc add.commute)
  then show "unat (g + 1) \<le> k + 1"
    using assms(1) by simp
qed

lemma cache_in_store_invalidate [simp]: "cache_in_store (jc_invalidate jc) s = cache_in_store jc s"
  by (simp add: cache_in_store_def jc_invalidate_def Let_def)

lemma jc_invalidate_generation:
  "unat (jc_generation jc) \<le> k \<Longrightarrow> k + 1 < 2 ^ 64 \<Longrightarrow> unat (jc_generation (jc_invalidate jc)) \<le> k + 1"
  using gen_bound [of "jc_generation jc" k] by (simp add: jc_invalidate_def Let_def)

lemma exec_ok_jc_invalidate:
  assumes "exec_ok st" and "unat (jc_generation (es_jc st)) \<le> k" and "k + 1 < 2 ^ 64"
  shows "exec_ok (st\<lparr>es_jc := jc_invalidate (es_jc st)\<rparr>)"
  using assms(1) gen_bound(1) [OF assms(2,3)] by (simp add: exec_ok_def jc_ok_invalidate)

lemma flush_all_ok:
  assumes b: "blocks_ok k st" and k: "k + 1 < 2 ^ 64"
  shows "blocks_ok (k + 1) (flush_all st)" "\<not> live (es_store (flush_all st)) i" "lock_free (flush_all st) = lock_free st"
    "length (ts_tbs (es_store (flush_all st))) = length (ts_tbs (es_store st))"
proof -
  let ?s = "es_store st"
  note p = exec_ok_parts [of st]
  have ok: "exec_ok st" and g: "unat (ts_global_gen ?s) \<le> k" and j: "unat (jc_generation (es_jc st)) \<le> k"
    using b by (simp_all add: blocks_ok_def)
  note gb = gen_bound [OF g k]
  note ia = invalidate_all_ok [OF p(1) [OF ok] gb(1)]
  have s: "invalidate_all ?s = ?s\<lparr>ts_global_gen := ts_global_gen ?s + 1, ts_code_pages := (\<lambda>_. 0)\<rparr>"
    using gb(3) by (simp add: invalidate_all_def Let_def)
  have "exec_ok (flush_all st)"
    using ia(1,2) jc_ok_invalidate [OF p(3) [OF ok] gen_bound(1) [OF j k]] cache_in_store_grow [OF p(4) [OF ok], of "invalidate_all ?s"]
    by (simp add: exec_ok_def flush_all_def s)
  then show "blocks_ok (k + 1) (flush_all st)"
    using b gb(2) jc_invalidate_generation [OF j k] by (simp add: blocks_ok_def flush_all_def s exits_ok_def)
  show "\<not> live (es_store (flush_all st)) i"
    using ia(3) by (simp add: flush_all_def)
  show "lock_free (flush_all st) = lock_free st" "length (ts_tbs (es_store (flush_all st))) = length (ts_tbs ?s)"
    by (simp_all add: flush_all_def lock_free_def s)
qed

lemma exits_ok_flushed: "flushed D st st' \<Longrightarrow> exits_ok (es_store st) \<Longrightarrow> exits_ok (es_store st')"
  by (fastforce simp: flushed_def exits_ok_def exit_targets_def in_set_conv_nth)

lemma flushed_blocks_ok:
  assumes "blocks_ok k st" and "flushed D st st'" and k: "k + 1 < 2 ^ 64"
  shows "blocks_ok (k + 1) (st'\<lparr>es_jc := jc_invalidate (es_jc st')\<rparr>)" "lock_free (st'\<lparr>es_jc := x\<rparr>) = lock_free st"
proof -
  have j: "unat (jc_generation (es_jc st')) \<le> k" "exec_ok st'" "unat (ts_global_gen (es_store st')) \<le> k"
    using assms(1,2) by (simp_all add: blocks_ok_def flushed_def)
  show "blocks_ok (k + 1) (st'\<lparr>es_jc := jc_invalidate (es_jc st')\<rparr>)"
    using assms(1) exits_ok_flushed [OF assms(2)] j exec_ok_jc_invalidate [OF j(2,1) k] jc_invalidate_generation [OF j(1) k]
    by (simp add: blocks_ok_def)
  show "lock_free (st'\<lparr>es_jc := x\<rparr>) = lock_free st"
    using assms(2) by (simp add: lock_free_def flushed_def)
qed

text \<open>
  The flush after a block: exactly the blocks on tracked pages that were written are dead, the
  jump cache is empty and the hint is gone.
\<close>

lemma flush_written_code_ok:
  assumes b: "blocks_ok k st" and k: "k + 1 < 2 ^ 64" and d: "dirty' \<noteq> []"
  obtains st' where "flush_written_code st dirty' hint = Some (st', None)" "blocks_ok (k + 1) st'"
    "lock_free st' = lock_free st" "length (ts_tbs (es_store st')) = length (ts_tbs (es_store st))"
    "\<And>i. live (es_store st') i \<longleftrightarrow> live (es_store st) i \<and> i \<notin> on_pages (es_store st) dirty'"
    "\<And>p. jc_lookup (es_jc st') p = None"
proof -
  have ok: "exec_ok st"
    using b by (simp add: blocks_ok_def)
  obtain st1 where st1: "invalidate_pages is_code_page st dirty' = Some st1" "flushed (on_pages (es_store st) dirty') st st1"
    using invalidate_pages_flushed [OF ok] by blast
  have j: "jc_ok (es_jc st1)" "unat (jc_generation (es_jc st1)) \<le> k"
    using st1(2) b by (auto simp: flushed_def blocks_ok_def exec_ok_def)
  show ?thesis
  proof (rule that)
    show "flush_written_code st dirty' hint = Some (st1\<lparr>es_jc := jc_invalidate (es_jc st1)\<rparr>, None)"
      using d st1(1) by (simp add: flush_written_code_def)
    show "jc_lookup (es_jc (st1\<lparr>es_jc := jc_invalidate (es_jc st1)\<rparr>)) p = None" for p
      using jc_lookup_invalidate [OF j(1) gen_bound(1) [OF j(2) k]] by simp
  qed (use flushed_blocks_ok [OF b st1(2) k] st1(2) in \<open>simp_all add: flushed_def\<close>)
qed

lemma flush_written_ok:
  assumes m: "mid_ok gp k ls" and k: "k + 1 < 2 ^ 64"
  shows "safe gp (k + 1) (\<lambda>_ ls'. mid_ok gp (k + 1) ls'
    \<and> length (ts_tbs (es_store (ls_exec ls'))) = length (ts_tbs (es_store (ls_exec ls)))) (flush_written gp ls)"
proof -
  obtain d c where d: "gp_take_dirty_pages gp (ls_cpu ls) = (d, c)"
    by fastforce
  show ?thesis
  proof (cases "d = []")
    case True
    then show ?thesis
      using mid_ok_mono [OF m, of "k + 1"] by (simp add: flush_written_def d flush_written_code_def mid_ok_def)
  next
    case False
    have b: "blocks_ok k (ls_exec ls)"
      using m by (simp add: mid_ok_def)
    obtain st' where "flush_written_code (ls_exec ls) d (ls_hint ls) = Some (st', None)" "blocks_ok (k + 1) st'"
        "lock_free st' = lock_free (ls_exec ls)" "length (ts_tbs (es_store st')) = length (ts_tbs (es_store (ls_exec ls)))"
      by (rule flush_written_code_ok [OF b k False])
    then show ?thesis
      using m by (simp add: flush_written_def d mid_ok_def)
  qed
qed

section \<open>The exits of a block\<close>

text \<open>After an exit, a hint goes with a CPU that has no latched fault.\<close>

definition settled :: "('c, 'ir) guest_cpu \<Rightarrow> nat \<Rightarrow> 'c loop_state \<Rightarrow> bool" where
  "settled gp k ls \<longleftrightarrow> head_ok gp k ls \<and> (ls_hint ls \<noteq> None \<longrightarrow> faultless gp (ls_cpu ls))"

lemma mid_settled: "mid_ok gp k ls \<Longrightarrow> settled gp k ls"
  by (auto simp: settled_def mid_head faultless_def mid_ok_def)

lemma mid_ok_flush:
  assumes "mid_ok gp k ls" and "k + 1 < 2 ^ 64"
  shows "mid_ok gp (k + 1) (ls\<lparr>ls_exec := flush_all (ls_exec ls), ls_cpu := c, ls_hint := None\<rparr>)"
  using assms flush_all_ok(1,3) [of k "ls_exec ls"] by (simp add: mid_ok_def)

lemma faults_and_flushes_ok:
  assumes m: "mid_ok gp k ls" and k: "k + 1 < 2 ^ 64"
  shows "safe gp (k + 1) (\<lambda>_ ls'. mid_ok gp (k + 1) ls' \<and> faultless gp (ls_cpu ls')
    \<and> length (ts_tbs (es_store (ls_exec ls'))) = length (ts_tbs (es_store (ls_exec ls)))) (faults_and_flushes gp ls)"
proof -
  obtain fault c1 where f: "gp_check_mem_fault gp (ls_cpu ls) = (fault, c1)"
    by fastforce
  obtain pending c2 where p: "gp_take_tb_flush_pending gp c1 = (pending, c2)"
    by fastforce
  note m1 = mid_ok_mono [OF m, of "k + 1"]
  have fl: "faultless gp c2" if "\<not> fault"
  proof (cases "undisturbed_guest gp")
    case True
    then have "c1 = ls_cpu ls"
      using undisturbed_guest.no_fault [OF True, of "ls_cpu ls"] f that by simp
    then show ?thesis
      using undisturbed_guest.flush_keeps_fault [OF True, of c1] f p that by (simp add: faultless_def)
  qed (simp add: faultless_def)
  have e: "\<lparr>ls_exec = flush_all (ls_exec ls), ls_cpu = c2, ls_hint = None\<rparr>
      = ls\<lparr>ls_exec := flush_all (ls_exec ls), ls_cpu := c2, ls_hint := None\<rparr>"
    "\<lparr>ls_exec = ls_exec ls, ls_cpu = c2, ls_hint = ls_hint ls\<rparr> = ls\<lparr>ls_cpu := c2\<rparr>"
    by simp_all
  have "head_ok gp (k + 1) (ls\<lparr>ls_cpu := c1\<rparr>)"
    using m1 by (intro mid_head) simp
  then show ?thesis
    using m1 fl mid_head [OF mid_ok_flush [OF m k]]
    by (auto simp: faults_and_flushes_def f p Let_def flush_pending_tbs_def e simp del: loop_state.update_convs)
qed

lemma head_ok_hint:
  assumes "mid_ok gp k ls" and "current gp (es_store (ls_exec ls)) (ls_cpu ls) i"
  shows "head_ok gp k (ls\<lparr>ls_hint := Some i\<rparr>)"
  using assms by (simp add: head_ok_def mid_ok_def)

lemma current_same_blocks:
  assumes "same_blocks (ts_tbs s) (ts_tbs s')" and "ts_global_gen s' = ts_global_gen s"
  shows "live s' i = live s i" "current gp s' c i = current gp s c i" "exit_targets s' = exit_targets s"
proof -
  have len: "length (ts_tbs s') = length (ts_tbs s)"
    using assms(1) by (simp add: same_blocks_def)
  note f = same_blocks_fields [OF assms(1)]
  show lv: "live s' i = live s i" for i
    using f assms(2) by (auto simp: live_def tb_valid_def len)
  show "current gp s' c i = current gp s c i"
    using f lv by (auto simp: current_def live_def)
  show "exit_targets s' = exit_targets s"
    using f by (auto simp: exit_targets_def len intro: nth_equalityI)
qed

lemma add_jump_mid:
  assumes m: "mid_ok gp k ls" and c: "current gp (es_store (ls_exec ls)) c dst"
    and src: "src < length (ts_tbs (es_store (ls_exec ls)))" and slot: "slot < 2"
  obtains st where "tb_add_jump (ls_exec ls) src slot dst = Some st" "mid_ok gp k (ls\<lparr>ls_exec := st\<rparr>)"
    "current gp (es_store st) c dst"
proof -
  have ok: "exec_ok (ls_exec ls)" and dst: "dst < length (ts_tbs (es_store (ls_exec ls)))"
    using m c by (simp_all add: mid_ok_def blocks_ok_def current_def live_def)
  obtain st where st: "tb_add_jump (ls_exec ls) src slot dst = Some st" "exec_ok st"
      "same_blocks (ts_tbs (es_store (ls_exec ls))) (ts_tbs (es_store st))"
      "ts_global_gen (es_store st) = ts_global_gen (es_store (ls_exec ls))" "es_jc st = es_jc (ls_exec ls)"
      "es_atomic_locked st = es_atomic_locked (ls_exec ls)" "es_atomic_lock_held st = es_atomic_lock_held (ls_exec ls)"
    by (rule tb_add_jump_ok [OF ok src dst slot])
  note cs = current_same_blocks [OF st(3,4)]
  have "blocks_ok k st" "lock_free st"
    using m st(2,4-) cs(3) st(3) by (auto simp: mid_ok_def blocks_ok_def exits_ok_def lock_free_def same_blocks_def)
  then show ?thesis
    using that [OF st(1)] m c by (simp add: mid_ok_def cs)
qed

lemma chain_slot_ok:
  assumes m: "mid_ok gp k ls" and k: "k + 1 < 2 ^ 64" and tr: "translator_ok ho"
    and src: "src < length (ts_tbs (es_store (ls_exec ls)))" and slot: "slot < 2"
  shows "safe gp (k + 1) (\<lambda>_ ls'. settled gp (k + 1) ls') (chain_slot gp ho src slot ls)"
proof -
  let ?G = "\<lambda>ls'. mid_ok gp (k + 1) ls' \<and> faultless gp (ls_cpu ls') \<and> src < length (ts_tbs (es_store (ls_exec ls')))"
  let ?st = "count_stat (\<lambda>s. s\<lparr>chain_exit := (chain_exit s)[slot := chain_exit s ! slot + 1]\<rparr>) ls"
  have "safe gp (k + 1) (\<lambda>_ ls'. ?G ls') (faults_and_flushes gp ?st)"
    by (rule safe_mono [OF faults_and_flushes_ok]) (use m k src in simp_all)
  moreover have "safe gp (k + 1) (\<lambda>i ls'. ?G ls' \<and> current gp (es_store (ls_exec ls')) (ls_cpu ls') i)
      (find_tb gp ho ls1 (gp_get_pc gp (ls_cpu ls1)) (gp_get_flags gp (ls_cpu ls1)))" if "?G ls1" for ls1
    by (rule safe_mono [OF find_tb_ok [OF _ tr]]) (use that in \<open>auto simp: at_def\<close>)
  moreover have "safe gp (k + 1) (\<lambda>_ ls'. settled gp (k + 1) ls')
      (do { st \<leftarrow> tb_add_jump (ls_exec ls2) src slot dst; Some (Go () (ls2\<lparr>ls_exec := st, ls_hint := Some dst\<rparr>)) })"
    if G: "?G ls2 \<and> current gp (es_store (ls_exec ls2)) (ls_cpu ls2) dst" for ls2 dst
  proof -
    have g: "mid_ok gp (k + 1) ls2" "current gp (es_store (ls_exec ls2)) (ls_cpu ls2) dst"
        "src < length (ts_tbs (es_store (ls_exec ls2)))"
      using G by simp_all
    obtain st where "tb_add_jump (ls_exec ls2) src slot dst = Some st" "mid_ok gp (k + 1) (ls2\<lparr>ls_exec := st\<rparr>)"
        "current gp (es_store st) (ls_cpu ls2) dst"
      by (rule add_jump_mid [OF g slot])
    then show ?thesis
      using G head_ok_hint [of gp "k + 1" "ls2\<lparr>ls_exec := st\<rparr>" dst] by (simp add: settled_def)
  qed
  ultimately show ?thesis
    unfolding chain_slot_def by (blast intro: safe_bind)
qed

text \<open>Indirect exits.\<close>

lemma cached_target_ok:
  assumes "exits_ok s" and "src < length (ts_tbs s)"
  obtains r where "cached_target s src p f = Some r"
    "\<And>i. r = Some i \<Longrightarrow> live s i \<and> tb_pc (ts_tbs s ! i) = p \<and> tb_flags (ts_tbs s ! i) = f"
proof -
  have "tb_exit_target (ts_tbs s ! src) \<in> set (exit_targets s)"
    using assms(2) by (simp add: exit_targets_def)
  then have "tb_exit_target (ts_tbs s ! src) = EXIT_TARGET_NONE \<or> tb_exit_target (ts_tbs s ! src) < length (ts_tbs s)"
    using assms(1) by (auto simp: exits_ok_def)
  then consider "tb_exit_target (ts_tbs s ! src) = EXIT_TARGET_NONE"
    | "tb_exit_target (ts_tbs s ! src) \<noteq> EXIT_TARGET_NONE" "tb_exit_target (ts_tbs s ! src) < length (ts_tbs s)"
    by blast
  then show ?thesis
  proof cases
    case 1
    then show ?thesis
      using assms(2) by (intro that [of None]) (simp_all add: cached_target_def ts_get_def)
  next
    case 2
    then show ?thesis
      using assms(2)
      by (intro that [of "if tb_matches s (ts_tbs s ! tb_exit_target (ts_tbs s ! src)) p f then Some (tb_exit_target (ts_tbs s ! src)) else None"])
         (auto simp: cached_target_def ts_get_def tb_matches_def live_def tb_valid_def split: if_splits)
  qed
qed

lemma take_cached_ok:
  assumes m: "mid_ok gp k ls" and c: "current gp (es_store (ls_exec ls)) (ls_cpu ls) i"
  shows "safe gp k G (Some (take_cached gp i p ls))"
proof -
  obtain hit c1 where b: "gp_gdb_check_breakpoint gp (ls_cpu ls) p = (hit, c1)"
    by fastforce
  have c1: "current gp (es_store (ls_exec ls)) c1 i"
    by (rule current_moves [OF c]) (metis undisturbed_guest.breakpoint_keeps b snd_conv)
  have "head_ok gp k (ls\<lparr>ls_cpu := c\<rparr>)" for c
    using m by (intro mid_head) simp
  moreover have "head_ok gp k (ls\<lparr>ls_cpu := c1, ls_hint := Some i\<rparr>)"
    using head_ok_hint [of gp k "ls\<lparr>ls_cpu := c1\<rparr>" i] m c1 by simp
  ultimately show ?thesis
    by (auto simp: take_cached_def Let_def b intro: pause_ok)
qed

text \<open>The exit target of a block is no part of the invariant of the store.\<close>

abbreviation retarget :: "nat \<Rightarrow> nat \<Rightarrow> translation_block list \<Rightarrow> translation_block list" where
  "retarget src dst tbs \<equiv> upd_tb (\<lambda>t. t\<lparr>tb_exit_target := dst\<rparr>) src tbs"

lemma retarget_nth:
  "retarget src dst tbs ! j = (if j = src \<and> src < length tbs then (tbs ! j)\<lparr>tb_exit_target := dst\<rparr> else tbs ! j)"
  by (cases "src < length tbs") (simp_all add: upd_tb_def nth_list_update list_update_beyond)

lemma retarget_fields [simp]:
  "tb_pc (retarget src dst tbs ! j) = tb_pc (tbs ! j)" "tb_flags (retarget src dst tbs ! j) = tb_flags (tbs ! j)"
  "tb_phys_pc (retarget src dst tbs ! j) = tb_phys_pc (tbs ! j)" "tb_gen (retarget src dst tbs ! j) = tb_gen (tbs ! j)"
  "tb_invalid (retarget src dst tbs ! j) = tb_invalid (tbs ! j)" "tb_host_offset (retarget src dst tbs ! j) = tb_host_offset (tbs ! j)"
  "tb_jmp_insn_offset (retarget src dst tbs ! j) = tb_jmp_insn_offset (tbs ! j)"
  "tb_jmp_reset_offset (retarget src dst tbs ! j) = tb_jmp_reset_offset (tbs ! j)"
  "tb_jmp_dest (retarget src dst tbs ! j) = tb_jmp_dest (tbs ! j)" "tb_jmp_list (retarget src dst tbs ! j) = tb_jmp_list (tbs ! j)"
  "tb_hash_next (retarget src dst tbs ! j) = tb_hash_next (tbs ! j)" "tb_page_next (retarget src dst tbs ! j) = tb_page_next (tbs ! j)"
  by (simp_all add: retarget_nth)

lemma retarget_preds:
  "tb_valid g (retarget src dst tbs ! j) = tb_valid g (tbs ! j)" "page_of (retarget src dst tbs ! j) = page_of (tbs ! j)"
  "site_ok n (retarget src dst tbs ! j) = site_ok n (tbs ! j)"
  by (simp_all add: tb_valid_def page_of_def site_ok_def)

lemma retarget_live: "live (s\<lparr>ts_tbs := retarget src dst (ts_tbs s)\<rparr>) i = live s i"
  by (simp add: live_def retarget_preds)

lemma retarget_store:
  "store_ok (s\<lparr>ts_tbs := retarget src dst (ts_tbs s)\<rparr>) cb = store_ok s cb"
  "counts_ok (s\<lparr>ts_tbs := retarget src dst (ts_tbs s)\<rparr>) = counts_ok s"
proof -
  let ?s = "s\<lparr>ts_tbs := retarget src dst (ts_tbs s)\<rparr>"
  have on: "on_page ?s p = on_page s p" for p
    by (simp add: on_page_def retarget_live retarget_preds)
  then show "counts_ok ?s = counts_ok s"
    by (simp add: counts_ok_def)
  have "gens_ok ?s = gens_ok s"
    by (simp add: gens_ok_def all_set_conv_all_nth)
  moreover have "lists_ok ?s = lists_ok s"
    by (simp add: lists_ok_def hash_list_def page_list_def on retarget_preds)
  moreover have "edges_ok (ts_tbs ?s) = edges_ok (ts_tbs s)" "chained_ok ?s = chained_ok s"
    "sites_ok (ts_tbs ?s) cb = sites_ok (ts_tbs s) cb" "jumps_ok (ts_tbs ?s) cb = jumps_ok (ts_tbs s) cb"
    by (simp_all add: edges_ok_def chained_ok_def retarget_live sites_ok_def sites_apart_def jumps_ok_def retarget_preds
        cong: option.case_cong)
  ultimately show "store_ok ?s cb = store_ok s cb"
    by (simp add: store_ok_def)
qed

lemma store_exit_target_ok:
  assumes m: "mid_ok gp k ls" and c: "current gp (es_store (ls_exec ls)) c dst" and src: "src < length (ts_tbs (es_store (ls_exec ls)))"
  shows "mid_ok gp k (ls\<lparr>ls_exec := store_exit_target (ls_exec ls) src dst\<rparr>)"
    "current gp (es_store (store_exit_target (ls_exec ls) src dst)) c dst"
proof -
  let ?s = "es_store (ls_exec ls)"
  have d: "dst < length (ts_tbs ?s)"
    using c by (simp add: current_def live_def)
  have "exits_ok (?s\<lparr>ts_tbs := retarget src dst (ts_tbs ?s)\<rparr>)" if "exits_ok ?s"
    using that d src by (auto simp: exits_ok_def exit_targets_def upd_tb_def map_update dest!: subsetD [OF set_update_subset_insert])
  then show "mid_ok gp k (ls\<lparr>ls_exec := store_exit_target (ls_exec ls) src dst\<rparr>)"
    using m by (simp add: mid_ok_def blocks_ok_def lock_free_def store_exit_target_def exec_ok_def cache_in_store_def
        retarget_store retarget_live)
  show "current gp (es_store (store_exit_target (ls_exec ls) src dst)) c dst"
    using c by (simp add: current_def store_exit_target_def retarget_live)
qed

lemma indirect_exit_ok:
  assumes m: "mid_ok gp k ls" and k: "k + 1 < 2 ^ 64" and tr: "translator_ok ho"
    and src: "src < length (ts_tbs (es_store (ls_exec ls)))"
  shows "safe gp (k + 1) (\<lambda>_ ls'. settled gp (k + 1) ls') (indirect_exit gp ho src ls)"
  unfolding indirect_exit_def
proof (rule safe_bind)
  let ?G = "\<lambda>ls'. mid_ok gp (k + 1) ls' \<and> faultless gp (ls_cpu ls') \<and> src < length (ts_tbs (es_store (ls_exec ls')))"
  show "safe gp (k + 1) (\<lambda>_ ls'. ?G ls') (faults_and_flushes gp (count_stat (\<lambda>s. s\<lparr>nochain_exit := nochain_exit s + 1\<rparr>) ls))"
    by (rule safe_mono [OF faults_and_flushes_ok]) (use m k src in simp_all)
  fix ls1
  assume G: "?G ls1"
  define p f where "p = gp_get_pc gp (ls_cpu ls1)" and "f = gp_get_flags gp (ls_cpu ls1)"
  have e: "exits_ok (es_store (ls_exec ls1))" and s1: "src < length (ts_tbs (es_store (ls_exec ls1)))"
    using G by (simp_all add: mid_ok_def blocks_ok_def)
  obtain r where r: "cached_target (es_store (ls_exec ls1)) src p f = Some r"
      "\<And>i. r = Some i \<Longrightarrow> live (es_store (ls_exec ls1)) i \<and> tb_pc (ts_tbs (es_store (ls_exec ls1)) ! i) = p
        \<and> tb_flags (ts_tbs (es_store (ls_exec ls1)) ! i) = f"
    by (rule cached_target_ok [OF e s1]) (rule that)
  have new: "safe gp (k + 1) (\<lambda>_ ls'. settled gp (k + 1) ls') (flow_bind (find_tb gp ho ls1 p f) (\<lambda>dst ls.
      Some (Go () (ls\<lparr>ls_exec := store_exit_target (ls_exec ls) src dst, ls_hint := Some dst\<rparr>))))"
  proof (rule safe_bind)
    show "safe gp (k + 1) (\<lambda>i ls'. ?G ls' \<and> current gp (es_store (ls_exec ls')) (ls_cpu ls') i) (find_tb gp ho ls1 p f)"
      by (rule safe_mono [OF find_tb_ok [OF _ tr]]) (use G in \<open>auto simp: at_def p_def f_def\<close>)
  next
    fix dst ls2
    assume "?G ls2 \<and> current gp (es_store (ls_exec ls2)) (ls_cpu ls2) dst"
    then show "safe gp (k + 1) (\<lambda>_ ls'. settled gp (k + 1) ls')
        (Some (Go () (ls2\<lparr>ls_exec := store_exit_target (ls_exec ls2) src dst, ls_hint := Some dst\<rparr>)))"
      using store_exit_target_ok [of gp "k + 1" ls2 "ls_cpu ls2" dst src]
        head_ok_hint [of gp "k + 1" "ls2\<lparr>ls_exec := store_exit_target (ls_exec ls2) src dst\<rparr>" dst]
      by (simp add: settled_def)
  qed simp
  show "safe gp (k + 1) (\<lambda>_ ls'. settled gp (k + 1) ls')
      (let p = gp_get_pc gp (ls_cpu ls1); f = gp_get_flags gp (ls_cpu ls1)
       in do {
         target \<leftarrow> cached_target (es_store (ls_exec ls1)) src p f;
         case target of
           Some cached \<Rightarrow> Some (take_cached gp cached p ls1)
         | None \<Rightarrow> flow_bind (find_tb gp ho ls1 p f) (\<lambda>dst ls.
             Some (Go () (ls\<lparr>ls_exec := store_exit_target (ls_exec ls) src dst, ls_hint := Some dst\<rparr>)))
       })"
  proof (cases r)
    case None
    then show ?thesis
      using new r(1) by (simp add: Let_def p_def f_def)
  next
    case (Some i)
    then have "safe gp (k + 1) (\<lambda>_ ls'. settled gp (k + 1) ls') (Some (take_cached gp i p ls1))"
      using G r(2) [OF Some] by (intro take_cached_ok) (simp_all add: current_def p_def f_def)
    then show ?thesis
      using Some r(1) by (simp add: Let_def p_def f_def)
  qed
qed simp

lemma flush_dirty_tb_pages_ok:
  assumes b: "blocks_ok k st" and k: "k + 1 < 2 ^ 64"
  obtains st' where "flush_dirty_tb_pages st dirty' = Some st'" "blocks_ok (k + 1) st'" "lock_free st' = lock_free st"
proof (cases "dirty' = []")
  case True
  then have "flush_dirty_tb_pages st dirty' = Some (flush_all st)"
    by (simp add: flush_dirty_tb_pages_def flush_all_def)
  then show ?thesis
    using that flush_all_ok [OF b k] by simp
next
  case False
  have "exec_ok st"
    using b by (simp add: blocks_ok_def)
  then obtain st1 where "invalidate_pages (\<lambda>_ _. True) st dirty' = Some st1" "flushed (on_pages (es_store st) dirty') st st1"
    using invalidate_pages_flushed by blast
  then show ?thesis
    using that False flushed_blocks_ok [OF b _ k, of _ st1] by (simp add: flush_dirty_tb_pages_def)
qed

lemma arch_action_ok:
  assumes m: "mid_ok gp k ls" and k: "k + 1 < 2 ^ 64"
  shows "safe gp (k + 1) (\<lambda>_ ls'. settled gp (k + 1) ls') (arch_action gp action ls)"
proof -
  have b: "blocks_ok k (ls_exec ls)" "lock_free (ls_exec ls)"
    using m by (simp_all add: mid_ok_def)
  have m1: "mid_ok gp (k + 1) ls"
    using m by (rule mid_ok_mono) simp
  have flush: "mid_ok gp (k + 1) (ls\<lparr>ls_exec := flush_all (ls_exec ls), ls_cpu := c, ls_hint := None\<rparr>)" for c
    by (rule mid_ok_flush [OF m k])
  have pend: "settled gp (k + 1) \<lparr>ls_exec = st, ls_cpu = c', ls_hint = hint\<rparr>"
    if "flush_pending_tbs pending (ls_exec ls) (ls_hint ls) = (did, st, hint)" for pending did st hint c'
    using that m1 flush by (intro mid_settled) (auto simp: flush_pending_tbs_def mid_ok_def split: if_splits)
  have "settled gp (k + 1) (ls\<lparr>ls_exec := flush_all (ls_exec ls), ls_hint := None\<rparr>)"
    using flush [of "ls_cpu ls"] by (intro mid_settled) simp
  moreover have "safe gp (k + 1) (\<lambda>_ ls'. settled gp (k + 1) ls')
      (do { st \<leftarrow> flush_dirty_tb_pages (ls_exec ls) d; Some (Go () (ls\<lparr>ls_exec := st, ls_hint := None\<rparr>)) })" for d
  proof -
    obtain st' where "flush_dirty_tb_pages (ls_exec ls) d = Some st'" "blocks_ok (k + 1) st'" "lock_free st' = lock_free (ls_exec ls)"
      by (rule flush_dirty_tb_pages_ok [OF b(1) k])
    then show ?thesis
      using b(2) by (auto intro!: mid_settled simp: mid_ok_def)
  qed
  ultimately show ?thesis
    using mid_settled [OF m1] mid_head [OF m1] pend by (cases action) (auto simp: arch_action_def split: prod.split)
qed

lemma arch_exit_ok:
  assumes m: "mid_ok gp k ls" and k: "k + 1 < 2 ^ 64" and src: "src < length (ts_tbs (es_store (ls_exec ls)))"
  shows "safe gp (k + 1) (\<lambda>_ ls'. settled gp (k + 1) ls') (arch_exit gp src exit_code retired ls)"
proof -
  obtain action c where a: "gp_handle_arch_exit gp (ls_cpu ls) exit_code = (action, c)"
    by fastforce
  have "safe gp (k + 1) (\<lambda>_ ls'. settled gp (k + 1) ls')
      (arch_action gp action ((count_stat (\<lambda>s. s\<lparr>real_exit := real_exit s + 1\<rparr>) ls)\<lparr>ls_cpu := x\<rparr>))" for x
    using m by (intro arch_action_ok k) simp
  then show ?thesis
    using src by (simp add: arch_exit_def ts_get_def a)
qed

lemma dispatch_exit_ok:
  assumes m: "mid_ok gp k ls" and k: "k + 1 < 2 ^ 64" and tr: "translator_ok ho"
    and src: "src < length (ts_tbs (es_store (ls_exec ls)))"
  shows "safe gp (k + 1) (\<lambda>_ ls'. settled gp (k + 1) ls') (dispatch_exit gp ho src exit_code retired ls)"
proof -
  have "unat exit_code < 2" if "exit_code \<le> 1"
    using that by (simp add: word_le_nat_alt)
  moreover have "mid_ok gp (k + 1) ls"
    using m by (rule mid_ok_mono) simp
  ultimately show ?thesis
    using chain_slot_ok [OF m k tr src] indirect_exit_ok [OF m k tr src] arch_exit_ok [OF m k src]
      mid_head [of gp "k + 1" "count_stat f ls" for f] mid_settled [of gp "k + 1" "ls\<lparr>ls_cpu := c\<rparr>" for c]
    by (simp add: dispatch_exit_def)
qed

section \<open>The loop\<close>

lemma end_iter_ok:
  assumes s: "settled gp k ls" and st: "stepping \<Longrightarrow> \<not> undisturbed_guest gp"
  shows "safe gp k G (Some (end_iter gp stepping ls))"
proof (cases stepping)
  case True
  then have "\<not> undisturbed_guest gp"
    using st by simp
  then show ?thesis
    using s True by (simp add: end_iter_def settled_def head_ok_def current_def)
next
  case False
  obtain fault c1 where f: "gp_check_mem_fault gp (ls_cpu ls) = (fault, c1)"
    by fastforce
  have h: "head_ok gp k (ls\<lparr>ls_cpu := c1\<rparr>)"
  proof (cases "ls_hint ls = None \<or> \<not> undisturbed_guest gp")
    case True
    then show ?thesis
      using s by (auto simp: settled_def head_ok_def current_def)
  next
    case False
    then have "c1 = ls_cpu ls"
      using s f undisturbed_guest.no_fault [of gp "ls_cpu ls"] by (auto simp: settled_def faultless_def)
    then show ?thesis
      using s by (simp add: settled_def)
  qed
  define ls1 where "ls1 = (if \<not> fault \<and> gp_pending_interrupt gp c1 then ls\<lparr>ls_cpu := gp_handle_interrupt gp c1, ls_hint := None\<rparr>
      else if gp_has_pending_irq gp c1 then ls\<lparr>ls_cpu := gp_set_exit_request gp c1\<rparr> else ls\<lparr>ls_cpu := c1\<rparr>)"
  have "head_ok gp k (ls\<lparr>ls_cpu := gp_set_exit_request gp c1\<rparr>)"
    using head_ok_moves [OF h, of "gp_set_exit_request gp c1"] undisturbed_guest.set_request [of gp] by simp
  then have h1: "head_ok gp k ls1"
    using h by (auto simp: ls1_def head_ok_def)
  obtain stop c2 where c2: "gp_should_exit gp (ls_cpu ls1) = (stop, c2)"
    by fastforce
  have "head_ok gp k (ls1\<lparr>ls_cpu := c2\<rparr>)"
    by (rule head_ok_moves [OF h1]) (metis undisturbed_guest.should_exit_keeps c2 snd_conv)
  moreover have "end_iter gp stepping ls = (if stop then Done Halted (ls1\<lparr>ls_cpu := c2\<rparr>) else pause gp (ls1\<lparr>ls_cpu := c2\<rparr>))"
    using False c2 unfolding end_iter_def f prod.case ls1_def [symmetric] Let_def by simp
  ultimately show ?thesis
    using pause_ok by (cases stop) simp_all
qed

lemma loop_iter_ok:
  assumes s: "start_ok gp k jumped ls" and k: "k + 2 < 2 ^ 64" and tr: "translator_ok ho" and run: "run_ok run"
  shows "safe gp (k + 2) (\<lambda>_ ls'. head_ok gp (k + 2) ls') (loop_iter gp ho run jumped ls)"
proof -
  have k2: "k + 1 < 2 ^ 64" "k + 1 + 1 < 2 ^ 64" "k + 2 = k + 1 + 1"
    using k by simp_all
  let ?len = "\<lambda>ls. length (ts_tbs (es_store (ls_exec ls)))"
  let ?H = "\<lambda>_ ls'. head_ok gp (k + 1 + 1) ls'"
  have fin: "safe gp (k + 1 + 1) ?H (flow_bind (dispatch_exit gp ho src e r ls4) (\<lambda>_ ls5. Some (end_iter gp step ls5)))"
    if "mid_ok gp (k + 1) ls4" "src < ?len ls4" "step \<longrightarrow> \<not> undisturbed_guest gp" for src e r ls4 step
    by (rule safe_bind [OF dispatch_exit_ok [OF that(1) k2(2) tr that(2)]]) (use that(3) in \<open>auto intro: end_iter_ok\<close>)
  have wr: "safe gp (k + 1 + 1) ?H (flow_bind (flush_written gp ls3) (\<lambda>_ ls4.
      flow_bind (dispatch_exit gp ho src e r ls4) (\<lambda>_ ls5. Some (end_iter gp step ls5))))"
    if "mid_ok gp k ls3" "src < ?len ls3" "step \<longrightarrow> \<not> undisturbed_guest gp" for src e r ls3 step
    by (rule safe_bind [OF flush_written_ok [OF that(1) k2(1)] fin]) (use that in simp_all)
  have ac: "safe gp (k + 1 + 1) ?H (flow_bind (account gp i raw ls2) (\<lambda>(src, e, r) ls3. flow_bind (flush_written gp ls3) (\<lambda>_ ls4.
      flow_bind (dispatch_exit gp ho src e r ls4) (\<lambda>_ ls5. Some (end_iter gp step ls5)))))"
    if "mid_ok gp k ls2" "i < ?len ls2" "\<forall>j. fst (decode_tb_exit raw) = Some j \<longrightarrow> j < ?len ls2"
      "step \<longrightarrow> \<not> undisturbed_guest gp" for i raw ls2 step
    by (rule safe_bind [OF account_ok [OF that(1-3)]], clarify, rule wr) (use that(4) in simp_all)
  show ?thesis
    unfolding loop_iter_def k2(3)
  proof (rule safe_bind [OF next_tb_ok [OF s tr]], clarify)
    fix step i ls1
    assume g: "mid_ok gp k ls1" "current gp (es_store (ls_exec ls1)) (ls_cpu ls1) i" "step \<longrightarrow> \<not> undisturbed_guest gp"
    have "live (es_store (ls_exec ls1)) i"
      using g(2) by (simp add: current_def)
    then show "safe gp (k + 1 + 1) ?H (flow_bind (run_tb run i ls1) (\<lambda>raw ls2.
        flow_bind (account gp i raw ls2) (\<lambda>(src, e, r) ls3. flow_bind (flush_written gp ls3) (\<lambda>_ ls4.
        flow_bind (dispatch_exit gp ho src e r ls4) (\<lambda>_ ls5. Some (end_iter gp step ls5))))))"
      by (intro safe_bind [OF run_tb_ok [OF g(1) _ run] ac]) (use g(3) in simp_all)
  qed simp
qed

section \<open>Runs of the loop\<close>

definition resumes :: "(unit, 'c) flow \<Rightarrow> (bool \<times> 'c loop_state) option" where
  "resumes fl = (case fl of Go _ ls \<Rightarrow> Some (False, ls) | Again ls \<Rightarrow> Some (False, ls) | Jumped ls \<Rightarrow> Some (True, ls)
     | Done _ _ \<Rightarrow> None)"

text \<open>The states at the start of the iterations, with their number.\<close>

inductive loop_reach :: "('c, 'ir) guest_cpu \<Rightarrow> 'ir host_ops \<Rightarrow> 'c host_code \<Rightarrow> 'c loop_state \<Rightarrow> nat \<Rightarrow> bool \<Rightarrow> 'c loop_state \<Rightarrow> bool"
  for gp ho run ls0 where
  reach_start: "loop_reach gp ho run ls0 0 False ls0"
| reach_next: "loop_reach gp ho run ls0 n jumped ls \<Longrightarrow> loop_iter gp ho run jumped ls = Some fl \<Longrightarrow> resumes fl = Some (jumped', ls')
    \<Longrightarrow> loop_reach gp ho run ls0 (Suc n) jumped' ls'"

lemma exec_ok_new:
  assumes "capacity cb < 2 ^ 31" and "cb_offset cb \<le> capacity cb"
  shows "exec_ok (es_new cb)" "exits_ok (es_store (es_new cb))"
proof -
  have "hash_list ts_new b []" "page_list ts_new p []" "on_page ts_new p = {}" for b p
    by (simp_all add: hash_list_def page_list_def ts_new_def on_page_def live_def)
  then have "lists_ok ts_new" "counts_ok ts_new"
    by (auto simp: lists_ok_def counts_ok_def ts_new_def)
  then show "exec_ok (es_new cb)"
    using assms jc_ok_new
    by (simp add: exec_ok_def es_new_def store_ok_def gens_ok_def edges_ok_def chained_ok_def sites_ok_def sites_apart_def
        jumps_ok_def live_def cache_in_store_def ts_new_def jc_new_def)
  show "exits_ok (es_store (es_new cb))"
    by (simp add: exits_ok_def exit_targets_def es_new_def ts_new_def)
qed

lemma loop_start_ok:
  assumes "capacity cb < 2 ^ 31" and "cb_offset cb \<le> capacity cb"
  shows "start_ok gp 1 False (loop_start (es_new cb) c)"
  using exec_ok_new [OF assms]
  by (simp add: start_ok_def head_ok_def loop_start_def blocks_ok_def lock_free_def es_new_def ts_new_def jc_new_def)

lemma loop_reach_ok:
  assumes "loop_reach gp ho run (loop_start (es_new cb) c) n jumped ls" and "2 * n + 1 < 2 ^ 64"
    and "capacity cb < 2 ^ 31" and "cb_offset cb \<le> capacity cb" and tr: "translator_ok ho" and run: "run_ok run"
  shows "start_ok gp (2 * n + 1) jumped ls"
  using assms(1,2)
proof (induction rule: loop_reach.induct)
  case reach_start
  then show ?case
    using loop_start_ok [OF assms(3,4)] by simp
next
  case (reach_next n jumped ls fl jumped' ls')
  have "safe gp (2 * n + 1 + 2) (\<lambda>_ ls'. head_ok gp (2 * n + 1 + 2) ls') (loop_iter gp ho run jumped ls)"
    using reach_next.IH reach_next.prems by (intro loop_iter_ok tr run) simp_all
  then show ?case
    using reach_next.hyps(2,3) by (cases fl) (auto simp: resumes_def start_ok_def)
qed

end
