(* ===== verification/Exec_Loop_Properties.thy ===== *)
theory Exec_Loop_Properties
  imports Exec_Loop_Invariant
begin

text \<open>
  What the dispatch loop promises of every guest CPU: its iterations return, chained jumps lead to
  valid code, and writes to code drop exactly the blocks on the written pages. A small guest with
  one-instruction blocks shows the hypotheses at work.
\<close>

section \<open>A guest of one-instruction blocks\<close>

text \<open>The state is the pc; host code is one jump, whose run is left by the long jump of a helper.\<close>

definition demo_guest :: "(u64, unit) guest_cpu" where
  "demo_guest =
     \<lparr>gp_ops = \<lparr>gc_translate_pc = \<lambda>c v. v, gc_gen_code = \<lambda>c i p m. (4, (), c), gc_last_phys_pc = \<lambda>c. c\<rparr>,
      gp_get_pc = \<lambda>c. c, gp_get_flags = \<lambda>c. 0, gp_pending_interrupt = \<lambda>c. False, gp_has_pending_irq = \<lambda>c. False,
      gp_handle_interrupt = \<lambda>c. c, gp_handle_exception = \<lambda>c e t. c, gp_handle_arch_exit = \<lambda>c e. (ActHalted, c),
      gp_set_exit_request = \<lambda>c. c, gp_reset_exit_request = \<lambda>c. c, gp_should_exit = \<lambda>c. (False, c),
      gp_check_monitor_pause = \<lambda>c. (False, c), gp_check_mem_fault = \<lambda>c. (False, c),
      gp_tb_exit_nonretired_insns = \<lambda>c e. 0, gp_on_tb_executed = \<lambda>c s n. c, gp_take_tb_flush_pending = \<lambda>c. (False, c),
      gp_take_dirty_pages = \<lambda>c. ([], c), gp_gdb_single_step = \<lambda>c. False, gp_gdb_complete_step = \<lambda>c. c,
      gp_gdb_check_breakpoint = \<lambda>c p. (False, c), gp_gdb_breakpoint_in_tb = \<lambda>c p n. False\<rparr>"

definition demo_translate :: "code_buffer \<Rightarrow> code_buffer + nat \<times> (nat \<times> nat) option list \<times> code_buffer" where
  "demo_translate cb =
     (let o1 = cb_offset cb; o2 = o1 + 5
      in if o2 \<le> capacity cb
         then Inr (o1, [Some (o1, o2), None],
           cb\<lparr>cb_mem := take o1 (cb_mem cb) @ [0xE9, 0, 0, 0, 0] @ drop o2 (cb_mem cb), cb_offset := o2\<rparr>)
         else Inl cb)"

definition demo_host :: "'ir host_ops" where
  "demo_host = \<lparr>ho_insn_starts = \<lambda>ir. 1, ho_instret_discarded = \<lambda>ir. 0, ho_contains_atomic = \<lambda>ir. False,
     ho_translate = \<lambda>ir. demo_translate\<rparr>"

definition demo_run :: "'c host_code" where
  "demo_run st c i = (None, c)"

definition demo_buffer :: code_buffer where
  "demo_buffer = \<lparr>cb_mem = replicate 8192 0, cb_offset = 0, cb_jmp_trans = False\<rparr>"

lemma demo_ok:
  "translator_ok demo_host" "run_ok demo_run" "capacity demo_buffer < 2 ^ 31" "cb_offset demo_buffer \<le> capacity demo_buffer"
  by (auto simp: translator_ok_def demo_host_def demo_translate_def Let_def emitted_ok_def code_prefix_kept_def nth_Cons' run_ok_def
      demo_run_def demo_buffer_def capacity_def load_bytes_def)

text \<open>The state after the first iteration: one block at the pc, with one jump.\<close>

lemma demo_generates:
  obtains st' where "gen_attempt (gp_ops demo_guest) demo_host ((es_new demo_buffer)\<lparr>es_stats := x\<rparr>) 0x1000 0x1000 0 0 512
      = Some (Block 0, st', 0x1000)"
    "live (es_store st') 0" "tb_phys_pc (ts_tbs (es_store st') ! 0) = 0x1000" "\<not> tb_contains_atomic (ts_tbs (es_store st') ! 0)"
    "tb_jmp_insn_offset (ts_tbs (es_store st') ! 0) ! 0 = Some 0"
  by (simp add: gen_attempt_def es_new_def demo_guest_def demo_host_def ts_alloc_def ts_new_def MAX_TBS_def get_mut_def upd_tb_def
      mark_code_page_def Let_def demo_translate_def demo_buffer_def capacity_def ts_insert_def ts_get_def
      CODE_REFCOUNT_PAGES_def tb_new_def set_jmp_insn_offset_def set_jmp_reset_offset_def live_def tb_valid_def)

lemma demo_guest_simps [simp]:
  "gp_get_pc demo_guest c = c" "gp_get_flags demo_guest c = 0" "\<not> gp_pending_interrupt demo_guest c" "\<not> gp_has_pending_irq demo_guest c"
  "gp_reset_exit_request demo_guest c = c" "\<not> gp_gdb_single_step demo_guest c" "gp_gdb_check_breakpoint demo_guest c p = (False, c)"
  "\<not> gp_gdb_breakpoint_in_tb demo_guest c p n" "gc_translate_pc (gp_ops demo_guest) c p = p"
  by (simp_all add: demo_guest_def)

lemma demo_find:
  obtains st' where "tb_find (gp_ops demo_guest) demo_host ((es_new demo_buffer)\<lparr>es_stats := x\<rparr>) 0x1000 0x1000 0 = Some (Some 0, st', 0x1000)"
    "live (es_store st') 0" "tb_phys_pc (ts_tbs (es_store st') ! 0) = 0x1000" "\<not> tb_contains_atomic (ts_tbs (es_store st') ! 0)"
    "tb_jmp_insn_offset (ts_tbs (es_store st') ! 0) ! 0 = Some 0"
proof -
  let ?st = "\<lambda>x. (es_new demo_buffer)\<lparr>es_stats := x\<rparr>" and ?go = "gp_ops demo_guest"
  let ?x = "x\<lparr>st_translate := st_translate x + 1\<rparr>"
  have jc: "jc_lookup (es_jc (?st x)) p = None" for x p
    by (simp add: es_new_def jc_lookup_def jc_new_def jc_index_bound)
  have look: "ts_lookup (es_store (?st x)) p f = Some None" for x p f
    by (simp add: es_new_def ts_new_def ts_lookup_def lookup_walk.simps)
  have room: "\<not> remaining (es_cb (?st x)) < MIN_CODE_BUF_REMAINING" for x
    by (simp add: es_new_def remaining_def demo_buffer_def MIN_CODE_BUF_REMAINING_def capacity_def)
  have "max_insns 0 = 512" "cb_offset (es_cb (es_new demo_buffer)) = 0"
    by (simp_all add: max_insns_def es_new_def demo_buffer_def)
  then have find: "tb_find ?go demo_host (?st x) 0x1000 0x1000 0 = gen_loop ?go demo_host 0x1000 0 0 512 0 512 (?st ?x) 0x1000"
    using jc [of x] look room by (simp add: tb_find_def tb_gen_code_def Let_def)
  obtain st' where st': "gen_attempt ?go demo_host (?st ?x) 0x1000 0x1000 0 0 512 = Some (Block 0, st', 0x1000)"
    "live (es_store st') 0" "tb_phys_pc (ts_tbs (es_store st') ! 0) = 0x1000" "\<not> tb_contains_atomic (ts_tbs (es_store st') ! 0)"
    "tb_jmp_insn_offset (ts_tbs (es_store st') ! 0) ! 0 = Some 0"
    by (rule demo_generates)
  have "gen_loop ?go demo_host 0x1000 0 0 512 0 512 (?st ?x) 0x1000 = Some (Some 0, st', 0x1000)"
    by (subst gen_loop.simps) (simp add: st'(1))
  with find show ?thesis
    using that st'(2-5) by simp
qed

lemma demo_first_iteration:
  obtains ls where "loop_iter demo_guest demo_host demo_run False (loop_start (es_new demo_buffer) 0x1000) = Some (Jumped ls)"
    "live (es_store (ls_exec ls)) 0" "tb_phys_pc (ts_tbs (es_store (ls_exec ls)) ! 0) = 0x1000"
    "tb_jmp_insn_offset (ts_tbs (es_store (ls_exec ls)) ! 0) ! 0 = Some 0"
proof -
  let ?x = "es_stats (es_new demo_buffer)"
  obtain st' where st': "tb_find (gp_ops demo_guest) demo_host
      ((es_new demo_buffer)\<lparr>es_stats := ?x\<lparr>loop_iters := loop_iters ?x + 1\<rparr>\<rparr>) 0x1000 0x1000 0 = Some (Some 0, st', 0x1000)"
    "live (es_store st') 0" "tb_phys_pc (ts_tbs (es_store st') ! 0) = 0x1000" "\<not> tb_contains_atomic (ts_tbs (es_store st') ! 0)"
    "tb_jmp_insn_offset (ts_tbs (es_store st') ! 0) ! 0 = Some 0"
    by (rule demo_find)
  have "ts_get (es_store st') 0 = Some (ts_tbs (es_store st') ! 0)"
    using st'(2) by (simp add: ts_get_def live_def)
  then have "loop_iter demo_guest demo_host demo_run False (loop_start (es_new demo_buffer) 0x1000)
      = Some (Jumped \<lparr>ls_exec = st', ls_cpu = 0x1000, ls_hint = None\<rparr>)"
    using st'(1,4)
    by (simp add: loop_iter_def next_tb_def Let_def loop_start_def count_stat_def deliver_interrupts_def select_tb_def
        find_tb_def or_fault_def breakpoint_gate_def run_tb_def demo_run_def)
  then show ?thesis
    by (rule that) (simp_all only: loop_state.select_convs st'(2,3,5))
qed

lemma demo_reach:
  obtains ls where "loop_reach demo_guest demo_host demo_run (loop_start (es_new demo_buffer) 0x1000) 1 True ls"
    "live (es_store (ls_exec ls)) 0" "tb_phys_pc (ts_tbs (es_store (ls_exec ls)) ! 0) = 0x1000"
    "tb_jmp_insn_offset (ts_tbs (es_store (ls_exec ls)) ! 0) ! 0 = Some 0"
proof -
  obtain ls where ls: "loop_iter demo_guest demo_host demo_run False (loop_start (es_new demo_buffer) 0x1000) = Some (Jumped ls)"
    "live (es_store (ls_exec ls)) 0" "tb_phys_pc (ts_tbs (es_store (ls_exec ls)) ! 0) = 0x1000"
    "tb_jmp_insn_offset (ts_tbs (es_store (ls_exec ls)) ! 0) ! 0 = Some 0"
    by (rule demo_first_iteration)
  have "loop_reach demo_guest demo_host demo_run (loop_start (es_new demo_buffer) 0x1000) (Suc 0) True ls"
    by (rule reach_next [OF reach_start ls(1)]) (simp add: resumes_def)
  then show ?thesis
    using that ls(2-4) by simp
qed

section \<open>Properties\<close>

text \<open>
  C12: Every iteration of the dispatch loop returns, for every guest CPU: in the states that the
  loop reaches with a translator and host code that keep their contract, no step of an iteration
  panics or spins forever - not the search for a block, not its generation with its retries after the
  buffer overflows, not the chaining, not the flushes - and the lock that serialises atomic
  blocks is free again at its end, or is freed by the recovery when a helper has left the block by
  the long jump.
\<close>
theorem dispatch_iteration_returns:
  assumes "loop_reach gp ho run (loop_start (es_new cb) c) n jumped ls" and n: "2 * n + 3 < 2 ^ 64"
    and "capacity cb < 2 ^ 31" and "cb_offset cb \<le> capacity cb" and tr: "translator_ok ho" and run: "run_ok run"
  shows "\<exists>fl. loop_iter gp ho run jumped ls = Some fl \<and> (case fl of
     Go _ ls' \<Rightarrow> lock_free (ls_exec ls') | Again ls' \<Rightarrow> lock_free (ls_exec ls') | Done _ ls' \<Rightarrow> lock_free (ls_exec ls')
   | Jumped ls' \<Rightarrow> lock_free (ls_exec (recover ls')))"
proof -
  have "start_ok gp (2 * n + 1) jumped ls"
    using loop_reach_ok [OF assms(1) _ assms(3-6)] n by simp
  then have "safe gp (2 * n + 1 + 2) (\<lambda>_. head_ok gp (2 * n + 1 + 2)) (loop_iter gp ho run jumped ls)"
    using n by (intro loop_iter_ok tr run) simp_all
  moreover have "lock_free (ls_exec (recover ls'))" if "left_ok k ls'" for ls' :: "'a loop_state" and k
    using that by (auto simp: left_ok_def recover_def lock_free_def)
  ultimately show ?thesis
    by (cases "loop_iter gp ho run jumped ls") (auto simp: safe_def head_ok_def split: flow.splits)
qed

theorem dispatch_iteration_returns_witness:
  "\<exists>fl. loop_iter demo_guest demo_host demo_run False (loop_start (es_new demo_buffer) 0x1000) = Some fl \<and> (case fl of
     Go _ ls' \<Rightarrow> lock_free (ls_exec ls') | Again ls' \<Rightarrow> lock_free (ls_exec ls') | Done _ ls' \<Rightarrow> lock_free (ls_exec ls')
   | Jumped ls' \<Rightarrow> lock_free (ls_exec (recover ls')))"
  by (rule dispatch_iteration_returns [OF reach_start _ demo_ok(3) demo_ok(4) demo_ok(1) demo_ok(2)]) simp

text \<open>
  C13: Direct jumps between blocks stay safe. In every state the loop reaches, the jump instruction of
  every exit slot of every valid block leads to the block's own exit stub or to the first byte of
  the host code of a block that is valid too: no flush, regeneration or eviction leaves a patched
  jump into code of a block that was dropped.
\<close>
theorem chained_jumps_lead_to_valid_code:
  assumes "loop_reach gp ho run (loop_start (es_new cb) c) n jumped ls" and "2 * n + 1 < 2 ^ 64"
    and "capacity cb < 2 ^ 31" and "cb_offset cb \<le> capacity cb" and "translator_ok ho" and "run_ok run"
    and live: "live (es_store (ls_exec ls)) i" and slot: "slot < 2"
    and site: "tb_jmp_insn_offset (ts_tbs (es_store (ls_exec ls)) ! i) ! slot = Some off"
  shows "jump_target (es_cb (ls_exec ls)) (unat off) = map_option uint (tb_jmp_reset_offset (ts_tbs (es_store (ls_exec ls)) ! i) ! slot)
    \<or> (\<exists>dst. live (es_store (ls_exec ls)) dst
         \<and> jump_target (es_cb (ls_exec ls)) (unat off) = Some (int (tb_host_offset (ts_tbs (es_store (ls_exec ls)) ! dst))))"
proof -
  have "exec_ok (ls_exec ls)"
    using loop_reach_ok [OF assms(1-6)] by (cases jumped) (simp_all add: start_ok_def left_ok_def head_ok_def blocks_ok_def)
  then have ok: "chained_ok (es_store (ls_exec ls))" "sites_ok (ts_tbs (es_store (ls_exec ls))) (es_cb (ls_exec ls))"
      "jumps_ok (ts_tbs (es_store (ls_exec ls))) (es_cb (ls_exec ls))"
    by (simp_all add: exec_ok_def store_ok_def)
  have i: "i < length (ts_tbs (es_store (ls_exec ls)))" "\<not> tb_invalid (ts_tbs (es_store (ls_exec ls)) ! i)"
    using live by (simp_all add: live_def tb_valid_def)
  obtain r where r: "tb_jmp_reset_offset (ts_tbs (es_store (ls_exec ls)) ! i) ! slot = Some r"
    using ok(2) i(1) slot site unfolding sites_ok_def site_ok_def by blast
  show ?thesis
  proof (cases "dest (ts_tbs (es_store (ls_exec ls))) i slot")
    case None
    then show ?thesis
      using ok(3) i slot site r by (simp add: jumps_ok_def)
  next
    case (Some dst)
    then have "live (es_store (ls_exec ls)) dst"
      using ok(1) live slot unfolding chained_ok_def by blast
    then show ?thesis
      using ok(3) i slot site Some by (auto simp: jumps_ok_def)
  qed
qed

theorem chained_jumps_lead_to_valid_code_witness:
  "\<exists>ls. live (es_store (ls_exec ls)) 0 \<and> tb_jmp_insn_offset (ts_tbs (es_store (ls_exec ls)) ! 0) ! 0 = Some 0
    \<and> (jump_target (es_cb (ls_exec (ls :: u64 loop_state))) 0 = map_option uint (tb_jmp_reset_offset (ts_tbs (es_store (ls_exec ls)) ! 0) ! 0)
      \<or> (\<exists>dst. live (es_store (ls_exec ls)) dst
           \<and> jump_target (es_cb (ls_exec ls)) 0 = Some (int (tb_host_offset (ts_tbs (es_store (ls_exec ls)) ! dst)))))"
proof (rule demo_reach)
  fix ls
  assume r: "loop_reach demo_guest demo_host demo_run (loop_start (es_new demo_buffer) 0x1000) 1 True ls"
    and l: "live (es_store (ls_exec ls)) 0" "tb_jmp_insn_offset (ts_tbs (es_store (ls_exec ls)) ! 0) ! 0 = Some 0"
  then show ?thesis
    using chained_jumps_lead_to_valid_code [OF r _ demo_ok(3) demo_ok(4) demo_ok(1) demo_ok(2) l(1) _ l(2)]
    by (intro exI [of _ ls]) simp
qed

text \<open>
  C14: Self-modifying code. When a block has written to some pages, the flush that follows succeeds,
  drops exactly the blocks whose code starts on one of those pages (of the first 2^20 pages, the
  ones the store tracks) and leaves every other block valid; no entry of the jump cache and no hint
  survives, and no jump of a block that stays leads into one that was dropped.
\<close>
theorem written_code_is_dropped:
  assumes "loop_reach gp ho run (loop_start (es_new cb) c) n jumped ls" and "2 * n + 2 < 2 ^ 64"
    and "capacity cb < 2 ^ 31" and "cb_offset cb \<le> capacity cb" and "translator_ok ho" and "run_ok run" and "pages \<noteq> []"
  shows "\<exists>st'. flush_written_code (ls_exec ls) pages hint = Some (st', None)
    \<and> (\<forall>i. live (es_store st') i \<longleftrightarrow> live (es_store (ls_exec ls)) i
         \<and> \<not> (\<exists>pg\<in>set pages. drop_bit 12 (tb_phys_pc (ts_tbs (es_store (ls_exec ls)) ! i)) = pg \<and> unat pg < 2 ^ 20))
    \<and> (\<forall>p. jc_lookup (es_jc st') p = None)
    \<and> chained_ok (es_store st') \<and> jumps_ok (ts_tbs (es_store st')) (es_cb st')"
proof -
  have "blocks_ok (2 * n + 1) (ls_exec ls)"
    using loop_reach_ok [OF assms(1) _ assms(3-6)] assms(2) by (cases jumped) (simp_all add: start_ok_def left_ok_def head_ok_def)
  moreover have "2 * n + 1 + 1 < 2 ^ 64"
    using assms(2) by simp
  ultimately obtain st' where st': "flush_written_code (ls_exec ls) pages hint = Some (st', None)" "blocks_ok (2 * n + 1 + 1) st'"
    "\<And>i. live (es_store st') i \<longleftrightarrow> live (es_store (ls_exec ls)) i \<and> i \<notin> on_pages (es_store (ls_exec ls)) pages"
    "\<And>p. jc_lookup (es_jc st') p = None"
    using assms(7) by (rule flush_written_code_ok [where hint = hint]) (rule that)
  have "i \<in> on_pages s pages \<longleftrightarrow> (\<exists>pg\<in>set pages. drop_bit 12 (tb_phys_pc (ts_tbs s ! i)) = pg \<and> unat pg < 2 ^ 20)"
    if "i < length (ts_tbs s)" for s i
    using that by (auto simp: on_pages_def tracked_def page_of_def CODE_REFCOUNT_PAGES_def dest: unsigned_word_eqI)
  then show ?thesis
    using st' by (intro exI [of _ st']) (auto simp: live_def blocks_ok_def exec_ok_def store_ok_def)
qed

theorem written_code_is_dropped_witness:
  "\<exists>ls st'. live (es_store (ls_exec (ls :: u64 loop_state))) 0 \<and> flush_written_code (ls_exec ls) [1] None = Some (st', None)
    \<and> \<not> live (es_store st') 0"
proof (rule demo_reach)
  fix ls
  assume r: "loop_reach demo_guest demo_host demo_run (loop_start (es_new demo_buffer) 0x1000) 1 True ls"
    and l: "live (es_store (ls_exec ls)) 0" "tb_phys_pc (ts_tbs (es_store (ls_exec ls)) ! 0) = 0x1000"
  then show ?thesis
    using written_code_is_dropped [OF r _ demo_ok(3) demo_ok(4) demo_ok(1) demo_ok(2), of "[1]" None]
    by (auto intro!: exI [of _ ls])
qed

end
