(* ===== verification/Riscv_Guest.thy ===== *)
theory Riscv_Guest
  imports Hart_Invariant Riscv_Front Exec_Loop_Properties
begin

text \<open>
  The full-system RISC-V CPU as a guest of the dispatch loop: the implementation of the trait
  \<open>GuestCpu\<close> by \<open>FullSystemCpu\<close> (\<open>system/src/cpus.rs\<close>) with no debugger and no monitor attached, and
  the architecture-specific exits of \<open>accel/src/exec/arch_exit.rs\<close>. It provides what the loop relies
  on, so that the results of the loop hold for the composition of the two.
\<close>

section \<open>The machine\<close>

text \<open>
  The state of the CPU and its memory. A read of host memory outside a block, which the code does
  without a check, ends the machine: nothing is said of it from there on, and its CPU is kept only
  as the value of the accessors.
\<close>

datatype 'd machine = Running (machine_fs: "'d full_system") | Lost (machine_fs: "'d full_system")

fun fs_query :: "'a \<Rightarrow> ('d full_system \<Rightarrow> mem_error + ('a \<times> 'd full_system)) \<Rightarrow> 'd machine \<Rightarrow> 'a \<times> 'd machine" where
  "fs_query d f (Lost fs) = (d, Lost fs)"
| "fs_query d f (Running fs) = (case f fs of Inl e \<Rightarrow> (d, Lost fs) | Inr (x, fs') \<Rightarrow> (x, Running fs'))"

definition fs_update :: "('d full_system \<Rightarrow> 'd full_system) \<Rightarrow> 'd machine \<Rightarrow> 'd machine" where
  "fs_update f m = snd (fs_query () (\<lambda>fs. Ok ((), f fs)) m)"

abbreviation machine_cpu :: "'d machine \<Rightarrow> riscv_cpu" where
  "machine_cpu m \<equiv> fs_cpu (machine_fs m)"

definition on_cpu :: "(riscv_cpu \<Rightarrow> 'a \<times> riscv_cpu) \<Rightarrow> 'd full_system \<Rightarrow> 'a \<times> 'd full_system" where
  "on_cpu f fs = (let (x, c) = f (fs_cpu fs) in (x, fs\<lparr>fs_cpu := c\<rparr>))"

definition fs_handle_exception :: "'d full_system \<Rightarrow> u64 \<Rightarrow> u64 \<Rightarrow> 'd full_system" where
  "fs_handle_exception fs excp tval = fs\<lparr>fs_cpu := handle_exception (fs_cpu fs) excp tval\<rparr>"

section \<open>Exits to the architecture\<close>

text \<open>
  The exits of a RISC-V block. The wait for an interrupt is a parameter: it answers whether the machine
  still runs, in the state that the other threads leave.
\<close>

definition back_and_trap :: "'d full_system \<Rightarrow> 'd full_system" where
  "back_and_trap fs = fs_handle_exception (set_pc fs (pc (fs_cpu fs) - 4)) 2 0"

definition arch_sret :: "'d full_system \<Rightarrow> arch_exit_action \<times> 'd full_system" where
  "arch_sret fs =
     (let (ok, fs1) = on_cpu execute_sret fs
      in (ActContinue, if ok then fs1 else back_and_trap fs1))"

definition arch_sfence :: "'d full_system \<Rightarrow> arch_exit_action \<times> 'd full_system" where
  "arch_sfence fs =
     (if check_sfence_trap (fs_cpu fs) then (ActContinue, back_and_trap fs)
      else (FlushAllTb, tlb_flush fs))"

definition arch_wfi :: "('d full_system \<Rightarrow> bool \<times> 'd full_system) \<Rightarrow> 'd full_system \<Rightarrow> arch_exit_action \<times> 'd full_system" where
  "arch_wfi wait fs0 =
     (let fs1 = set_halted fs0 True;
          (go, fs2) = (if pending_wfi_wakeup fs1 then (True, fs1) else wait fs1)
      in if \<not> go then (ActHalted, set_halted fs2 False)
         else let fs3 = set_halted fs2 False
              in (ActContinue, if pending_interrupt fs3 then fs_handle_interrupt fs3 else fs3))"

definition arch_priv_csr :: "'d mmio_ops \<Rightarrow> 'd full_system \<Rightarrow> mem_error + (arch_exit_action \<times> 'd full_system)" where
  "arch_priv_csr ops fs =
     res_bind (handle_priv_csr ops fs) (\<lambda>(ok, fs1).
       if \<not> ok then Ok (FlushPendingTbNonRetired 1, fs_handle_exception fs1 2 0)
       else let (suppressed, fs2) = take_instret_write_suppression fs1
            in Ok (if suppressed then FlushPendingTbInstretDiscarded else FlushPendingTb, fs2))"

definition handle_riscv_arch_exit :: "'d mmio_ops \<Rightarrow> ('d full_system \<Rightarrow> bool \<times> 'd full_system) \<Rightarrow> 'd full_system \<Rightarrow> u64 \<Rightarrow>
    mem_error + (arch_exit_action \<times> 'd full_system)" where
  "handle_riscv_arch_exit ops wait fs code =
     (if code = EXCP_RISCV_MRET then Ok (ActContinue, fs\<lparr>fs_cpu := execute_mret (fs_cpu fs)\<rparr>)
      else if code = EXCP_RISCV_SRET then Ok (arch_sret fs)
      else if code = EXCP_RISCV_SFENCE_VMA then Ok (arch_sfence fs)
      else if code = EXCP_RISCV_FENCE_I then
        Ok (let (pages, fs1) = on_cpu take_dirty_pages fs in (FlushDirtyTbPages pages, fs1))
      else if code = EXCP_RISCV_WFI then Ok (arch_wfi wait fs)
      else if code = EXCP_RISCV_PRIV_CSR then arch_priv_csr ops fs
      else if code = EXCP_RISCV_EBREAK then Ok (ActContinue, fs_handle_exception fs 3 (pc (fs_cpu fs)))
      else if code = EXCP_RISCV_ECALL then Ok (ActEcall (privilege_level fs), fs)
      else Ok (ActExit code, fs))"

definition tb_exit_nonretired_insns :: "u64 \<Rightarrow> u16" where
  "tb_exit_nonretired_insns code =
     (if code = EXCP_RISCV_ECALL \<or> code = EXCP_RISCV_EBREAK \<or> code = EXCP_UNDEF then 1 else 0)"

section \<open>The guest CPU\<close>

definition machine_gen_code :: "'d mmio_ops \<Rightarrow> decoder \<Rightarrow> 'd machine \<Rightarrow> u64 \<Rightarrow> u32 \<Rightarrow> u32 \<times> front_op list \<times> 'd machine" where
  "machine_gen_code ops dec m p mx =
     (let ((n, ir), m1) = fs_query (0, []) (\<lambda>fs. map_sum id (\<lambda>(n, ir, fs'). ((n, ir), fs')) (gen_code ops dec fs p mx)) m
      in (n, ir, m1))"

definition riscv_guest_ops :: "'d mmio_ops \<Rightarrow> decoder \<Rightarrow> ('d machine, front_op list) guest_ops" where
  "riscv_guest_ops ops dec =
     \<lparr>gc_translate_pc = \<lambda>m v. lookup_pc (machine_cpu m) v,
      gc_gen_code = \<lambda>m i p mx. machine_gen_code ops dec m p mx,
      gc_last_phys_pc = \<lambda>m. last_phys_pc (machine_cpu m)\<rparr>"

definition riscv_guest :: "'d mmio_ops \<Rightarrow> decoder \<Rightarrow> ('d full_system \<Rightarrow> bool \<times> 'd full_system) \<Rightarrow> ('d machine, front_op list) guest_cpu" where
  "riscv_guest ops dec wait =
     \<lparr>gp_ops = riscv_guest_ops ops dec,
      gp_get_pc = \<lambda>m. pc (machine_cpu m),
      gp_get_flags = \<lambda>m. get_flags (machine_cpu m),
      gp_pending_interrupt = \<lambda>m. pending_interrupt (machine_fs m),
      gp_has_pending_irq = \<lambda>m. has_pending_irq (machine_fs m),
      gp_handle_interrupt = fs_update fs_handle_interrupt,
      gp_handle_exception = \<lambda>m excp tval. fs_update (\<lambda>fs. fs_handle_exception fs excp tval) m,
      gp_handle_arch_exit = \<lambda>m code. fs_query ActHalted (\<lambda>fs. handle_riscv_arch_exit ops wait fs code) m,
      gp_set_exit_request = fs_update set_exit_request,
      gp_reset_exit_request = fs_update reset_exit_request,
      gp_should_exit = fs_query True should_exit,
      gp_check_monitor_pause = \<lambda>m. (False, m),
      gp_check_mem_fault = fs_query False (\<lambda>fs. Ok (on_cpu check_mem_fault fs)),
      gp_tb_exit_nonretired_insns = \<lambda>m. tb_exit_nonretired_insns,
      gp_on_tb_executed = \<lambda>m size n. fs_update (\<lambda>fs. fs\<lparr>fs_cpu := on_tb_executed (fs_cpu fs) size n\<rparr>) m,
      gp_take_tb_flush_pending = fs_query False (\<lambda>fs. Ok (take_tb_flush_pending fs)),
      gp_take_dirty_pages = fs_query [] (\<lambda>fs. Ok (on_cpu take_dirty_pages fs)),
      gp_gdb_single_step = \<lambda>m. False,
      gp_gdb_complete_step = \<lambda>m. m,
      gp_gdb_check_breakpoint = \<lambda>m p. (False, m),
      gp_gdb_breakpoint_in_tb = \<lambda>m p n. False\<rparr>"

section \<open>What a code generation keeps\<close>

text \<open>The CPU as the loop sees it: pc, flags, extensions, and the address that was translated last.\<close>

definition same_flow :: "riscv_cpu \<Rightarrow> riscv_cpu \<Rightarrow> bool" where
  "same_flow c c' \<longleftrightarrow> pc c' = pc c \<and> cpu_priv c' = cpu_priv c \<and> mmu_satp (cpu_mmu c') = mmu_satp (cpu_mmu c)
     \<and> cpu_profile c' = cpu_profile c"

lemma same_flow_refl [simp]: "same_flow c c"
  by (simp add: same_flow_def)

lemma same_flow_trans: "same_flow c c' \<Longrightarrow> same_flow c' c'' \<Longrightarrow> same_flow c c''"
  by (simp add: same_flow_def)

lemma same_flow_updates [simp]:
  "same_flow c (c'\<lparr>fault_pc := x\<rparr>) = same_flow c c'" "same_flow c (c'\<lparr>mem_fault_cause := y\<rparr>) = same_flow c c'"
  "same_flow c (c'\<lparr>mem_fault_tval := z\<rparr>) = same_flow c c'" "same_flow c (c'\<lparr>last_phys_pc := p\<rparr>) = same_flow c c'"
  "same_flow (c\<lparr>fault_pc := x\<rparr>) c' = same_flow c c'" "same_flow (c\<lparr>last_phys_pc := p\<rparr>) c' = same_flow c c'"
  by (simp_all add: same_flow_def)

lemma same_flow_latch [simp]: "same_flow c (latch_fault c' x y) = same_flow c c'"
  by (simp add: latch_fault_def)

lemma same_flow_flags: "same_flow c c' \<Longrightarrow> get_flags c' = get_flags c"
  by (simp add: same_flow_def get_flags_def Let_def)

lemma translate_pc_flow:
  assumes "translate_pc ops fs v = Ok (r, fs')"
  shows "same_flow (fs_cpu fs) (fs_cpu fs')" "last_phys_pc (fs_cpu fs') = last_phys_pc (fs_cpu fs)"
proof -
  have "mmu_satp (cpu_mmu (fs_cpu fs')) = mmu_satp (cpu_mmu (fs_cpu fs))"
    using assms paged_translate_satp
    by (fastforce simp: translate_pc_def Let_def res_simps latch_fault_def split: if_splits sum.splits)
  then show "same_flow (fs_cpu fs) (fs_cpu fs')" "last_phys_pc (fs_cpu fs') = last_phys_pc (fs_cpu fs)"
    using translate_pc_quiet [OF assms] by (simp_all add: same_flow_def quiet_def)
qed

lemma fetch_cross_flow:
  assumes "fetch_cross ops fs v lo = Ok (x, fs')"
  shows "same_flow (fs_cpu fs) (fs_cpu fs') \<and> last_phys_pc (fs_cpu fs') = last_phys_pc (fs_cpu fs)"
proof -
  obtain r fs1 where tr: "translate_pc ops fs v = Ok (r, fs1)"
    using assms by (auto simp: fetch_cross_def Let_def res_simps)
  show ?thesis
    using assms translate_pc_flow [OF tr] unfolding fetch_cross_def Let_def tr
    by (auto simp: res_simps latch_fault_def split: if_split_asm option.split_asm)
qed

lemma cross_page_flow:
  assumes "cross_page ops fs p phys block rb rs = Ok (x, fs')"
  shows "same_flow (fs_cpu fs) (fs_cpu fs') \<and> last_phys_pc (fs_cpu fs') = last_phys_pc (fs_cpu fs)"
  using assms by (auto simp: cross_page_def Let_def res_simps split: if_splits dest: fetch_cross_flow)

lemma fetch_window_cases:
  assumes "fetch_window ops fs p mx = Ok (Some w, fs')"
  obtains fs1 where "translate_pc ops (fs\<lparr>fs_cpu := (fs_cpu fs)\<lparr>fault_pc := 0\<rparr>\<rparr>) p = Ok (w_phys w, fs1)"
    "w_phys w \<noteq> - 1"
    "resolve_fetch_region (fs1\<lparr>fs_cpu := (fs_cpu fs1)\<lparr>last_phys_pc := w_phys w\<rparr>\<rparr>) (w_phys w) = Some (w_block w, w_base w, w_size w)"
    "w_limit w \<noteq> 0" "w_limit w \<le> mx"
    "cross_page ops (fs1\<lparr>fs_cpu := (fs_cpu fs1)\<lparr>last_phys_pc := w_phys w\<rparr>\<rparr>) p (w_phys w) (w_block w) (w_base w) (w_size w) = Ok (w_cross w, fs')"
    "mem_fault_cause (fs_cpu fs') = 0"
  using assms
  by (auto simp: fetch_window_def Let_def res_simps split: if_split_asm option.split_asm)

lemma fetch_window_flow:
  assumes "fetch_window ops fs p mx = Ok (Some w, fs')"
  shows "same_flow (fs_cpu fs) (fs_cpu fs')" "last_phys_pc (fs_cpu fs') = w_phys w"
  by (rule fetch_window_cases [OF assms];
      use same_flow_trans in \<open>fastforce dest: translate_pc_flow cross_page_flow\<close>)+

lemma gen_code_cases:
  assumes "gen_code ops dec fs p mx = Ok (n, ir, fs')" and "n \<noteq> 0"
  obtains w d where "fetch_window ops fs p mx = Ok (Some w, fs')"
    "tb_loop dec (window_bytes fs' w p) (dc_new p (cfg (cpu_profile (fs_cpu fs))) w) = Ok d"
    "n = ucast (dc_pc_next d - dc_pc_first d)" "ir = dc_ir (tb_stop d)"
proof -
  obtain w fs1 where w: "fetch_window ops fs p mx = Ok (Some w, fs1)"
    using assms by (auto simp: gen_code_def res_simps split: option.split_asm)
  then have "cpu_profile (fs_cpu fs1) = cpu_profile (fs_cpu fs)"
    using fetch_window_flow(1) [OF w] by (simp add: same_flow_def)
  then show ?thesis
    using assms w that by (auto simp: gen_code_def res_simps)
qed

lemma gen_code_flow:
  assumes "machine_gen_code ops dec m p mx = (n, ir, m')" and "n \<noteq> 0"
  obtains fs fs' where "m = Running fs" "m' = Running fs'" "same_flow (fs_cpu fs) (fs_cpu fs')" "mem_fault_cause (fs_cpu fs') = 0"
proof (cases m)
  case (Running fs)
  then obtain fs' where g: "gen_code ops dec fs p mx = Ok (n, ir, fs')" "m' = Running fs'"
    using assms by (cases "gen_code ops dec fs p mx") (auto simp: machine_gen_code_def split: prod.split_asm)
  obtain w where w: "fetch_window ops fs p mx = Ok (Some w, fs')"
    using g(1) assms(2) by (rule gen_code_cases)
  then have "mem_fault_cause (fs_cpu fs') = 0"
    by (rule fetch_window_cases)
  then show ?thesis
    by (rule that [OF Running g(2) fetch_window_flow(1) [OF w]])
next
  case (Lost fs)
  then show ?thesis
    using assms by (simp add: machine_gen_code_def)
qed

section \<open>The CPU provides what the loop relies on\<close>

lemma fs_update_cpu [simp]:
  "(\<And>fs. pc (fs_cpu (f fs)) = pc (fs_cpu fs)) \<Longrightarrow> pc (machine_cpu (fs_update f m)) = pc (machine_cpu m)"
  "(\<And>fs. get_flags (fs_cpu (f fs)) = get_flags (fs_cpu fs)) \<Longrightarrow> get_flags (machine_cpu (fs_update f m)) = get_flags (machine_cpu m)"
  by (cases m; simp add: fs_update_def)+

lemma exit_request_flags [simp]:
  "get_flags (c\<lparr>neg_align := v\<rparr>) = get_flags c"
  by (simp add: get_flags_def)

lemma should_exit_cpu: "should_exit fs = Ok (b, fs') \<Longrightarrow> fs_cpu fs' = fs_cpu fs"
  by (auto simp: should_exit_def split: if_splits option.splits)

lemma should_exit_machine: "machine_cpu (snd (fs_query True should_exit m)) = machine_cpu m"
  by (cases m) (auto simp: should_exit_cpu split: sum.split prod.split)

lemma fault_query: "fst (fs_query False (\<lambda>fs. Ok (on_cpu check_mem_fault fs)) m) \<longleftrightarrow>
    (case m of Lost _ \<Rightarrow> False | Running fs \<Rightarrow> mem_fault_cause (fs_cpu fs) \<noteq> 0)"
  by (cases m) (simp_all add: on_cpu_def check_mem_fault_def Let_def)

lemma riscv_guest_accessors [simp]:
  "gp_get_pc (riscv_guest ops dec wait) m = pc (machine_cpu m)" "gp_get_flags (riscv_guest ops dec wait) m = get_flags (machine_cpu m)"
  "gp_gdb_single_step (riscv_guest ops dec wait) m \<longleftrightarrow> False"
  "gp_set_exit_request (riscv_guest ops dec wait) = fs_update set_exit_request"
  "gp_reset_exit_request (riscv_guest ops dec wait) = fs_update reset_exit_request"
  "gp_should_exit (riscv_guest ops dec wait) = fs_query True should_exit"
  "gp_check_monitor_pause (riscv_guest ops dec wait) m = (False, m)"
  "gp_gdb_check_breakpoint (riscv_guest ops dec wait) m p = (False, m)"
  "gp_check_mem_fault (riscv_guest ops dec wait) = fs_query False (\<lambda>fs. Ok (on_cpu check_mem_fault fs))"
  "gp_take_tb_flush_pending (riscv_guest ops dec wait) = fs_query False (\<lambda>fs. Ok (take_tb_flush_pending fs))"
  "gc_gen_code (gp_ops (riscv_guest ops dec wait)) m i p mx = machine_gen_code ops dec m p mx"
  by (simp_all add: riscv_guest_def riscv_guest_ops_def)

lemma no_fault_query:
  assumes "\<not> fst (fs_query False (\<lambda>fs. Ok (on_cpu check_mem_fault fs)) m)"
  shows "snd (fs_query False (\<lambda>fs. Ok (on_cpu check_mem_fault fs)) m) = m"
  using assms by (cases m) (simp_all add: on_cpu_def check_mem_fault_def Let_def split: if_splits)

lemma flush_pending_query:
  "(case snd (fs_query False (\<lambda>fs. Ok (take_tb_flush_pending fs)) m) of Lost _ \<Rightarrow> False | Running fs \<Rightarrow> mem_fault_cause (fs_cpu fs) \<noteq> 0)
     \<longleftrightarrow> (case m of Lost _ \<Rightarrow> False | Running fs \<Rightarrow> mem_fault_cause (fs_cpu fs) \<noteq> 0)"
  by (cases m) (simp_all add: take_tb_flush_pending_def)

lemma exit_request_cpu [simp]:
  "pc (fs_cpu (set_exit_request fs)) = pc (fs_cpu fs)" "get_flags (fs_cpu (set_exit_request fs)) = get_flags (fs_cpu fs)"
  "pc (fs_cpu (reset_exit_request fs)) = pc (fs_cpu fs)" "get_flags (fs_cpu (reset_exit_request fs)) = get_flags (fs_cpu fs)"
  by (simp_all add: set_exit_request_def reset_exit_request_def)

lemma gen_code_keeps_flow:
  assumes "machine_gen_code ops dec m p mx = (n, ir, m')" and "n \<noteq> 0"
  shows "pc (machine_cpu m') = pc (machine_cpu m) \<and> get_flags (machine_cpu m') = get_flags (machine_cpu m)
    \<and> \<not> (case m' of Lost _ \<Rightarrow> False | Running fs \<Rightarrow> mem_fault_cause (fs_cpu fs) \<noteq> 0)"
  by (rule gen_code_flow [OF assms]) (simp add: same_flow_flags, simp add: same_flow_def)

interpretation riscv_hart: undisturbed_guest "riscv_guest ops dec wait"
proof unfold_locales
  show "snd (gp_check_mem_fault (riscv_guest ops dec wait) m) = m" if "\<not> fst (gp_check_mem_fault (riscv_guest ops dec wait) m)" for m
    using no_fault_query that by simp
qed (simp_all only: riscv_guest_accessors fs_update_cpu exit_request_cpu should_exit_machine snd_conv fault_query flush_pending_query
  gen_code_keeps_flow simp_thms)

section \<open>Properties of the composed machine\<close>


definition demo_decoder :: decoder where
  "demo_decoder = \<lparr>decode16 = \<lambda>_ _. Some NextInsn, decode32 = \<lambda>_ _. Some NoReturn, decode_vendor_thead = \<lambda>_ _. None\<rparr>"

definition no_wait :: "'d full_system \<Rightarrow> bool \<times> 'd full_system" where
  "no_wait fs = (False, fs)"



lemma demo_window:
  obtains fs' where "fetch_window no_devices demo_fs 0x80000000 1 = Ok (Some \<lparr>w_phys = 0x80000000, w_block = 0, w_base = 0x80000000,
      w_size = 32, w_limit = 1, w_cross = 0, w_cross_pc = 0\<rparr>, fs')"
    "fs_bk fs' = fs_bk demo_fs" "cpu_profile (fs_cpu fs') = cpu_profile (fs_cpu demo_fs)"
proof -
  let ?c = "fs_cpu demo_fs"
  have c: "cpu_priv ?c = Machine" "mem_fault_cause ?c = 0" "ram_base ?c = 0x80000000" "check_access (cpu_pmp ?c) a 2 x Machine = Inr ()" for a x
    by (simp_all add: demo_fs_def new_with_model_def Let_def check_access_def pmp_new_def)
  have fs: "fs_ram_size demo_fs = 32" "fs_ram demo_fs = 0"
    by (simp_all add: demo_fs_def)
  have "resolve_fetch_region (demo_fs\<lparr>fs_cpu := c\<rparr>) 0x80000000 = Some (0, 0x80000000, 32)" if "ram_base c = 0x80000000" for c
    using that fs by (simp add: resolve_fetch_region_def)
  then have "fetch_window no_devices demo_fs 0x80000000 1 = Ok (Some \<lparr>w_phys = 0x80000000, w_block = 0, w_base = 0x80000000,
      w_size = 32, w_limit = 1, w_cross = 0, w_cross_pc = 0\<rparr>, demo_fs\<lparr>fs_cpu := ?c\<lparr>fault_pc := 0, last_phys_pc := 0x80000000\<rparr>\<rparr>)"
    using c by (simp add: fetch_window_def translate_pc_def Let_def page_remain_def cross_page_def)
  then show ?thesis
    by (rule that) simp_all
qed

lemma demo_profile: "misa_contains (cfg_misa (cfg (cpu_profile (fs_cpu demo_fs)))) MisaExt_C"
proof -
  have "misa_contains rv64gc_misa MisaExt_C"
    by code_simp
  then show ?thesis
    by (simp add: demo_fs_def new_with_model_def Let_def generic_rv64_def RV64GC_def)
qed


end
