(* ===== verification/Plic.thy ===== *)
theory Plic
  imports Machina_Prelude
begin

text \<open>
  The platform-level interrupt controller (\<open>hw/intc/src/plic.rs\<close>): its registers, the interrupt
  lines into it and out of it, claim and completion. Each operation is one step; the output lines
  are kept with the level that was last set on them. Properties: the outputs always show whether a
  context has a claimable interrupt, a claim takes the best one, and a claimed interrupt is not
  handed out again before its completion.
\<close>

section \<open>State\<close>

definition PENDING_BASE :: u64 where "PENDING_BASE = 0x001000"
definition ENABLE_BASE :: u64 where "ENABLE_BASE = 0x002000"
definition ENABLE_STRIDE :: u64 where "ENABLE_STRIDE = 0x80"
definition CONTEXT_BASE :: u64 where "CONTEXT_BASE = 0x200000"
definition CONTEXT_STRIDE :: u64 where "CONTEXT_STRIDE = 0x1000"

record plic =
  num_sources :: u32
  num_contexts :: u32
  priority :: "u32 list"
  pending :: "u32 list"
  claimed :: "u32 list"
  source_level :: "u32 list"
  enable :: "u32 list list"
  threshold :: "u32 list"
  claim :: "u32 list"
  context_outputs :: "bool option list"

definition plic_new :: "u32 \<Rightarrow> u32 \<Rightarrow> plic" where
  "plic_new ns nc =
     (let words = (unat ns + 31) div 32; n = unat ns; m = unat nc
      in \<lparr>num_sources = ns, num_contexts = nc, priority = replicate n 0, pending = replicate words 0,
          claimed = replicate words 0, source_level = replicate n 0, enable = replicate m (replicate words 0),
          threshold = replicate m 0, claim = replicate m 0, context_outputs = replicate m None\<rparr>)"

text \<open>A line is connected at the level it has.\<close>

definition connect_context_output :: "plic \<Rightarrow> u32 \<Rightarrow> bool \<Rightarrow> plic" where
  "connect_context_output p ctx level =
     (if unat ctx < length (context_outputs p)
      then p\<lparr>context_outputs := (context_outputs p)[unat ctx := Some level]\<rparr> else p)"

definition lower_outputs :: "plic \<Rightarrow> plic" where
  "lower_outputs p = p\<lparr>context_outputs := map (map_option (\<lambda>_. False)) (context_outputs p)\<rparr>"

definition reset_runtime :: "plic \<Rightarrow> plic" where
  "reset_runtime p =
     (let zero = map (\<lambda>_. 0)
      in lower_outputs (p\<lparr>priority := zero (priority p), pending := zero (pending p), claimed := zero (claimed p),
           source_level := zero (source_level p), enable := map zero (enable p), threshold := zero (threshold p),
           claim := zero (claim p)\<rparr>))"

section \<open>Interrupts\<close>

definition irq_bit :: "nat \<Rightarrow> u32" where
  "irq_bit irq = push_bit (irq mod 32) 1"

text \<open>A source that is pending, not claimed, enabled for the context and above its threshold.\<close>

definition irq_ready :: "plic \<Rightarrow> nat \<Rightarrow> nat \<Rightarrow> bool" where
  "irq_ready p ctx irq \<longleftrightarrow>
     (let word = irq div 32
      in (pending p ! word AND NOT (claimed p ! word)) AND irq_bit irq \<noteq> 0
         \<and> enable p ! ctx ! word AND irq_bit irq \<noteq> 0
         \<and> priority p ! irq > threshold p ! ctx)"

definition context_active :: "plic \<Rightarrow> nat \<Rightarrow> bool" where
  "context_active p ctx \<longleftrightarrow> list_ex (irq_ready p ctx) [1..<unat (num_sources p)]"

definition update_outputs :: "plic \<Rightarrow> plic" where
  "update_outputs p =
     p\<lparr>context_outputs := map (\<lambda>(ctx, line). map_option (\<lambda>_. context_active p ctx) line)
         (List.enumerate 0 (context_outputs p))\<rparr>"

definition set_pending :: "plic \<Rightarrow> u32 \<Rightarrow> bool \<Rightarrow> plic" where
  "set_pending p irq level =
     (if irq = 0 \<or> irq \<ge> num_sources p then p
      else let word = unat irq div 32; b = irq_bit (unat irq)
           in p\<lparr>pending := (pending p)[word := if level then pending p ! word OR b else pending p ! word AND NOT b]\<rparr>)"

definition set_irq :: "plic \<Rightarrow> u32 \<Rightarrow> bool \<Rightarrow> plic" where
  "set_irq p source level =
     (if source = 0 \<or> source \<ge> num_sources p then p
      else let p1 = p\<lparr>source_level := (source_level p)[unat source := if level then 1 else 0]\<rparr>
           in if level then update_outputs (set_pending p1 source True) else p1)"

section \<open>Claim and completion\<close>

fun claim_scan :: "plic \<Rightarrow> nat \<Rightarrow> nat list \<Rightarrow> nat option \<Rightarrow> u32 \<Rightarrow> nat option" where
  "claim_scan p ctx [] best_irq best_pri = best_irq"
| "claim_scan p ctx (irq # irqs) best_irq best_pri =
     (if irq_ready p ctx irq \<and> priority p ! irq > best_pri
      then claim_scan p ctx irqs (Some irq) (priority p ! irq)
      else claim_scan p ctx irqs best_irq best_pri)"

definition claim_irq :: "plic \<Rightarrow> nat \<Rightarrow> nat option \<times> plic" where
  "claim_irq p ctx =
     (if ctx \<ge> unat (num_contexts p) then (None, p)
      else case claim_scan p ctx [1..<unat (num_sources p)] None 0 of
             None \<Rightarrow> (None, p)
           | Some irq \<Rightarrow>
               let word = irq div 32
               in (Some irq, p\<lparr>pending := (pending p)[word := pending p ! word AND NOT (irq_bit irq)],
                     claimed := (claimed p)[word := claimed p ! word OR irq_bit irq], claim := (claim p)[ctx := of_nat irq]\<rparr>))"

definition complete_irq :: "plic \<Rightarrow> nat \<Rightarrow> u32 \<Rightarrow> plic" where
  "complete_irq p ctx irq =
     (if ctx \<ge> unat (num_contexts p) then p
      else let p1 = (if claim p ! ctx = irq then p\<lparr>claim := (claim p)[ctx := 0]\<rparr> else p);
               word = unat irq div 32;
               p2 = (if irq < num_sources p1 \<and> irq > 0
                     then p1\<lparr>claimed := (claimed p1)[word := claimed p1 ! word AND NOT (irq_bit (unat irq))]\<rparr> else p1)
           in update_outputs p2)"

section \<open>Registers\<close>

definition plic_read :: "plic \<Rightarrow> u64 \<Rightarrow> u32 \<Rightarrow> u64 \<times> plic" where
  "plic_read p offset sz =
     (if sz \<noteq> 4 then (0, p)
      else if offset AND 3 \<noteq> 0 then (0, p)
      else if offset < PENDING_BASE then
        let idx = unat offset div 4 in (if idx < length (priority p) then ucast (priority p ! idx) else 0, p)
      else if offset < ENABLE_BASE then
        let idx = unat (offset - PENDING_BASE) div 4 in (if idx < length (pending p) then ucast (pending p ! idx) else 0, p)
      else if offset < CONTEXT_BASE then
        let rel = offset - ENABLE_BASE; ctx = unat (rel div ENABLE_STRIDE); word = unat (rel mod ENABLE_STRIDE div 4)
        in (if ctx < unat (num_contexts p) \<and> word < length (enable p ! ctx) then ucast (enable p ! ctx ! word) else 0, p)
      else
        let rel = offset - CONTEXT_BASE; ctx = unat (rel div CONTEXT_STRIDE); reg = rel mod CONTEXT_STRIDE
        in if ctx \<ge> unat (num_contexts p) then (0, p)
           else if reg = 0 then (ucast (threshold p ! ctx), p)
           else if reg = 4 then
             let (irq, p1) = claim_irq p ctx
             in (case irq of Some i \<Rightarrow> of_nat i | None \<Rightarrow> 0, update_outputs p1)
           else (0, p))"

definition plic_write :: "plic \<Rightarrow> u64 \<Rightarrow> u32 \<Rightarrow> u64 \<Rightarrow> plic" where
  "plic_write p offset sz val =
     (if sz \<noteq> 4 then p
      else if offset AND 3 \<noteq> 0 then p
      else
        let v = ucast val :: u32
        in if offset < PENDING_BASE then
             let idx = unat offset div 4
             in update_outputs (if idx > 0 \<and> idx < length (priority p) then p\<lparr>priority := (priority p)[idx := v]\<rparr> else p)
           else if offset < ENABLE_BASE then p
           else if offset < CONTEXT_BASE then
             let rel = offset - ENABLE_BASE; ctx = unat (rel div ENABLE_STRIDE); word = unat (rel mod ENABLE_STRIDE div 4)
             in update_outputs (if ctx < unat (num_contexts p) \<and> word < length (enable p ! ctx)
                  then p\<lparr>enable := (enable p)[ctx := (enable p ! ctx)[word := v]]\<rparr> else p)
           else
             let rel = offset - CONTEXT_BASE; ctx = unat (rel div CONTEXT_STRIDE); reg = rel mod CONTEXT_STRIDE
             in if ctx \<ge> unat (num_contexts p) then p
                else if reg = 0 then update_outputs (p\<lparr>threshold := (threshold p)[ctx := v]\<rparr>)
                else if reg = 4 then complete_irq p ctx v
                else p)"

section \<open>Runs\<close>

text \<open>What happens to a controller while the machine runs, with the value a read returns.\<close>

datatype plic_op = PlicRead u64 u32 | PlicWrite u64 u32 u64 | PlicIrq u32 bool | PlicReset

fun plic_step :: "plic_op \<Rightarrow> plic \<Rightarrow> u64 \<times> plic" where
  "plic_step (PlicRead off sz) p = plic_read p off sz"
| "plic_step (PlicWrite off sz v) p = (0, plic_write p off sz v)"
| "plic_step (PlicIrq src level) p = (0, set_irq p src level)"
| "plic_step PlicReset p = (0, reset_runtime p)"

fun plic_run :: "plic_op list \<Rightarrow> plic \<Rightarrow> plic" where
  "plic_run [] p = p"
| "plic_run (x # xs) p = plic_run xs (snd (plic_step x p))"

section \<open>Well-formed controllers\<close>

definition plic_wf :: "plic \<Rightarrow> bool" where
  "plic_wf p \<longleftrightarrow> (let n = unat (num_sources p); m = unat (num_contexts p); words = (n + 31) div 32
     in length (priority p) = n \<and> length (pending p) = words \<and> length (claimed p) = words \<and> length (source_level p) = n
        \<and> length (enable p) = m \<and> (\<forall>e\<in>set (enable p). length e = words) \<and> length (threshold p) = m \<and> length (claim p) = m
        \<and> length (context_outputs p) = m)"

lemma plic_wf_new: "plic_wf (plic_new ns nc)"
  by (simp add: plic_wf_def plic_new_def Let_def)

lemma plic_wf_connect: "plic_wf p \<Longrightarrow> plic_wf (connect_context_output p ctx level)"
  by (simp add: plic_wf_def connect_context_output_def Let_def)

lemma plic_wf_outputs [simp]: "plic_wf (update_outputs p) = plic_wf p" "plic_wf (lower_outputs p) = plic_wf p"
  by (simp_all add: plic_wf_def update_outputs_def lower_outputs_def Let_def)

lemma plic_wf_reset: "plic_wf p \<Longrightarrow> plic_wf (reset_runtime p)"
  by (simp add: plic_wf_def reset_runtime_def lower_outputs_def Let_def)

lemma plic_wf_set_irq: "plic_wf p \<Longrightarrow> plic_wf (set_irq p src level)"
  by (auto simp: set_irq_def set_pending_def plic_wf_def Let_def update_outputs_def)

lemma plic_wf_claim: "plic_wf p \<Longrightarrow> claim_irq p ctx = (r, p') \<Longrightarrow> plic_wf p'"
  by (auto simp: claim_irq_def plic_wf_def Let_def split: if_splits option.splits)

lemma plic_wf_complete: "plic_wf p \<Longrightarrow> plic_wf (complete_irq p ctx irq)"
  by (auto simp: complete_irq_def plic_wf_def Let_def update_outputs_def)

lemma plic_wf_write:
  assumes "plic_wf p"
  shows "plic_wf (plic_write p off sz v)"
proof -
  have "plic_wf (p\<lparr>enable := (enable p)[ctx := (enable p ! ctx)[w := x]]\<rparr>)" if "ctx < unat (num_contexts p)" for ctx w x
    using assms that by (auto simp: plic_wf_def Let_def dest!: set_update_subset_insert [THEN subsetD])
  moreover have "plic_wf (p\<lparr>priority := (priority p)[i := x]\<rparr>)" "plic_wf (p\<lparr>threshold := (threshold p)[i := x]\<rparr>)" for i x
    using assms by (simp_all add: plic_wf_def Let_def)
  ultimately show ?thesis
    using assms plic_wf_complete by (auto simp: plic_write_def Let_def)
qed

lemma plic_wf_read: "plic_wf p \<Longrightarrow> plic_wf (snd (plic_read p off sz))"
  using plic_wf_claim by (auto simp: plic_read_def Let_def split: prod.split)

lemma plic_wf_step: "plic_wf p \<Longrightarrow> plic_wf (snd (plic_step x p))"
  by (cases x) (simp_all add: plic_wf_read plic_wf_write plic_wf_set_irq plic_wf_reset)

section \<open>Outputs\<close>

text \<open>Every connected line shows whether its context has an interrupt to claim.\<close>

definition outputs_ok :: "plic \<Rightarrow> bool" where
  "outputs_ok p \<longleftrightarrow> (\<forall>ctx<length (context_outputs p). \<forall>level. context_outputs p ! ctx = Some level \<longrightarrow> level = context_active p ctx)"

lemma active_cong:
  assumes "num_sources p' = num_sources p" "pending p' = pending p" "claimed p' = claimed p" "enable p' = enable p"
    "priority p' = priority p" "threshold p' = threshold p"
  shows "context_active p' = context_active p"
proof -
  have "irq_ready p' = irq_ready p"
    using assms by (simp add: irq_ready_def fun_eq_iff)
  then show ?thesis
    using assms(1) by (simp add: context_active_def [abs_def])
qed

lemma outputs_ok_update [simp]: "outputs_ok (update_outputs p)"
proof -
  have "context_active (update_outputs p) = context_active p"
    by (rule active_cong) (simp_all add: update_outputs_def)
  then show ?thesis
    by (auto simp: outputs_ok_def update_outputs_def nth_enumerate_eq)
qed

lemma outputs_ok_reset: 
  assumes "plic_wf p"
  shows "outputs_ok (reset_runtime p)"
proof -
  have "\<not> irq_ready (reset_runtime p) ctx irq" if "irq < unat (num_sources p)" for ctx irq
    using assms that by (simp add: irq_ready_def reset_runtime_def lower_outputs_def Let_def plic_wf_def)
  then have "\<not> context_active (reset_runtime p) ctx" for ctx
    by (auto simp: context_active_def list_ex_iff reset_runtime_def lower_outputs_def Let_def)
  then show ?thesis
    by (auto simp: outputs_ok_def reset_runtime_def lower_outputs_def Let_def)
qed

lemma outputs_ok_step:
  assumes "plic_wf p" and "outputs_ok p"
  shows "outputs_ok (snd (plic_step x p))"
proof (cases x)
  case (PlicRead off sz)
  then show ?thesis
    using assms(2) by (simp add: plic_read_def Let_def split: prod.split)
next
  case (PlicWrite off sz v)
  then show ?thesis
    using assms(2) by (simp add: plic_write_def complete_irq_def Let_def)
next
  case (PlicIrq src level)
  have "context_active (p\<lparr>source_level := l\<rparr>) = context_active p" for l
    by (rule active_cong) simp_all
  then have "outputs_ok (p\<lparr>source_level := l\<rparr>)" for l
    using assms(2) by (simp add: outputs_ok_def)
  then show ?thesis
    using assms(2) PlicIrq by (simp add: set_irq_def Let_def)
next
  case PlicReset
  then show ?thesis
    using outputs_ok_reset [OF assms(1)] by simp
qed

lemma plic_run_ok: 
  assumes "plic_wf p" and "outputs_ok p"
  shows "plic_wf (plic_run xs p) \<and> outputs_ok (plic_run xs p)"
  using assms by (induction xs p rule: plic_run.induct) (simp_all add: plic_wf_step outputs_ok_step)

section \<open>Claims\<close>

lemma irq_bit_and [simp]: "x AND irq_bit irq \<noteq> 0 \<longleftrightarrow> bit x (irq mod 32)" "x AND irq_bit irq = 0 \<longleftrightarrow> \<not> bit x (irq mod 32)"
  by (simp_all add: irq_bit_def push_bit_of_1 and_exp_eq_0_iff_not_bit)

lemma bit_irq_bit: "bit (irq_bit irq) k \<longleftrightarrow> k = irq mod 32"
  by (auto simp: irq_bit_def bit_simps)

lemma irq_ready_bits:
  "irq_ready p ctx irq \<longleftrightarrow> bit (pending p ! (irq div 32)) (irq mod 32) \<and> \<not> bit (claimed p ! (irq div 32)) (irq mod 32)
     \<and> bit (enable p ! ctx ! (irq div 32)) (irq mod 32) \<and> priority p ! irq > threshold p ! ctx"
  by (auto simp: irq_ready_def Let_def bit_simps)

text \<open>The best of some sources: of the highest priority, and of these the one with the lowest number.\<close>

definition best_of :: "plic \<Rightarrow> nat \<Rightarrow> nat set \<Rightarrow> nat option \<Rightarrow> bool" where
  "best_of p ctx S r \<longleftrightarrow> (case r of
     None \<Rightarrow> \<forall>j\<in>S. \<not> irq_ready p ctx j
   | Some i \<Rightarrow> i \<in> S \<and> irq_ready p ctx i
       \<and> (\<forall>j\<in>S. irq_ready p ctx j \<longrightarrow> priority p ! j < priority p ! i \<or> priority p ! j = priority p ! i \<and> i \<le> j))"

lemma claim_scan_best:
  assumes "best_of p ctx S b" and "bp = (case b of None \<Rightarrow> 0 | Some i \<Rightarrow> priority p ! i)"
    and "\<forall>s\<in>S. \<forall>j\<in>set irqs. s < j" and "sorted_wrt (<) irqs"
  shows "best_of p ctx (S \<union> set irqs) (claim_scan p ctx irqs b bp)"
  using assms
proof (induction irqs arbitrary: S b bp)
  case (Cons irq irqs)
  have pos: "0 < priority p ! irq" if "irq_ready p ctx irq"
    using that by (auto simp: irq_ready_bits intro: le_less_trans [OF word_zero_le])
  show ?case
  proof (cases "irq_ready p ctx irq \<and> priority p ! irq > bp")
    case True
    then have "best_of p ctx (insert irq S) (Some irq)"
      using Cons.prems(1,2) by (fastforce simp: best_of_def split: option.splits)
    then have "best_of p ctx (insert irq S \<union> set irqs) (claim_scan p ctx irqs (Some irq) (priority p ! irq))"
      using Cons.prems(3,4) by (intro Cons.IH) auto
    then show ?thesis
      using True by simp
  next
    case False
    then have "best_of p ctx (insert irq S) b"
      using Cons.prems(1,2,3) pos by (fastforce simp: best_of_def not_less split: option.splits)
    then have "best_of p ctx (insert irq S \<union> set irqs) (claim_scan p ctx irqs b bp)"
      using Cons.prems(2-4) by (intro Cons.IH) auto
    then show ?thesis
      using False by auto
  qed
qed simp

lemma claim_scan_all: "best_of p ctx {1..<unat (num_sources p)} (claim_scan p ctx [1..<unat (num_sources p)] None 0)"
  using claim_scan_best [of p ctx "{}" None 0 "[1..<unat (num_sources p)]"] by (simp add: best_of_def)

text \<open>The register that a claim reads.\<close>

definition claim_reg :: "nat \<Rightarrow> u64" where
  "claim_reg ctx = CONTEXT_BASE + of_nat ctx * CONTEXT_STRIDE + 4"

lemma claim_reg_parts:
  assumes "ctx < 2 ^ 32"
  shows "(claim_reg ctx - CONTEXT_BASE) div CONTEXT_STRIDE = of_nat ctx" "(claim_reg ctx - CONTEXT_BASE) mod CONTEXT_STRIDE = 4"
    "claim_reg ctx AND 3 = 0" "\<not> claim_reg ctx < CONTEXT_BASE" "unat (of_nat ctx :: u64) = ctx"
proof -
  have u: "unat (of_nat ctx * 0x1000 + 4 :: u64) = ctx * 4096 + 4"
    using assms by (simp add: unat_word_ariths unat_of_nat)
  have r: "claim_reg ctx - CONTEXT_BASE = of_nat ctx * 0x1000 + 4"
    by (simp add: claim_reg_def CONTEXT_STRIDE_def)
  show n: "unat (of_nat ctx :: u64) = ctx"
    using assms by (simp add: unat_of_nat)
  show "(claim_reg ctx - CONTEXT_BASE) div CONTEXT_STRIDE = of_nat ctx" "(claim_reg ctx - CONTEXT_BASE) mod CONTEXT_STRIDE = 4"
    unfolding r CONTEXT_STRIDE_def by (rule word_unat_eq_iff [THEN iffD2], simp add: unat_div unat_mod u n)+
  have c: "unat (claim_reg ctx) = 0x200000 + ctx * 4096 + 4"
    using assms by (simp add: claim_reg_def CONTEXT_BASE_def CONTEXT_STRIDE_def unat_word_ariths unat_of_nat)
  then show "\<not> claim_reg ctx < CONTEXT_BASE"
    by (simp add: word_less_nat_alt CONTEXT_BASE_def)
  have "claim_reg ctx AND 3 = claim_reg ctx mod 4"
    using take_bit_eq_mask [of 2 "claim_reg ctx"] by (simp add: take_bit_eq_mod mask_eq_exp_minus_1)
  also have "\<dots> = 0"
    by (rule word_unat_eq_iff [THEN iffD2]) (simp add: unat_mod c mod_add_eq [symmetric])
  finally show "claim_reg ctx AND 3 = 0" .
qed

lemma read_claim_reg:
  assumes "ctx < unat (num_contexts p)"
  shows "plic_read p (claim_reg ctx) 4 =
     (let (irq, p1) = claim_irq p ctx in (case irq of Some i \<Rightarrow> of_nat i | None \<Rightarrow> 0, update_outputs p1))"
proof -
  have "unat (num_contexts p) < 2 ^ LENGTH(32)"
    by (rule unsigned_less)
  then have "ctx < 2 ^ 32"
    using assms by simp
  note c = claim_reg_parts [OF this]
  have "\<not> claim_reg ctx < ENABLE_BASE" "\<not> claim_reg ctx < PENDING_BASE"
    using c(4) by (auto simp: ENABLE_BASE_def PENDING_BASE_def CONTEXT_BASE_def word_less_nat_alt)
  then show ?thesis
    using c assms by (simp add: plic_read_def Let_def)
qed

text \<open>What a claim that succeeds does to the controller.\<close>

definition claimed_state :: "plic \<Rightarrow> nat \<Rightarrow> nat \<Rightarrow> plic" where
  "claimed_state p ctx irq =
     p\<lparr>pending := (pending p)[irq div 32 := pending p ! (irq div 32) AND NOT (irq_bit irq)],
       claimed := (claimed p)[irq div 32 := claimed p ! (irq div 32) OR irq_bit irq], claim := (claim p)[ctx := of_nat irq]\<rparr>"

lemma claim_irq_cases:
  assumes "ctx < unat (num_contexts p)"
  obtains (none) "\<not> context_active p ctx" "claim_irq p ctx = (None, p)"
    | (some) irq where "context_active p ctx" "claim_irq p ctx = (Some irq, claimed_state p ctx irq)"
        "best_of p ctx {1..<unat (num_sources p)} (Some irq)"
proof (cases "claim_scan p ctx [1..<unat (num_sources p)] None 0")
  case None
  then show ?thesis
    using claim_scan_all [of p ctx] assms none by (auto simp: best_of_def context_active_def list_ex_iff claim_irq_def)
next
  case (Some irq)
  then have b: "best_of p ctx {1..<unat (num_sources p)} (Some irq)"
    using claim_scan_all [of p ctx] by simp
  moreover have "context_active p ctx"
    using b by (auto simp: best_of_def context_active_def list_ex_iff)
  ultimately show ?thesis
    using some Some assms by (simp add: claim_irq_def claimed_state_def Let_def)
qed

lemma div_mod_32: "i div 32 = j div 32 \<Longrightarrow> i mod 32 = j mod 32 \<Longrightarrow> i = (j :: nat)"
  by (metis div_mult_mod_eq)

lemma word_index:
  assumes "plic_wf p" and "irq < unat (num_sources p)"
  shows "irq div 32 < length (pending p)" "irq div 32 < length (claimed p)"
  using assms by (simp_all add: plic_wf_def Let_def)

lemma ready_claimed_state:
  assumes "plic_wf p" and "irq < unat (num_sources p)"
  shows "irq_ready (update_outputs (claimed_state p ctx irq)) c j \<longleftrightarrow> irq_ready p c j \<and> j \<noteq> irq"
proof -
  show ?thesis
    using word_index [OF assms] by (cases "j div 32 = irq div 32")
      (auto simp: irq_ready_bits update_outputs_def claimed_state_def bit_simps bit_irq_bit dest: div_mod_32)
qed

section \<open>Exclusive claims\<close>

definition is_claimed :: "plic \<Rightarrow> nat \<Rightarrow> bool" where
  "is_claimed p irq \<longleftrightarrow> bit (claimed p ! (irq div 32)) (irq mod 32)"

text \<open>The operations that may end a claim: its completion, by any context, and a reset.\<close>

fun ends_claim :: "nat \<Rightarrow> plic_op \<Rightarrow> bool" where
  "ends_claim irq (PlicWrite off sz v) \<longleftrightarrow> off \<ge> CONTEXT_BASE \<and> (off - CONTEXT_BASE) mod CONTEXT_STRIDE = 4 \<and> unat (ucast v :: u32) = irq"
| "ends_claim irq PlicReset \<longleftrightarrow> True"
| "ends_claim irq _ \<longleftrightarrow> False"

lemma is_claimed_update [simp]: "is_claimed (update_outputs p) = is_claimed p"
  by (simp add: is_claimed_def update_outputs_def fun_eq_iff)

lemma is_claimed_claim:
  assumes "plic_wf p" and "ctx < unat (num_contexts p)" and "is_claimed p irq" and "claim_irq p ctx = (r, p')"
  shows "is_claimed p' irq"
proof (rule claim_irq_cases [OF assms(2)])
  fix i
  assume "claim_irq p ctx = (Some i, claimed_state p ctx i)" "best_of p ctx {1..<unat (num_sources p)} (Some i)"
  moreover from this have "i div 32 < length (claimed p)"
    using word_index(2) [OF assms(1)] by (simp add: best_of_def)
  ultimately show ?thesis
    using assms(3,4) by (cases "i div 32 = irq div 32") (auto simp: is_claimed_def claimed_state_def bit_simps)
qed (use assms in simp)

lemma is_claimed_complete:
  assumes "plic_wf p" and "is_claimed p irq" and "unat v \<noteq> irq"
  shows "is_claimed (complete_irq p ctx v) irq"
proof -
  let ?w = "unat v div 32"
  have "is_claimed (p\<lparr>claimed := (claimed p)[?w := claimed p ! ?w AND NOT (irq_bit (unat v))]\<rparr>) irq" if "v < num_sources p"
  proof -
    have "?w < length (claimed p)"
      using that assms(1) by (simp add: plic_wf_def Let_def word_less_nat_alt)
    then show ?thesis
      using assms(2,3) div_mod_32 [of irq "unat v"]
      by (cases "?w = irq div 32") (auto simp: is_claimed_def bit_simps bit_irq_bit)
  qed
  then show ?thesis
    using assms(2) by (auto simp: complete_irq_def Let_def is_claimed_def update_outputs_def)
qed

lemma is_claimed_step:
  assumes "plic_wf p" and "is_claimed p irq" and "\<not> ends_claim irq x"
  shows "is_claimed (snd (plic_step x p)) irq"
proof (cases x)
  case (PlicRead off sz)
  then show ?thesis
    using assms(2) is_claimed_claim [OF assms(1)] by (auto simp: plic_read_def Let_def not_le split: prod.split)
next
  case (PlicWrite off sz v)
  have "is_claimed (p\<lparr>priority := a\<rparr>) irq" "is_claimed (p\<lparr>enable := b\<rparr>) irq" "is_claimed (p\<lparr>threshold := c\<rparr>) irq" for a b c
    using assms(2) by (simp_all add: is_claimed_def)
  then show ?thesis
    using assms PlicWrite is_claimed_complete [OF assms(1,2)] by (auto simp: plic_write_def Let_def not_less)
next
  case (PlicIrq src level)
  then show ?thesis
    using assms(2) by (simp add: set_irq_def set_pending_def Let_def is_claimed_def update_outputs_def)
next
  case PlicReset
  then show ?thesis
    using assms(3) by simp
qed

lemma is_claimed_run:
  assumes "plic_wf p" and "is_claimed p irq" and "list_all (\<lambda>x. \<not> ends_claim irq x) xs"
  shows "is_claimed (plic_run xs p) irq \<and> plic_wf (plic_run xs p)"
  using assms by (induction xs p rule: plic_run.induct) (simp_all add: is_claimed_step plic_wf_step)

section \<open>Boot\<close>

text \<open>A new controller with some of its lines connected, all of them low.\<close>

definition plic_boot :: "u32 \<Rightarrow> u32 \<Rightarrow> u32 list \<Rightarrow> plic" where
  "plic_boot ns nc lines = foldl (\<lambda>p line. connect_context_output p line False) (plic_new ns nc) lines"

definition idle :: "plic \<Rightarrow> bool" where
  "idle p \<longleftrightarrow> plic_wf p \<and> (\<forall>ctx. \<not> context_active p ctx) \<and> Some True \<notin> set (context_outputs p)"

lemma idle_new: "idle (plic_new ns nc)"
proof -
  have "\<not> irq_ready (plic_new ns nc) ctx irq" if "irq < unat ns" for ctx irq
    using that by (simp add: irq_ready_bits plic_new_def Let_def)
  then show ?thesis
    using plic_wf_new by (auto simp: idle_def context_active_def list_ex_iff plic_new_def Let_def)
qed

lemma idle_connect: "idle p \<Longrightarrow> idle (connect_context_output p line False)"
  using active_cong [of "connect_context_output p line False" p] plic_wf_connect [of p line False]
  by (auto simp: idle_def connect_context_output_def dest: set_update_subset_insert [THEN subsetD])

lemma plic_boot_ok:
  "idle (plic_boot ns nc lines) \<and> num_sources (plic_boot ns nc lines) = ns \<and> num_contexts (plic_boot ns nc lines) = nc"
proof -
  have "idle (foldl (\<lambda>p line. connect_context_output p line False) p lines)
      \<and> num_sources (foldl (\<lambda>p line. connect_context_output p line False) p lines) = num_sources p
      \<and> num_contexts (foldl (\<lambda>p line. connect_context_output p line False) p lines) = num_contexts p" if "idle p" for p
    using that
  proof (induction lines arbitrary: p)
    case (Cons line lines)
    then show ?case
      using Cons.IH [OF idle_connect [OF Cons.prems]] by (simp add: connect_context_output_def)
  qed simp
  from this [OF idle_new] show ?thesis
    by (simp add: plic_boot_def plic_new_def Let_def)
qed

lemma idle_outputs: "idle p \<Longrightarrow> outputs_ok p"
  by (force simp: idle_def outputs_ok_def in_set_conv_nth)

lemma plic_step_nums [simp]:
  "num_sources (snd (plic_step x p)) = num_sources p" "num_contexts (snd (plic_step x p)) = num_contexts p"
  by (cases x; simp add: plic_read_def plic_write_def claim_irq_def complete_irq_def set_irq_def set_pending_def reset_runtime_def
      lower_outputs_def update_outputs_def Let_def split: prod.split option.split)+

lemma plic_run_nums [simp]: "num_sources (plic_run xs p) = num_sources p" "num_contexts (plic_run xs p) = num_contexts p"
  by (induction xs p rule: plic_run.induct) simp_all

lemma plic_boot_run:
  "plic_wf (plic_run xs (plic_boot ns nc lines))" "outputs_ok (plic_run xs (plic_boot ns nc lines))"
  "num_sources (plic_run xs (plic_boot ns nc lines)) = ns" "num_contexts (plic_run xs (plic_boot ns nc lines)) = nc"
  using plic_run_ok plic_boot_ok idle_outputs unfolding idle_def by (blast, blast, simp_all)

lemma context_active_iff: "context_active p ctx \<longleftrightarrow> (\<exists>irq. 0 < irq \<and> irq < unat (num_sources p) \<and> irq_ready p ctx irq)"
  by (auto simp: context_active_def list_ex_iff Suc_le_eq)

lemma is_claimed_not_ready: "is_claimed p irq \<Longrightarrow> \<not> irq_ready p ctx irq"
  by (simp add: is_claimed_def irq_ready_bits)

lemma source_small:
  assumes "irq < unat (num_sources p)"
  shows "unat (of_nat irq :: u64) = irq"
proof -
  have "unat (num_sources p) < 2 ^ LENGTH(32)"
    by (rule unsigned_less)
  then show ?thesis
    using assms by (simp add: unat_of_nat)
qed

section \<open>Properties\<close>

text \<open>
  C20: The interrupt lines out of the controller are always right: whatever the guest reads and
  writes and whatever the devices signal, after every operation each connected line is high exactly when its
  context has a source that is pending, not yet claimed, enabled for the context and of a
  priority above its threshold.
\<close>
theorem plic_outputs_track:
  assumes "ctx < unat nc" and "context_outputs (plic_run xs (plic_boot ns nc lines)) ! ctx = Some level"
  shows "level \<longleftrightarrow> (\<exists>irq. 0 < irq \<and> irq < unat ns \<and> irq_ready (plic_run xs (plic_boot ns nc lines)) ctx irq)"
proof -
  let ?p = "plic_run xs (plic_boot ns nc lines)"
  have "level = context_active ?p ctx"
    using assms plic_boot_run [of xs ns nc lines] by (simp add: outputs_ok_def plic_wf_def Let_def)
  then show ?thesis
    by (simp add: context_active_iff plic_boot_ok)
qed

text \<open>A run: two contexts of which the second is connected, and source 5, enabled for it, goes high.\<close>

theorem plic_outputs_track_witness:
  "let p = plic_run [PlicWrite 0x14 4 7, PlicWrite 0x2080 4 0x20, PlicIrq 5 True] (plic_boot 7 2 [1])
   in context_outputs p ! 1 = Some True \<and> (\<exists>irq. 0 < irq \<and> irq < 7 \<and> irq_ready p 1 irq)"
proof -
  let ?p = "plic_run [PlicWrite 0x14 4 7, PlicWrite 0x2080 4 0x20, PlicIrq 5 True] (plic_boot 7 2 [1])"
  have "context_outputs ?p ! 1 = Some True"
    by code_simp
  then show ?thesis
    using plic_outputs_track [of 1 2 "[PlicWrite 0x14 4 7, PlicWrite 0x2080 4 0x20, PlicIrq 5 True]" 7 "[1]" True] by simp
qed

text \<open>
  C21: A claim hands out the right interrupt. Reading the claim register of a context with nothing to
  claim returns 0 and changes nothing but the outputs; otherwise it returns a claimable source of the highest
  priority, of these the one with the lowest number, which is from then on claimable by no context,
  while every other source is as claimable as it was before, for every context.
\<close>
theorem plic_claim_best:
  assumes "plic_wf p" and "ctx < unat (num_contexts p)"
  shows "case plic_read p (claim_reg ctx) 4 of (v, p') \<Rightarrow>
     if context_active p ctx
     then \<exists>irq. v = of_nat irq \<and> 0 < irq \<and> irq < unat (num_sources p) \<and> irq_ready p ctx irq
        \<and> (\<forall>j. 0 < j \<and> j < unat (num_sources p) \<and> irq_ready p ctx j \<longrightarrow>
             priority p ! j < priority p ! irq \<or> priority p ! j = priority p ! irq \<and> irq \<le> j)
        \<and> (\<forall>c j. irq_ready p' c j \<longleftrightarrow> irq_ready p c j \<and> j \<noteq> irq)
     else v = 0 \<and> p' = update_outputs p"
proof (rule claim_irq_cases [OF assms(2)])
  assume "\<not> context_active p ctx" "claim_irq p ctx = (None, p)"
  then show ?thesis
    by (simp add: read_claim_reg [OF assms(2)])
next
  fix irq
  assume a: "context_active p ctx" "claim_irq p ctx = (Some irq, claimed_state p ctx irq)"
    and b: "best_of p ctx {1..<unat (num_sources p)} (Some irq)"
  have i: "irq < unat (num_sources p)" "0 < irq"
    using b by (simp_all add: best_of_def)
  show ?thesis
    using a b i ready_claimed_state [OF assms(1) i(1)]
    by (simp add: read_claim_reg [OF assms(2)]) (intro exI [of _ irq], auto simp: best_of_def)
qed

theorem plic_claim_best_witness:
  "let p = plic_run [PlicWrite 0x14 4 7, PlicWrite 0x18 4 7, PlicWrite 0x2080 4 0x60, PlicIrq 6 True, PlicIrq 5 True] (plic_boot 7 2 [1])
   in fst (plic_read p (claim_reg 1) 4) = 5 \<and> context_active p 1
      \<and> (\<exists>irq. of_nat irq = (5 :: u64) \<and> irq_ready p 1 irq \<and> \<not> irq_ready (snd (plic_read p (claim_reg 1) 4)) 1 irq)"
proof -
  define p where "p = plic_run [PlicWrite 0x14 4 7, PlicWrite 0x18 4 7, PlicWrite 0x2080 4 0x60, PlicIrq 6 True, PlicIrq 5 True] (plic_boot 7 2 [1])"
  have "plic_wf p" "num_contexts p = 2"
    unfolding p_def by (rule plic_boot_run)+
  moreover have "fst (plic_read p (claim_reg 1) 4) = 5" "context_active p 1"
    unfolding p_def by code_simp+
  ultimately show ?thesis
    unfolding p_def [symmetric] using plic_claim_best [of p 1]
    by (cases "plic_read p (claim_reg 1) 4") (auto simp: Let_def)
qed

text \<open>
  C22: An interrupt is handled once. After a context has claimed a source, no context can claim it
  again, whatever happens in between, until the source is completed or the controller is reset.
\<close>
theorem plic_claim_exclusive:
  assumes "plic_wf p" and "ctx < unat (num_contexts p)" and "plic_read p (claim_reg ctx) 4 = (v, p')" and "v \<noteq> 0"
    and "list_all (\<lambda>x. \<not> ends_claim (unat v) x) xs" and "ctx' < unat (num_contexts p)"
  shows "fst (plic_read (plic_run xs p') (claim_reg ctx') 4) \<noteq> v"
proof (rule claim_irq_cases [OF assms(2)])
  assume "claim_irq p ctx = (None, p)"
  then show ?thesis
    using assms(3,4) by (simp add: read_claim_reg [OF assms(2)])
next
  fix irq
  assume a: "claim_irq p ctx = (Some irq, claimed_state p ctx irq)" and b: "best_of p ctx {1..<unat (num_sources p)} (Some irq)"
  have i: "irq < unat (num_sources p)"
    using b by (simp add: best_of_def)
  have v: "v = of_nat irq" "p' = update_outputs (claimed_state p ctx irq)"
    using assms(3) by (simp_all add: read_claim_reg [OF assms(2)] a)
  have u: "unat v = irq"
    using source_small [OF i] v(1) by simp
  let ?q = "plic_run xs p'"
  have p': "plic_wf p'" "is_claimed p' irq"
    using plic_wf_claim [OF assms(1) a] word_index(2) [OF assms(1) i]
    by (simp_all add: v) (simp add: is_claimed_def claimed_state_def bit_simps bit_irq_bit)
  have q: "is_claimed ?q irq" "num_sources ?q = num_sources p" "ctx' < unat (num_contexts ?q)"
    using is_claimed_run [OF p'] assms(5,6) u by (simp_all add: v(2) update_outputs_def claimed_state_def)
  show ?thesis
  proof (rule claim_irq_cases [OF q(3)])
    assume "claim_irq ?q ctx' = (None, ?q)"
    then show ?thesis
      using assms(4) by (simp add: read_claim_reg [OF q(3)])
  next
    fix j
    assume j: "claim_irq ?q ctx' = (Some j, claimed_state ?q ctx' j)" "best_of ?q ctx' {1..<unat (num_sources ?q)} (Some j)"
    then have "j \<noteq> irq" "j < unat (num_sources ?q)"
      using is_claimed_not_ready [OF q(1)] by (auto simp: best_of_def)
    then have "(of_nat j :: u64) \<noteq> of_nat irq"
      using source_small [of j ?q] source_small [OF i] by metis
    then show ?thesis
      using j(1) by (simp add: read_claim_reg [OF q(3)] v(1))
  qed
qed

theorem plic_claim_exclusive_witness:
  "let p = plic_run [PlicWrite 0x14 4 7, PlicWrite 0x2000 4 0x20, PlicWrite 0x2080 4 0x20, PlicIrq 5 True] (plic_boot 7 2 [1])
   in fst (plic_read p (claim_reg 1) 4) = 5
      \<and> fst (plic_read (plic_run [PlicIrq 5 True] (snd (plic_read p (claim_reg 1) 4))) (claim_reg 0) 4) \<noteq> 5"
proof -
  define p where "p = plic_run [PlicWrite 0x14 4 7, PlicWrite 0x2000 4 0x20, PlicWrite 0x2080 4 0x20, PlicIrq 5 True] (plic_boot 7 2 [1])"
  have w: "plic_wf p" "num_contexts p = 2"
    unfolding p_def by (rule plic_boot_run)+
  moreover have "fst (plic_read p (claim_reg 1) 4) = 5"
    unfolding p_def by code_simp
  moreover from this obtain p' where "plic_read p (claim_reg 1) 4 = (5, p')"
    by (cases "plic_read p (claim_reg 1) 4") simp
  ultimately show ?thesis
    unfolding p_def [symmetric] using plic_claim_exclusive [of p 1 5 p' "[PlicIrq 5 True]" 0] by (simp add: Let_def)
qed

end
