(* ===== verification/Spec2Isabelle.thy ===== *)
theory Spec2Isabelle
  imports Address_Space Riscv_Guest Plic
begin

text \<open>
  A verification development for machina, a full-system emulator that runs RISC-V and LoongArch
  guests by translating them to host code. It covers the path of a RISC-V machine: physical
  memory, the hart, the helpers of translated code, the store of translated blocks, the dispatch
  loop that runs them, and the interrupt controller.

  \<^bold>\<open>Parts and how they interact.\<close> Physical memory is a tree of regions (\<open>memory/src/region.rs\<close>)
  that is flattened into a view (\<open>flat_view.rs\<close>) and dispatched by the address space
  (\<open>address_space.rs\<close>). A hart (\<open>guest/riscv/src/riscv/\<close>) has a CSR file, a PMP unit, an MMU with a
  software TLB, and trap handling. The full-system CPU (\<open>system/src/cpus.rs\<close>) joins both:
  translated code calls its helpers for accesses that miss the TLB, for LR/SC, atomic operations and
  CSR instructions. The dispatch loop (\<open>accel/src/exec/exec_loop.rs\<close>) asks the CPU for its pc and
  flags, finds a translated block in the jump cache or the store (\<open>tb_store.rs\<close>) or has the CPU
  generate one, runs it, chains blocks by patching their jumps in the code buffer
  (\<open>code_buffer.rs\<close>), flushes blocks whose code was written, and calls the hooks of the CPU for
  interrupts, faults and the exits of \<open>arch_exit.rs\<close>. The PLIC (\<open>hw/intc/src/plic.rs\<close>) turns device
  lines into the interrupt lines of the harts, and \<open>core/src/wfi.rs\<close> puts an idle hart to sleep.

  \<^bold>\<open>Conventions.\<close> Structs are records with the field names of the code, enums are datatypes, integers are
  words of their width. An operation takes the state and returns the new one. A \<open>Result\<close> is a sum whose
  left side is the error. A raw host access outside its block is the error \<open>OutOfBounds\<close> of the
  memory model. In the accelerator \<open>None\<close> is a panic or a walk that never ends; walks over linked
  blocks and the retry loop of the generator are partial functions in the option monad, and the
  loop properties show that they return. Code outside the modelled parts is a parameter: the MMIO
  callbacks of devices (\<open>mmio_ops\<close>), the generated decoders (\<open>decoder\<close>), the emission of host code
  (\<open>host_ops\<close>, with the contract \<open>translator_ok\<close>), the run of host code (\<open>host_code\<close>, with \<open>run_ok\<close>),
  and the wait for an interrupt.

  \<^bold>\<open>Memory.\<close> \<open>Memory_Regions\<close> models the region tree, \<open>collect\<close>, \<open>insert_range\<close> and \<open>lookup\<close>: the view is
  sorted and disjoint and its lookup refines the resolution by priority in the tree. \<open>Sized_Store\<close> holds the
  little-endian byte stores that the memories share, with the locale \<open>sized_store\<close> for what a
  memory of sized locations promises; it is interpreted on the RAM of an address space and on the
  memory that a hart reaches. \<open>Address_Space\<close> models reads and writes with their dispatch, bounds and round trips.

  \<^bold>\<open>Hart.\<close> \<open>Riscv_Config\<close> has the extensions and CPU profiles, \<open>Riscv_Csr\<close> the register file with
  privilege checks, masks and PMP locking, \<open>Riscv_Pmp\<close> the match and decision of the PMP unit
  against a specification by byte ranges, \<open>Riscv_Mmu\<close> the page walk and the TLB (soundness of a
  translation, exact flushes, transparent A/D updates), \<open>Riscv_Cpu\<close> trap entry, trap return and the selection of
  interrupts. \<open>Wfi\<close> models the waker and the waiters as an interleaving of steps in which no wake-up is missed.

  \<^bold>\<open>Full-system CPU.\<close> \<open>Full_System\<close> models the helpers, the fetch path, the CSR instruction path and the hooks of the
  dispatch loop. \<open>Hart_Memory\<close> proves the loads, stores, LR/SC and atomic operations, \<open>Hart_System\<close>
  faults, reservations and the delivery of interrupts, \<open>Hart_Invariant\<close> that every execution keeps
  the invariant of the hart and the decisions of locked PMP entries.

  \<^bold>\<open>Accelerator.\<close> \<open>Code_Buffer\<close> and \<open>Translation_Block\<close> model the buffer, jump patching, blocks, exit codes and the jump
  cache; \<open>Tb_Store\<close> the store with its hash chains, page lists and invalidation; \<open>Tb_Exec\<close> chaining,
  generation with its retries, search and flushes. \<open>Tb_Links\<close> has the lists threaded through the
  blocks (locale \<open>link_field\<close>, interpreted on the hash links and the page links), \<open>Tb_Invariant\<close>,
  \<open>Tb_Publish\<close>, \<open>Tb_Find\<close> and \<open>Tb_System\<close> the invariant of the store and that every operation keeps it.
  \<open>Exec_Loop\<close> is the dispatch loop over the trait \<open>GuestCpu\<close>, one function per part of an
  iteration; \<open>Exec_Loop_Invariant\<close> and \<open>Exec_Loop_Properties\<close> show for every guest that an
  iteration returns, that chained jumps lead to valid code and that written code is dropped.

  \<^bold>\<open>Composition.\<close> \<open>Riscv_Front\<close> models the fetch window of \<open>gen_code\<close> and the translation loop that
  splits guest memory into instructions. \<open>Riscv_Guest\<close> makes the full-system CPU a guest of the
  loop, with the exits of \<open>arch_exit.rs\<close>; it discharges the laws of the locale \<open>undisturbed_guest\<close>,
  so the block that runs is the one for the pc and flags of the hart. \<open>Plic\<close> models the interrupt
  controller: its lines, claims and completions.

  \<^bold>\<open>Bounds.\<close> Generation counters are 64 bits wide: the results on the loop hold for runs of fewer than 2^63
  iterations, since each iteration flushes at most twice. The code buffer is below 2 GiB, so
  that a jump reaches every block. Blocks are tracked by page below 2^20 pages, as in the code.

  \<^bold>\<open>Not modelled.\<close> What the decoders emit for an instruction (\<open>guest/riscv/src/riscv/trans/\<close>), the IR, its optimiser,
  register allocation and the instruction emitters of \<open>accel/\<close> are behind the contracts above, so
  nothing is said of the host code of a block. The LoongArch guest, floating point, the other devices and boards, the
  object model, the debugger and monitor, and the tools are not modelled. The blocks are used by
  one virtual CPU at a time: the locks and atomic orderings of the store are not modelled.
\<close>

end
